(* ===== verification/Prelude.thy ===== *)
theory Prelude
  imports Main "HOL-Library.Word"
begin

text \<open>
  Shared vocabulary of the development: the machine integers of the agent as words, results as
  sums (\<open>Inl\<close> is Rust's \<open>Err\<close>, \<open>Inr\<close> its \<open>Ok\<close>), byte strings, the big- and little-endian
  integer encodings of the standard library, and the generic lemmas on lists the components share.
  The collection \<open>wire\<close> gathers the rewrite rules of the byte encodings.
\<close>

named_theorems wire \<open>rewrite rules of the byte-level encodings\<close>

type_synonym u8 = "8 word"
type_synonym u16 = "16 word"
type_synonym u32 = "32 word"
type_synonym u64 = "64 word"
type_synonym bytes = "u8 list"
type_synonym ('a, 'e) result = "'e + 'a"

abbreviation Ok :: "'a \<Rightarrow> ('a, 'e) result" where "Ok \<equiv> Inr"
abbreviation Err :: "'e \<Rightarrow> ('a, 'e) result" where "Err \<equiv> Inl"

definition is_ok :: "('a, 'e) result \<Rightarrow> bool" where
  "is_ok r = (case r of Inl _ \<Rightarrow> False | Inr _ \<Rightarrow> True)"

lemma is_ok_simps [simp]: "is_ok (Ok x)" "\<not> is_ok (Err e)"
  by (simp_all add: is_ok_def)

lemma is_ok_iff: "is_ok r \<longleftrightarrow> (\<exists>x. r = Ok x)"
  by (cases r) auto

text \<open>\<open>option.ok_or\<close>, and the question-mark operator as a bind on results.\<close>

definition ok_or :: "'a option \<Rightarrow> 'e \<Rightarrow> ('a, 'e) result" where
  "ok_or x e = (case x of None \<Rightarrow> Err e | Some y \<Rightarrow> Ok y)"

lemma ok_or_simps [simp]: "ok_or None e = Err e" "ok_or (Some x) e = Ok x"
  by (simp_all add: ok_or_def)

fun bind_result :: "('a, 'e) result \<Rightarrow> ('a \<Rightarrow> ('b, 'e) result) \<Rightarrow> ('b, 'e) result" where
  "bind_result (Inl e) f = Inl e"
| "bind_result (Inr x) f = f x"

lemma bind_result_Ok_iff:
  "bind_result r f = Ok y \<longleftrightarrow> (\<exists>x. r = Ok x \<and> f x = Ok y)"
  by (cases r) auto

section \<open>Checked arithmetic\<close>

text \<open>Rust's \<open>checked_add\<close>: \<open>None\<close> on overflow.\<close>

definition checked_add :: "'w::len word \<Rightarrow> 'w word \<Rightarrow> 'w word option" where
  "checked_add a b = (if unat a + unat b < 2 ^ LENGTH('w) then Some (a + b) else None)"

lemma checked_add_Some: "checked_add a b = Some c \<Longrightarrow> unat c = unat a + unat b"
  by (auto simp: checked_add_def unat_word_ariths split: if_splits)

lemma checked_add_None_max: "checked_add (c :: u64) 1 = None \<longleftrightarrow> c = - 1"
proof -
  have "unat c < 2 ^ 64" using unsigned_less [of c] by simp
  moreover have "c = - 1 \<longleftrightarrow> unat c = 2 ^ 64 - 1"
    by (simp add: word_unat_eq_iff unsigned_minus_1_eq_mask mask_eq_exp_minus_1)
  ultimately show ?thesis by (auto simp: checked_add_def)
qed

section \<open>Endian encodings\<close>

text \<open>
  \<open>le_bytes n v\<close> is the little-endian encoding of \<open>v\<close> in \<open>n\<close> bytes and \<open>le_value\<close> reads
  one back; the big-endian encodings are their reversals.
\<close>

fun le_bytes :: "nat \<Rightarrow> nat \<Rightarrow> bytes" where
  "le_bytes 0 v = []"
| "le_bytes (Suc n) v = word_of_nat (v mod 256) # le_bytes n (v div 256)"

fun le_value :: "bytes \<Rightarrow> nat" where
  "le_value [] = 0"
| "le_value (b # bs) = unat b + 256 * le_value bs"

lemma length_le_bytes [simp, wire]: "length (le_bytes n v) = n"
  by (induction n arbitrary: v) auto

lemma unat_byte_of_nat [simp]: "unat (word_of_nat (v mod 256) :: u8) = v mod 256"
  by (simp add: unat_of_nat)

lemma le_value_le_bytes [wire]: "le_value (le_bytes n v) = v mod 256 ^ n"
proof (induction n arbitrary: v)
  case (Suc n)
  then show ?case
    by (simp add: mod_mult2_eq)
qed simp

lemma le_value_less: "le_value bs < 256 ^ length bs"
proof (induction bs)
  case (Cons b bs)
  have "unat b < 256" using unsigned_less [of b] by simp
  with Cons show ?case by simp
qed simp

lemma le_bytes_le_value [wire]: "le_bytes (length bs) (le_value bs) = bs"
proof (induction bs)
  case (Cons b bs)
  have b: "unat b < 256" using unsigned_less [of b] by simp
  then have "(unat b + 256 * le_value bs) mod 256 = unat b" "(unat b + 256 * le_value bs) div 256 = le_value bs"
    by simp_all
  with Cons show ?case by simp
qed simp

text \<open>\<open>u64::to_be_bytes\<close> and \<open>u64::from_be_bytes\<close>; \<open>u32\<close>/\<open>u16::to_le_bytes\<close>.\<close>

definition u64_to_be_bytes :: "u64 \<Rightarrow> bytes" where
  "u64_to_be_bytes c = rev (le_bytes 8 (unat c))"

definition u64_from_be_bytes :: "bytes \<Rightarrow> u64" where
  "u64_from_be_bytes bs = word_of_nat (le_value (rev bs))"

definition u32_to_le_bytes :: "u32 \<Rightarrow> bytes" where
  "u32_to_le_bytes c = le_bytes 4 (unat c)"

definition u16_to_le_bytes :: "u16 \<Rightarrow> bytes" where
  "u16_to_le_bytes c = le_bytes 2 (unat c)"

lemma length_endian [simp, wire]:
  "length (u64_to_be_bytes c) = 8" "length (u32_to_le_bytes d) = 4" "length (u16_to_le_bytes e) = 2"
  by (simp_all add: u64_to_be_bytes_def u32_to_le_bytes_def u16_to_le_bytes_def)

lemma u64_from_to_be [simp, wire]: "u64_from_be_bytes (u64_to_be_bytes c) = c"
proof -
  have "unat c < 256 ^ 8" using unsigned_less [of c] by simp
  then show ?thesis
    by (simp add: u64_from_be_bytes_def u64_to_be_bytes_def le_value_le_bytes)
qed

lemma u64_to_from_be [wire]:
  assumes "length bs = 8"
  shows "u64_to_be_bytes (u64_from_be_bytes bs) = bs"
proof -
  have "le_value (rev bs) < 2 ^ 64"
    using le_value_less [of "rev bs"] assms by simp
  then have "unat (word_of_nat (le_value (rev bs)) :: u64) = le_value (rev bs)"
    by (simp add: unat_of_nat)
  then show ?thesis
    using le_bytes_le_value [of "rev bs"] assms
    by (simp add: u64_to_be_bytes_def u64_from_be_bytes_def)
qed

lemma u64_to_be_inject [simp]: "u64_to_be_bytes c = u64_to_be_bytes d \<longleftrightarrow> c = d"
  by (metis u64_from_to_be)

section \<open>Lists\<close>

text \<open>\<open>select mask xs\<close> keeps the elements of \<open>xs\<close> whose mask bit is set.\<close>

fun select :: "bool list \<Rightarrow> 'a list \<Rightarrow> 'a list" where
  "select (b # bs) (x # xs) = (if b then x # select bs xs else select bs xs)"
| "select _ _ = []"

lemma select_map: "select bits (map f xs) = map f (select bits xs)"
  by (induction bits xs rule: select.induct) auto

lemma sorted_wrt_less_distinct: "sorted_wrt (<) (ns :: nat list) \<Longrightarrow> distinct ns"
  by (induction ns) auto

end
