(* ===== verification/Guards.thy ===== *)
theory Guards
  imports Prelude
begin

text \<open>
  The interface of everything in the agent that protects against replays: an acceptor with a high
  water mark. Two components provide it, the signaling \<open>ReplayGuard\<close> and the receiving half of the
  secure channel. What a client may rely on is proved once, in the locale: over any input, however
  an adversary orders or repeats it, the accepted numbers increase strictly.
\<close>

text \<open>\<open>feed\<close> offers a list of messages to an acceptor; the accepted ones are collected.\<close>

fun feed :: "('s \<Rightarrow> 'm \<Rightarrow> 's \<times> bool) \<Rightarrow> 's \<Rightarrow> 'm list \<Rightarrow> 's \<times> 'm list" where
  "feed step s [] = (s, [])"
| "feed step s (m # ms) =
     (let (s1, ok) = step s m; (s2, acc) = feed step s1 ms
      in (s2, if ok then m # acc else acc))"

text \<open>\<open>fresh_for\<close>: the number exceeds the high water mark, if there is one.\<close>

definition fresh_for :: "nat option \<Rightarrow> nat \<Rightarrow> bool" where
  "fresh_for mk n = (case mk of None \<Rightarrow> True | Some l \<Rightarrow> l < n)"

lemma fresh_for_simps [simp]: "fresh_for None n" "fresh_for (Some l) n \<longleftrightarrow> l < n"
  by (simp_all add: fresh_for_def)

lemma fresh_for_trans: "fresh_for mk n \<Longrightarrow> n < k \<Longrightarrow> fresh_for mk k"
  by (auto simp: fresh_for_def split: option.splits)

text \<open>The abstract specification of a complete guard: keep the left-to-right strict maxima.\<close>

fun strict_maxima :: "('m \<Rightarrow> nat) \<Rightarrow> nat option \<Rightarrow> 'm list \<Rightarrow> 'm list" where
  "strict_maxima num mk [] = []"
| "strict_maxima num mk (m # ms) =
     (if fresh_for mk (num m) then m # strict_maxima num (Some (num m)) ms
      else strict_maxima num mk ms)"

lemma strict_maxima_increasing:
  "sorted_wrt (<) (map num ms) \<Longrightarrow> (\<forall>m \<in> set ms. fresh_for mk (num m)) \<Longrightarrow> strict_maxima num mk ms = ms"
  by (induction ms arbitrary: mk) auto

locale monotone_guard =
  fixes mark :: "'s \<Rightarrow> nat option"
    and step :: "'s \<Rightarrow> 'm \<Rightarrow> 's \<times> bool"
    and num :: "'m \<Rightarrow> nat"
  assumes accept_fresh: "step s m = (t, True) \<Longrightarrow> fresh_for (mark s) (num m)"
    and accept_mark: "step s m = (t, True) \<Longrightarrow> mark t = Some (num m)"
    and reject_keeps: "step s m = (t, False) \<Longrightarrow> t = s"
begin

lemma feed_above_mark:
  "feed step s ms = (t, acc) \<Longrightarrow> m \<in> set acc \<Longrightarrow> fresh_for (mark s) (num m)"
proof (induction ms arbitrary: s t acc)
  case Nil
  then show ?case by simp
next
  case (Cons x xs)
  obtain s1 ok where st: "step s x = (s1, ok)" by force
  obtain s2 acc' where fd: "feed step s1 xs = (s2, acc')" by force
  show ?case
  proof (cases ok)
    case True
    with st have st': "step s x = (s1, True)" by simp
    note f = accept_fresh [OF st'] and mk = accept_mark [OF st']
    show ?thesis
    proof (cases "m = x")
      case False
      with Cons.prems st fd True have "m \<in> set acc'" by auto
      from Cons.IH [OF fd this] mk have "num x < num m" by simp
      with f show ?thesis by (rule fresh_for_trans)
    qed (use f in simp)
  next
    case False
    with st have "s1 = s" by (intro reject_keeps) simp
    with Cons.prems st fd False show ?thesis using Cons.IH [OF fd] by auto
  qed
qed

lemma feed_increasing:
  "feed step s ms = (t, acc) \<Longrightarrow> sorted_wrt (<) (map num acc)"
proof (induction ms arbitrary: s t acc)
  case (Cons x xs)
  obtain s1 ok where st: "step s x = (s1, ok)" by force
  obtain s2 acc' where fd: "feed step s1 xs = (s2, acc')" by force
  from Cons.IH [OF fd] have so: "sorted_wrt (<) (map num acc')" .
  show ?case
  proof (cases ok)
    case True
    with st have "mark s1 = Some (num x)" by (intro accept_mark) simp
    then have "\<forall>m \<in> set acc'. num x < num m"
      using feed_above_mark [OF fd] by simp
    with so Cons.prems st fd True show ?thesis by auto
  qed (use so Cons.prems st fd in auto)
qed simp

lemma feed_at_most_once: "feed step s ms = (t, acc) \<Longrightarrow> distinct acc"
  using feed_increasing sorted_wrt_less_distinct distinct_map by blast

lemma feed_mark_keeps:
  "feed step s ms = (t, acc) \<Longrightarrow> mark s = Some l \<Longrightarrow> \<exists>l'. mark t = Some l' \<and> l \<le> l'"
proof (induction ms arbitrary: s t acc l)
  case (Cons x xs)
  obtain s1 ok where st: "step s x = (s1, ok)" by force
  obtain s2 acc' where fd: "feed step s1 xs = (s2, acc')" by force
  have "\<exists>l1. mark s1 = Some l1 \<and> l \<le> l1"
  proof (cases ok)
    case True
    with st Cons.prems(2) accept_fresh [of s x s1] accept_mark [of s x s1] show ?thesis by simp
  next
    case False
    with st reject_keeps [of s x s1] Cons.prems(2) show ?thesis by simp
  qed
  then obtain l1 where l1: "mark s1 = Some l1" "l \<le> l1" by blast
  from Cons.IH [OF fd l1(1)] obtain l2 where "mark s2 = Some l2" "l1 \<le> l2" by blast
  with l1 Cons.prems(1) st fd show ?case by auto
qed auto

text \<open>A message that was accepted once is refused whatever came in between.\<close>

lemma no_second_acceptance:
  assumes "step s m = (s1, True)" and "feed step s1 ms = (t, acc)" and "num m' \<le> num m"
  shows "snd (step t m') = False"
proof (rule ccontr)
  assume "snd (step t m') \<noteq> False"
  then obtain t' where st: "step t m' = (t', True)" by (cases "step t m'") auto
  from accept_mark [OF assms(1)] feed_mark_keeps [OF assms(2)]
  obtain l where "mark t = Some l" "num m \<le> l" by blast
  with accept_fresh [OF st] assms(3) show False by simp
qed

end

text \<open>A guard that also accepts every fresh message implements the specification exactly.\<close>

locale complete_guard = monotone_guard mark step num
  for mark :: "'s \<Rightarrow> nat option"
    and step :: "'s \<Rightarrow> 'm \<Rightarrow> 's \<times> bool"
    and num :: "'m \<Rightarrow> nat" +
  assumes fresh_accepted: "fresh_for (mark s) (num m) \<Longrightarrow> snd (step s m)"
begin

lemma feed_strict_maxima: "snd (feed step s ms) = strict_maxima num (mark s) ms"
proof (induction ms arbitrary: s)
  case (Cons x xs)
  obtain s1 ok where st: "step s x = (s1, ok)" by force
  show ?case
  proof (cases ok)
    case True
    with st accept_fresh [of s x s1] accept_mark [of s x s1] Cons.IH [of s1]
    show ?thesis by (auto split: prod.splits)
  next
    case False
    with st reject_keeps [of s x s1] fresh_accepted [of s x] Cons.IH [of s1]
    show ?thesis by (auto split: prod.splits)
  qed
qed simp

end

end
