(* ===== verification/Crypto.thy ===== *)
theory Crypto
  imports Guards
begin

text \<open>
  The end-to-end session encryption (\<open>crates/crypto/src/lib.rs\<close>) and certificate pinning
  (\<open>crates/crypto/src/pinning.rs\<close>). AES-256-GCM, HKDF-SHA256, X25519, SHA-256 and base64 are
  third-party crates and enter as the fields of parameter records; what the channel relies on is
  stated by \<open>gcm_laws\<close>, \<open>gcm_binding\<close>, \<open>kdf_laws\<close> and \<open>dh_laws\<close>. The receiving half of a channel
  interprets the locale \<open>monotone_guard\<close>.
\<close>

section \<open>Constants, errors, roles\<close>

definition KEY_LEN :: nat where [simp]: "KEY_LEN = 32"
definition NONCE_LEN :: nat where [simp]: "NONCE_LEN = 12"
definition TAG_LEN :: nat where [simp]: "TAG_LEN = 16"
definition COUNTER_LEN :: nat where [simp]: "COUNTER_LEN = 8"

definition ascii :: "string \<Rightarrow> bytes" where
  "ascii s = map of_char s"

definition HKDF_SALT :: bytes where "HKDF_SALT = ascii ''desksync-e2e-v1''"
definition INFO_C2A :: bytes where "INFO_C2A = ascii ''c2a''"
definition INFO_A2C :: bytes where "INFO_A2C = ascii ''a2c''"
definition DIR_C2A :: u8 where "DIR_C2A = 1"
definition DIR_A2C :: u8 where "DIR_A2C = 2"

datatype crypto_error = Malformed | Replay | Open | Seal | CounterExhausted

datatype role = Controller | Agent

section \<open>The primitives the channel is built from\<close>

text \<open>
  \<open>gcm_encrypt key nonce aad msg\<close> is the ciphertext with its tag appended, \<open>None\<close> when the crate
  refuses the message (too long); \<open>gcm_decrypt\<close> is \<open>None\<close> when the tag does not verify.
\<close>

record aead_lib =
  gcm_encrypt :: "bytes \<Rightarrow> bytes \<Rightarrow> bytes \<Rightarrow> bytes \<Rightarrow> bytes option"
  gcm_decrypt :: "bytes \<Rightarrow> bytes \<Rightarrow> bytes \<Rightarrow> bytes \<Rightarrow> bytes option"

text \<open>
  \<open>hkdf_sha256 salt ikm info n\<close> extracts and expands to \<open>n\<close> bytes (\<open>None\<close> when \<open>n\<close> exceeds the
  limit of RFC 5869); \<open>x25519 secret public\<close> is the shared secret and \<open>x25519_base\<close> the public key.
\<close>

record kdf_lib =
  hkdf_sha256 :: "bytes \<Rightarrow> bytes \<Rightarrow> bytes \<Rightarrow> nat \<Rightarrow> bytes option"
  x25519 :: "bytes \<Rightarrow> bytes \<Rightarrow> bytes"
  x25519_base :: "bytes \<Rightarrow> bytes"

definition gcm_laws :: "aead_lib \<Rightarrow> bool" where
  "gcm_laws A \<longleftrightarrow> (\<forall>k n a m c. length k = KEY_LEN \<longrightarrow> length n = NONCE_LEN \<longrightarrow>
     gcm_encrypt A k n a m = Some c \<longrightarrow>
     length c = length m + TAG_LEN \<and> gcm_decrypt A k n a c = Some m)"

text \<open>GCM is deterministic: a ciphertext that verifies is the encryption of what it decrypts to.\<close>

definition gcm_binding :: "aead_lib \<Rightarrow> bool" where
  "gcm_binding A \<longleftrightarrow> (\<forall>k n a m c. gcm_decrypt A k n a c = Some m \<longrightarrow> gcm_encrypt A k n a m = Some c)"

definition kdf_laws :: "kdf_lib \<Rightarrow> bool" where
  "kdf_laws H \<longleftrightarrow> (\<forall>salt ikm info n. n \<le> 255 * 32 \<longrightarrow>
     (\<exists>okm. hkdf_sha256 H salt ikm info n = Some okm \<and> length okm = n))"

definition dh_laws :: "kdf_lib \<Rightarrow> bool" where
  "dh_laws H \<longleftrightarrow> (\<forall>a b. x25519 H a (x25519_base H b) = x25519 H b (x25519_base H a))"

lemma gcm_lawsD:
  assumes "gcm_laws A" "length k = 32" "length n = 12" "gcm_encrypt A k n a m = Some c"
  shows "length c = length m + 16" "gcm_decrypt A k n a c = Some m"
  using assms unfolding gcm_laws_def KEY_LEN_def NONCE_LEN_def TAG_LEN_def by blast+

section \<open>Key derivation\<close>

definition x25519_ecdh :: "kdf_lib \<Rightarrow> bytes \<Rightarrow> bytes \<Rightarrow> bytes" where
  "x25519_ecdh H local_secret peer_public = x25519 H local_secret peer_public"

text \<open>The HKDF \<open>info\<close> string that \<open>expand\<close> assembles.\<close>

definition expand_info :: "bytes \<Rightarrow> bytes \<Rightarrow> bytes \<Rightarrow> bytes \<Rightarrow> bytes" where
  "expand_info prefix session_id controller_pub agent_pub =
     prefix @ session_id @ controller_pub @ agent_pub"

text \<open>\<open>None\<close> is the panic of the \<open>expect\<close>.\<close>

definition expand :: "kdf_lib \<Rightarrow> bytes \<Rightarrow> bytes \<Rightarrow> bytes \<Rightarrow> bytes \<Rightarrow> bytes \<Rightarrow> bytes option" where
  "expand H shared prefix session_id controller_pub agent_pub =
     hkdf_sha256 H HKDF_SALT shared (expand_info prefix session_id controller_pub agent_pub) KEY_LEN"

definition derive_keys ::
    "kdf_lib \<Rightarrow> bytes \<Rightarrow> bytes \<Rightarrow> bytes \<Rightarrow> bytes \<Rightarrow> (bytes \<times> bytes) option" where
  "derive_keys H shared session_id controller_pub agent_pub =
     (case expand H shared INFO_C2A session_id controller_pub agent_pub of
        None \<Rightarrow> None
      | Some c2a \<Rightarrow> (case expand H shared INFO_A2C session_id controller_pub agent_pub of
          None \<Rightarrow> None
        | Some a2c \<Rightarrow> Some (c2a, a2c)))"

section \<open>The channel\<close>

record secure_channel =
  send_key :: bytes
  recv_key :: bytes
  send_dir :: u8
  recv_dir :: u8
  session_id :: bytes
  send_counter :: u64
  recv_last :: "u64 option"

definition channel_new ::
    "kdf_lib \<Rightarrow> bytes \<Rightarrow> bytes \<Rightarrow> bytes \<Rightarrow> bytes \<Rightarrow> role \<Rightarrow> secure_channel option" where
  "channel_new H shared sid controller_pub agent_pub r =
     (case derive_keys H shared sid controller_pub agent_pub of
        None \<Rightarrow> None
      | Some (c2a, a2c) \<Rightarrow>
          (let (sk, sd, rk, rd) =
             (case r of Controller \<Rightarrow> (c2a, DIR_C2A, a2c, DIR_A2C)
                      | Agent \<Rightarrow> (a2c, DIR_A2C, c2a, DIR_C2A))
           in Some \<lparr>send_key = sk, recv_key = rk, send_dir = sd, recv_dir = rd,
                    session_id = sid, send_counter = 0, recv_last = None\<rparr>))"

definition channel_establish ::
    "kdf_lib \<Rightarrow> bytes \<Rightarrow> bytes \<Rightarrow> string \<Rightarrow> bytes \<Rightarrow> bytes \<Rightarrow> role \<Rightarrow> secure_channel option" where
  "channel_establish H local_secret peer_public sid controller_pub agent_pub r =
     (let shared = x25519_ecdh H local_secret peer_public
      in channel_new H shared (ascii sid) controller_pub agent_pub r)"

definition nonce_for :: "u64 \<Rightarrow> bytes" where
  "nonce_for counter = replicate (NONCE_LEN - COUNTER_LEN) 0 @ u64_to_be_bytes counter"

definition aad_for :: "bytes \<Rightarrow> u8 \<Rightarrow> bytes" where
  "aad_for sid dir = sid @ [dir]"

definition channel_seal ::
    "aead_lib \<Rightarrow> secure_channel \<Rightarrow> bytes \<Rightarrow> secure_channel \<times> (bytes, crypto_error) result" where
  "channel_seal A ch plaintext =
     (let counter = send_counter ch in
      if length (send_key ch) \<noteq> KEY_LEN then (ch, Err Seal)
      else (case gcm_encrypt A (send_key ch) (nonce_for counter)
                   (aad_for (session_id ch) (send_dir ch)) plaintext of
              None \<Rightarrow> (ch, Err Seal)
            | Some ct \<Rightarrow>
                (case checked_add counter 1 of
                   None \<Rightarrow> (ch, Err CounterExhausted)
                 | Some nxt \<Rightarrow> (ch\<lparr>send_counter := nxt\<rparr>, Ok (u64_to_be_bytes counter @ ct)))))"

definition channel_open ::
    "aead_lib \<Rightarrow> secure_channel \<Rightarrow> bytes \<Rightarrow> secure_channel \<times> (bytes, crypto_error) result" where
  "channel_open A ch frame =
     (if length frame < COUNTER_LEN + TAG_LEN then (ch, Err Malformed)
      else
        let counter = u64_from_be_bytes (take COUNTER_LEN frame) in
        if (case recv_last ch of Some l \<Rightarrow> counter \<le> l | None \<Rightarrow> False) then (ch, Err Replay)
        else if length (recv_key ch) \<noteq> KEY_LEN then (ch, Err Open)
        else (case gcm_decrypt A (recv_key ch) (nonce_for counter)
                     (aad_for (session_id ch) (recv_dir ch)) (drop COUNTER_LEN frame) of
                None \<Rightarrow> (ch, Err Open)
              | Some pt \<Rightarrow> (ch\<lparr>recv_last := Some counter\<rparr>, Ok pt)))"

text \<open>Sealing and opening a list of messages, one after the other.\<close>

fun seal_all where
  "seal_all A ch [] = (ch, [])"
| "seal_all A ch (m # ms) =
     (let (ch1, r) = channel_seal A ch m; (ch2, rs) = seal_all A ch1 ms in (ch2, r # rs))"

fun open_all where
  "open_all A ch [] = (ch, [])"
| "open_all A ch (f # fs) =
     (let (ch1, r) = channel_open A ch f; (ch2, rs) = open_all A ch1 fs in (ch2, r # rs))"

section \<open>Lemmas on sealing and opening\<close>

lemma length_nonce_for [simp]: "length (nonce_for c) = 12"
  by (simp add: nonce_for_def)

lemma nonce_for_inject [simp]: "nonce_for c = nonce_for d \<longleftrightarrow> c = d"
  by (simp add: nonce_for_def)

lemma aad_for_inject [simp]: "aad_for s d = aad_for t e \<longleftrightarrow> s = t \<and> d = e"
  by (simp add: aad_for_def)

lemma channel_seal_Ok:
  assumes "channel_seal A ch m = (ch', Ok f)"
  obtains ct where "gcm_encrypt A (send_key ch) (nonce_for (send_counter ch))
                      (aad_for (session_id ch) (send_dir ch)) m = Some ct"
    and "f = u64_to_be_bytes (send_counter ch) @ ct" and "length (send_key ch) = 32"
    and "ch' = ch\<lparr>send_counter := send_counter ch + 1\<rparr>"
    and "unat (send_counter ch') = unat (send_counter ch) + 1"
proof -
  obtain ct where ct: "length (send_key ch) = 32"
    "gcm_encrypt A (send_key ch) (nonce_for (send_counter ch))
       (aad_for (session_id ch) (send_dir ch)) m = Some ct"
    "\<exists>c'. checked_add (send_counter ch) 1 = Some c' \<and> ch' = ch\<lparr>send_counter := c'\<rparr>"
    "f = u64_to_be_bytes (send_counter ch) @ ct"
    using assms by (auto simp: channel_seal_def Let_def split: if_splits option.splits)
  then obtain c' where c': "checked_add (send_counter ch) 1 = Some c'" "ch' = ch\<lparr>send_counter := c'\<rparr>"
    by blast
  have "c' = send_counter ch + 1" "unat c' = unat (send_counter ch) + 1"
    using c'(1) checked_add_Some [OF c'(1)] by (auto simp: checked_add_def split: if_splits)
  with ct c' that show ?thesis by simp
qed

lemma channel_seal_Err_keeps: "channel_seal A ch m = (ch', Err e) \<Longrightarrow> ch' = ch"
  by (auto simp: channel_seal_def Let_def split: if_splits option.splits)

lemma channel_open_Ok:
  assumes "channel_open A ch f = (ch', Ok m)"
  shows "24 \<le> length f" and "length (recv_key ch) = 32"
    and "gcm_decrypt A (recv_key ch) (nonce_for (u64_from_be_bytes (take 8 f)))
           (aad_for (session_id ch) (recv_dir ch)) (drop 8 f) = Some m"
    and "fresh_for (map_option unat (recv_last ch)) (unat (u64_from_be_bytes (take 8 f)))"
    and "ch' = ch\<lparr>recv_last := Some (u64_from_be_bytes (take 8 f))\<rparr>"
  using assms
  by (auto simp: channel_open_def Let_def fresh_for_def word_le_nat_alt not_le
           split: if_splits option.splits)

lemma channel_open_Err_keeps: "channel_open A ch f = (ch', Err e) \<Longrightarrow> ch' = ch"
  by (auto simp: channel_open_def Let_def split: if_splits option.splits)

lemma channel_open_intro:
  assumes "length f \<ge> 24" "length (recv_key ch) = 32"
    and "fresh_for (map_option unat (recv_last ch)) (unat (u64_from_be_bytes (take 8 f)))"
    and "gcm_decrypt A (recv_key ch) (nonce_for (u64_from_be_bytes (take 8 f)))
           (aad_for (session_id ch) (recv_dir ch)) (drop 8 f) = Some m"
  shows "channel_open A ch f = (ch\<lparr>recv_last := Some (u64_from_be_bytes (take 8 f))\<rparr>, Ok m)"
  using assms
  by (auto simp: channel_open_def Let_def fresh_for_def word_le_nat_alt not_le split: option.splits)

text \<open>
  \<open>linked s r\<close>: what \<open>s\<close> seals, \<open>r\<close> can open. The endpoints share the key, the direction byte and
  the session of that direction, and everything \<open>r\<close> has accepted was numbered below \<open>s\<close>'s counter.
\<close>

definition linked :: "secure_channel \<Rightarrow> secure_channel \<Rightarrow> bool" where
  "linked s r \<longleftrightarrow> send_key s = recv_key r \<and> send_dir s = recv_dir r \<and> session_id s = session_id r
     \<and> fresh_for (map_option unat (recv_last r)) (unat (send_counter s))"

lemma linked_seal:
  assumes "linked s r" and "channel_seal A s m = (s', Ok f)"
  shows "linked s' r"
  using assms(2)
proof (rule channel_seal_Ok)
  assume s': "s' = s\<lparr>send_counter := send_counter s + 1\<rparr>"
    and un: "unat (send_counter s') = unat (send_counter s) + 1"
  have "fresh_for (map_option unat (recv_last r)) (unat (send_counter s'))"
    using assms(1) un fresh_for_trans by (fastforce simp: linked_def)
  with assms(1) s' show ?thesis by (simp add: linked_def)
qed

lemma open_sealed:
  assumes laws: "gcm_laws A" and lk: "linked s r" and sl: "channel_seal A s m = (s', Ok f)"
  obtains r' where "channel_open A r f = (r', Ok m)" and "linked s' r'"
proof -
  from sl obtain ct where ct: "gcm_encrypt A (send_key s) (nonce_for (send_counter s))
        (aad_for (session_id s) (send_dir s)) m = Some ct"
    and f: "f = u64_to_be_bytes (send_counter s) @ ct" and k: "length (send_key s) = 32"
    and s': "s' = s\<lparr>send_counter := send_counter s + 1\<rparr>"
    and un: "unat (send_counter s') = unat (send_counter s) + 1"
    by (rule channel_seal_Ok)
  note L = gcm_lawsD [OF laws k length_nonce_for ct]
  have op: "channel_open A r f = (r\<lparr>recv_last := Some (send_counter s)\<rparr>, Ok m)"
    using channel_open_intro [of f r A m] L f k lk by (simp add: linked_def)
  have "linked s' (r\<lparr>recv_last := Some (send_counter s)\<rparr>)"
    using lk s' un by (simp add: linked_def)
  with op show ?thesis by (rule that)
qed

text \<open>A freshly built pair of channels is linked in both directions.\<close>

lemma channel_new_cases:
  "channel_new H sh sid cp ap r = Some ch \<longleftrightarrow>
   (\<exists>c2a a2c. derive_keys H sh sid cp ap = Some (c2a, a2c) \<and>
     ch = (if r = Controller
           then \<lparr>send_key = c2a, recv_key = a2c, send_dir = DIR_C2A, recv_dir = DIR_A2C,
                 session_id = sid, send_counter = 0, recv_last = None\<rparr>
           else \<lparr>send_key = a2c, recv_key = c2a, send_dir = DIR_A2C, recv_dir = DIR_C2A,
                 session_id = sid, send_counter = 0, recv_last = None\<rparr>))"
  by (cases r) (auto simp: channel_new_def split: option.splits)

lemma channel_new_linked:
  assumes "channel_new H sh sid cp ap Controller = Some c" and "channel_new H sh sid cp ap Agent = Some a"
  shows "linked c a" and "linked a c"
  using assms unfolding channel_new_cases by (auto simp: linked_def)

text \<open>Delivery: opening any subsequence of what was sealed yields the plaintexts in order.\<close>

lemma open_all_selected:
  assumes laws: "gcm_laws A"
  shows "linked s r \<Longrightarrow> seal_all A s ms = (s', map Ok fs) \<Longrightarrow>
    snd (open_all A r (select bits fs)) = map Ok (select bits ms)"
proof (induction ms arbitrary: s r fs bits)
  case Nil
  then show ?case by simp
next
  case (Cons m ms)
  obtain s1 x where sl: "channel_seal A s m = (s1, x)" by force
  obtain s2 rs where sa: "seal_all A s1 ms = (s2, rs)" by force
  from Cons.prems(2) sl sa obtain f fs' where fs: "fs = f # fs'" "x = Ok f" "rs = map Ok fs'" "s2 = s'"
    by (cases fs) auto
  show ?case
  proof (cases bits)
    case Nil
    with fs show ?thesis by simp
  next
    case bb: (Cons b bs)
    from sl fs have sl': "channel_seal A s m = (s1, Ok f)" by simp
    obtain r' where op: "channel_open A r f = (r', Ok m)" and lk: "linked s1 r'"
      using open_sealed [OF laws Cons.prems(1) sl'] .
    have lk0: "linked s1 r" by (rule linked_seal [OF Cons.prems(1) sl'])
    show ?thesis
      using Cons.IH [OF lk, of fs' bs] Cons.IH [OF lk0, of fs' bs] sa fs bb op
      by (auto split: prod.splits)
  qed
qed

section \<open>The receiving half is a monotone guard\<close>

definition frame_counter :: "bytes \<Rightarrow> u64" where
  "frame_counter f = u64_from_be_bytes (take 8 f)"

definition open_step :: "aead_lib \<Rightarrow> secure_channel \<Rightarrow> bytes \<Rightarrow> secure_channel \<times> bool" where
  "open_step A ch f = (let (ch', r) = channel_open A ch f in (ch', is_ok r))"

interpretation opener: monotone_guard
  "\<lambda>ch. map_option unat (recv_last ch)" "open_step A" "\<lambda>f. unat (frame_counter f)" for A
proof (unfold_locales, goal_cases)
  case (1 s m t)
  then obtain x where "channel_open A s m = (t, Ok x)"
    by (auto simp: open_step_def is_ok_iff split: prod.splits)
  from channel_open_Ok(4) [OF this] show ?case by (simp add: frame_counter_def)
next
  case (2 s m t)
  then obtain x where "channel_open A s m = (t, Ok x)"
    by (auto simp: open_step_def is_ok_iff split: prod.splits)
  from channel_open_Ok(5) [OF this] show ?case by (simp add: frame_counter_def)
next
  case (3 s m t)
  then obtain e where "channel_open A s m = (t, Err e)"
    by (cases "snd (channel_open A s m)") (auto simp: open_step_def split: prod.splits)
  then show ?case by (rule channel_open_Err_keeps)
qed

section \<open>Certificate pinning\<close>

text \<open>
  A pinner holds its pins; \<open>sha256\<close> and the base64 engine are parameters. \<open>verify_der\<close> fails
  closed when no pin is configured.
\<close>

record pin_lib =
  sha256 :: "bytes \<Rightarrow> bytes"
  base64_standard :: "bytes \<Rightarrow> string"

record cert_pinner =
  pins :: "string list"

definition pinner_new :: "string list \<Rightarrow> cert_pinner" where
  "pinner_new ps = \<lparr>pins = ps\<rparr>"

definition is_configured :: "cert_pinner \<Rightarrow> bool" where
  "is_configured p \<longleftrightarrow> pins p \<noteq> []"

definition pin_for_der :: "pin_lib \<Rightarrow> bytes \<Rightarrow> string" where
  "pin_for_der L der = base64_standard L (sha256 L der)"

definition verify_der :: "pin_lib \<Rightarrow> cert_pinner \<Rightarrow> bytes \<Rightarrow> bool" where
  "verify_der L p der =
     (if \<not> is_configured p then False
      else let pin = pin_for_der L der in list_ex (\<lambda>q. q = pin) (pins p))"


section \<open>Properties of the channel\<close>

definition gcm_accepts :: "aead_lib \<Rightarrow> bytes \<Rightarrow> bool" where
  "gcm_accepts A m \<longleftrightarrow> (\<forall>k n a. length k = KEY_LEN \<longrightarrow> length n = NONCE_LEN \<longrightarrow> gcm_encrypt A k n a m \<noteq> None)"

lemma channel_seal_succeeds:
  assumes "gcm_accepts A m" "length (send_key ch) = 32" "unat (send_counter ch) < 2 ^ 64 - 1"
  obtains ch' f where "channel_seal A ch m = (ch', Ok f)"
proof -
  have "gcm_encrypt A (send_key ch) (nonce_for (send_counter ch)) (aad_for (session_id ch) (send_dir ch)) m \<noteq> None"
    using assms(1,2) unfolding gcm_accepts_def KEY_LEN_def NONCE_LEN_def by (meson length_nonce_for)
  then obtain ct where "gcm_encrypt A (send_key ch) (nonce_for (send_counter ch))
      (aad_for (session_id ch) (send_dir ch)) m = Some ct" by blast
  then show ?thesis using that assms(2,3) by (simp add: channel_seal_def checked_add_def Let_def)
qed

lemma seal_all_succeeds:
  assumes "length (send_key ch) = 32" "\<forall>m \<in> set ms. gcm_accepts A m"
    and "unat (send_counter ch) + length ms < 2 ^ 64"
  shows "\<exists>ch' fs. seal_all A ch ms = (ch', map Ok fs)"
  using assms
proof (induction ms arbitrary: ch)
  case (Cons m ms)
  from Cons.prems have pre: "gcm_accepts A m" "unat (send_counter ch) < 2 ^ 64 - 1" by auto
  obtain ch1 f where sl: "channel_seal A ch m = (ch1, Ok f)"
    using channel_seal_succeeds [OF pre(1) Cons.prems(1) pre(2)] .
  then have ch1: "length (send_key ch1) = 32" "unat (send_counter ch1) = unat (send_counter ch) + 1"
    using Cons.prems(1) by (auto elim: channel_seal_Ok)
  with Cons.IH [of ch1] Cons.prems obtain ch2 fs where "seal_all A ch1 ms = (ch2, map Ok fs)" by auto
  with sl have "seal_all A ch (m # ms) = (ch2, map Ok (f # fs))" by simp
  then show ?case by blast
qed auto

lemma derive_keys_total:
  assumes "kdf_laws H"
  obtains c2a a2c where "derive_keys H sh sid cp ap = Some (c2a, a2c)" "length c2a = 32" "length a2c = 32"
proof -
  have "\<exists>okm. expand H sh p sid cp ap = Some okm \<and> length okm = 32" for p
    using assms by (simp add: kdf_laws_def expand_def)
  from this [of INFO_C2A] this [of INFO_A2C] that show ?thesis by (auto simp: derive_keys_def)
qed

text \<open>The received plaintexts when \<open>s\<close> seals \<open>ms\<close> and the network delivers the frames \<open>bits\<close> selects.\<close>

definition delivered :: "aead_lib \<Rightarrow> secure_channel \<Rightarrow> secure_channel \<Rightarrow> bytes list \<Rightarrow> bool list \<Rightarrow> bool" where
  "delivered A s r ms bits \<longleftrightarrow> (\<exists>fs. snd (seal_all A s ms) = map Ok fs
     \<and> snd (open_all A r (select bits fs)) = map Ok (select bits ms))"

lemma linked_delivered:
  assumes "gcm_laws A" "linked s r" "length (send_key s) = 32"
    and "unat (send_counter s) + length ms < 2 ^ 64" "\<forall>m \<in> set ms. gcm_accepts A m"
  shows "delivered A s r ms bits"
proof -
  obtain s' fs where sa: "seal_all A s ms = (s', map Ok fs)"
    using seal_all_succeeds [OF assms(3) assms(5,4)] by blast
  with open_all_selected [OF assms(1,2) sa] show ?thesis by (auto simp: delivered_def)
qed

text \<open>
  C1: two devices that establish a channel from their own secret and the peer's public key, under
  the same session id and public keys, can talk in both directions: every message the AEAD accepts
  is sealed, and whatever subsequence of the frames the network delivers, the peer opens exactly
  the plaintexts of that subsequence, in order.
\<close>

theorem established_channels_deliver:
  assumes "gcm_laws A" "kdf_laws H" "dh_laws H"
    and "\<forall>m \<in> set ms. gcm_accepts A m" "length ms < 2 ^ 64"
  shows "\<exists>c a. channel_establish H csec (x25519_base H asec) sid cp ap Controller = Some c
     \<and> channel_establish H asec (x25519_base H csec) sid cp ap Agent = Some a
     \<and> delivered A c a ms bits \<and> delivered A a c ms bits"
proof -
  define sh where "sh = x25519 H csec (x25519_base H asec)"
  have sh': "x25519 H asec (x25519_base H csec) = sh" using assms(3) by (simp add: sh_def dh_laws_def)
  obtain c2a a2c where k: "derive_keys H sh (ascii sid) cp ap = Some (c2a, a2c)"
      "length c2a = 32" "length a2c = 32" using derive_keys_total [OF assms(2)] .
  then obtain c a where c: "channel_new H sh (ascii sid) cp ap Controller = Some c"
      and a: "channel_new H sh (ascii sid) cp ap Agent = Some a"
    by (simp add: channel_new_cases)
  have "delivered A c a ms bits" "delivered A a c ms bits"
    using linked_delivered [OF assms(1)] channel_new_linked [OF c a] c a k assms(4,5)
    by (auto simp: channel_new_cases)
  with c a sh' show ?thesis
    by (simp add: channel_establish_def x25519_ecdh_def sh_def)
qed

text \<open>Sample primitives: a checksum as the tag, pointwise products as the key agreement.\<close>

definition sample_tag :: "bytes \<Rightarrow> bytes \<Rightarrow> bytes \<Rightarrow> bytes \<Rightarrow> bytes" where
  "sample_tag k n a m = replicate 16 (sum_list k + 3 * sum_list n + 5 * sum_list a + sum_list m)"

definition sample_aead :: aead_lib where
  "sample_aead = \<lparr>gcm_encrypt = (\<lambda>k n a m. Some (m @ sample_tag k n a m)),
     gcm_decrypt = (\<lambda>k n a c. let m = take (length c - 16) c in
        if c = m @ sample_tag k n a m then Some m else None)\<rparr>"

definition sample_kdf :: kdf_lib where
  "sample_kdf = \<lparr>hkdf_sha256 = (\<lambda>salt ikm info n. Some (replicate n (sum_list ikm + sum_list info))),
     x25519 = map2 (*), x25519_base = (\<lambda>s. s)\<rparr>"

lemma sample_aead_laws: "gcm_laws sample_aead" "gcm_binding sample_aead" "gcm_accepts sample_aead m"
  by (auto simp: gcm_laws_def gcm_binding_def gcm_accepts_def sample_aead_def sample_tag_def Let_def
           split: if_splits)

lemma sample_kdf_laws: "kdf_laws sample_kdf" "dh_laws sample_kdf"
proof -
  have "map2 (*) b a = map2 (*) a b" for a b :: bytes
    by (rule nth_equalityI) (auto simp: mult.commute)
  then show "kdf_laws sample_kdf" "dh_laws sample_kdf"
    by (auto simp: kdf_laws_def dh_laws_def sample_kdf_def)
qed

theorem established_channels_deliver_witness:
  "\<exists>c a. channel_establish sample_kdf [7] (x25519_base sample_kdf [8]) ''s'' [1] [2] Controller = Some c
     \<and> channel_establish sample_kdf [8] (x25519_base sample_kdf [7]) ''s'' [1] [2] Agent = Some a
     \<and> delivered sample_aead c a [[1, 2], [3]] [False, True]
     \<and> delivered sample_aead a c [[1, 2], [3]] [False, True]"
  by (rule established_channels_deliver [OF sample_aead_laws(1) sample_kdf_laws])
     (simp_all add: sample_aead_laws)

text \<open>
  C2: whatever frames arrive, replayed, reordered or forged, the counters of the frames a channel
  accepts increase strictly, so no frame is accepted twice.
\<close>

theorem accepted_frames_increase:
  assumes "feed (open_step A) ch frames = (ch', accepted)"
  shows "sorted_wrt (<) (map (\<lambda>f. unat (frame_counter f)) accepted) \<and> distinct accepted"
  using opener.feed_increasing [OF assms] opener.feed_at_most_once [OF assms] by blast

definition sample_channel :: secure_channel where
  "sample_channel = \<lparr>send_key = replicate 32 1, recv_key = replicate 32 1, send_dir = 1,
     recv_dir = 1, session_id = [], send_counter = 0, recv_last = None\<rparr>"

lemma sample_channel_key: "length (send_key sample_channel) = 32" "length (recv_key sample_channel) = 32"
  by (simp_all add: sample_channel_def)

definition sample_frame :: "u64 \<Rightarrow> bytes" where
  "sample_frame c = u64_to_be_bytes c @ [42] @ sample_tag (replicate 32 1) (nonce_for c) [1] [42]"

lemma sample_open:
  "channel_open sample_aead sample_channel (sample_frame c) =
     (sample_channel\<lparr>recv_last := Some c\<rparr>, Ok [42])"
  "channel_open sample_aead (sample_channel\<lparr>recv_last := Some d\<rparr>) (sample_frame c) =
     (if c \<le> d then (sample_channel\<lparr>recv_last := Some d\<rparr>, Err Replay)
      else (sample_channel\<lparr>recv_last := Some c\<rparr>, Ok [42]))"
  by (simp_all add: channel_open_def sample_aead_def sample_channel_def sample_frame_def
        sample_tag_def aad_for_def Let_def)

theorem accepted_frames_increase_witness:
  "sorted_wrt (<) (map (\<lambda>f. unat (frame_counter f)) [sample_frame 3, sample_frame 5])
   \<and> distinct [sample_frame 3, sample_frame 5]"
proof -
  have "feed (open_step sample_aead) sample_channel [sample_frame 3, sample_frame 3, sample_frame 2, sample_frame 5]
    = (sample_channel\<lparr>recv_last := Some 5\<rparr>, [sample_frame 3, sample_frame 5])"
    by (simp add: open_step_def sample_open)
  then show ?thesis by (rule accepted_frames_increase)
qed

text \<open>
  C3: once a frame has been accepted, every well-sized frame with the same or a lower counter is
  answered with \<open>Replay\<close> and changes nothing, no matter which frames arrived in between.
\<close>

theorem accepted_frame_cannot_be_replayed:
  assumes "channel_open A ch f = (ch1, Ok m)" and "feed (open_step A) ch1 between = (ch2, acc)"
    and "frame_counter g \<le> frame_counter f" and "COUNTER_LEN + TAG_LEN \<le> length g"
  shows "channel_open A ch2 g = (ch2, Err Replay)"
proof -
  have "map_option unat (recv_last ch1) = Some (unat (frame_counter f))"
    using channel_open_Ok(5) [OF assms(1)] by (simp add: frame_counter_def)
  from opener.feed_mark_keeps [OF assms(2) this] obtain l
    where "recv_last ch2 = Some l" "frame_counter f \<le> l"
    by (auto simp: word_le_nat_alt)
  moreover have "frame_counter g \<le> l" using assms(3) calculation(2) by (rule order_trans)
  ultimately show ?thesis using assms(4) by (simp add: channel_open_def Let_def frame_counter_def)
qed

theorem accepted_frame_cannot_be_replayed_witness:
  "channel_open sample_aead (sample_channel\<lparr>recv_last := Some 9\<rparr>) (sample_frame 5)
     = (sample_channel\<lparr>recv_last := Some 9\<rparr>, Err Replay)"
proof (rule accepted_frame_cannot_be_replayed [OF sample_open(1) [of 5]])
  show "feed (open_step sample_aead) (sample_channel\<lparr>recv_last := Some 5\<rparr>) [sample_frame 9]
    = (sample_channel\<lparr>recv_last := Some 9\<rparr>, [sample_frame 9])"
    by (simp add: open_step_def sample_open)
qed (simp_all add: sample_frame_def sample_tag_def)


text \<open>
  C4: a frame the channel accepts is byte for byte the frame that the peer's sending half produces
  for the decrypted message at that counter: nothing else can be accepted.
\<close>

theorem accepted_frame_is_the_peers:
  assumes "gcm_binding A" and "channel_open A r f = (r', Ok m)"
    and "send_key s = recv_key r" "send_dir s = recv_dir r" "session_id s = session_id r"
    and "send_counter s = frame_counter f" "frame_counter f \<noteq> - 1"
  shows "snd (channel_seal A s m) = Ok f"
proof -
  note o = channel_open_Ok [OF assms(2)]
  have enc: "gcm_encrypt A (send_key s) (nonce_for (send_counter s)) (aad_for (session_id s) (send_dir s)) m
      = Some (drop 8 f)"
    using assms(1,3-6) o(3) by (simp add: gcm_binding_def frame_counter_def)
  obtain c' where "checked_add (send_counter s) 1 = Some c'"
    using checked_add_None_max [of "send_counter s"] assms(6,7) by (cases "checked_add (send_counter s) 1") auto
  moreover have "u64_to_be_bytes (send_counter s) = take 8 f"
    using o(1) assms(6) by (simp add: frame_counter_def u64_to_from_be)
  ultimately show ?thesis using enc o(2) assms(3) by (simp add: channel_seal_def Let_def)
qed

theorem accepted_frame_is_the_peers_witness:
  "snd (channel_seal sample_aead (sample_channel\<lparr>send_counter := 5\<rparr>) [42]) = Ok (sample_frame 5)"
  by (rule accepted_frame_is_the_peers [OF sample_aead_laws(2) sample_open(1)])
     (simp_all add: sample_channel_def sample_frame_def frame_counter_def)

text \<open>Frames emitted by sealing, in order.\<close>

fun oks :: "('a, 'e) result list \<Rightarrow> 'a list" where
  "oks [] = []"
| "oks (Inl e # rs) = oks rs"
| "oks (Inr x # rs) = x # oks rs"

lemma seal_all_counters:
  "seal_all A ch ms = (ch', rs) \<Longrightarrow>
     sorted_wrt (<) (map (\<lambda>f. unat (frame_counter f)) (oks rs))
     \<and> (\<forall>f \<in> set (oks rs). unat (send_counter ch) \<le> unat (frame_counter f))"
proof (induction ms arbitrary: ch ch' rs)
  case (Cons m ms)
  obtain ch1 x where sl: "channel_seal A ch m = (ch1, x)" by force
  obtain ch2 rs' where sa: "seal_all A ch1 ms = (ch2, rs')" by force
  note IH = Cons.IH [OF sa]
  show ?case
  proof (cases x)
    case (Inl e)
    with sl have "ch1 = ch" using channel_seal_Err_keeps by blast
    with IH Inl Cons.prems sl sa show ?thesis by auto
  next
    case (Inr f)
    with sl have sl': "channel_seal A ch m = (ch1, Ok f)" by simp
    have "frame_counter f = send_counter ch" "unat (send_counter ch1) = unat (send_counter ch) + 1"
      using sl' by (auto elim!: channel_seal_Ok simp: frame_counter_def)
    with IH Inr Cons.prems sl sa show ?thesis by (auto simp: Suc_le_eq intro: less_imp_le)
  qed
qed simp



text \<open>
  at the last counter value nothing is emitted any more: sealing reports \<open>CounterExhausted\<close> and
  leaves the channel where it is, so the counter never wraps to a used nonce.
\<close>

theorem seal_exhausted:
  assumes "gcm_accepts A m" "length (send_key ch) = KEY_LEN" "send_counter ch = - 1"
  shows "channel_seal A ch m = (ch, Err CounterExhausted)"
proof -
  have "gcm_encrypt A (send_key ch) (nonce_for (- 1)) (aad_for (session_id ch) (send_dir ch)) m \<noteq> None"
    using assms(1,2) unfolding gcm_accepts_def NONCE_LEN_def by (meson length_nonce_for)
  then show ?thesis
    using assms(2,3) checked_add_None_max [of "- 1"] by (auto simp: channel_seal_def Let_def)
qed

theorem seal_exhausted_witness:
  "channel_seal sample_aead (sample_channel\<lparr>send_counter := - 1\<rparr>) [5]
     = (sample_channel\<lparr>send_counter := - 1\<rparr>, Err CounterExhausted)"
  by (rule seal_exhausted) (simp_all add: sample_aead_laws sample_channel_def)

text \<open>
  the key derivation binds its inputs: with 32-byte public keys, two handshakes hand HKDF the
  same info string only if direction prefix, session id and both public keys agree.
\<close>

theorem expand_info_binds:
  assumes "p \<in> {INFO_C2A, INFO_A2C}" "q \<in> {INFO_C2A, INFO_A2C}"
    and "length c = KEY_LEN" "length a = KEY_LEN" "length c' = KEY_LEN" "length a' = KEY_LEN"
    and "expand_info p s c a = expand_info q s' c' a'"
  shows "p = q \<and> s = s' \<and> c = c' \<and> a = a'"
proof -
  have "length p = length q" using assms(1,2) by (auto simp: INFO_C2A_def INFO_A2C_def ascii_def)
  with assms(3-7) show ?thesis by (auto simp: expand_info_def append_eq_append_conv)
qed

theorem expand_info_binds_witness:
  "INFO_C2A = INFO_C2A \<and> ascii ''sess'' = ascii ''sess'' \<and> replicate 32 (1::u8) = replicate 32 1
     \<and> replicate 32 (2::u8) = replicate 32 2"
  by (rule expand_info_binds) simp_all

text \<open>
  pinning fails closed: a certificate verifies exactly when its pin is one of the configured
  ones, and with no pins configured nothing verifies.
\<close>

theorem verify_der_iff:
  "verify_der L (pinner_new ps) der \<longleftrightarrow> pin_for_der L der \<in> set ps"
  by (auto simp: verify_der_def pinner_new_def is_configured_def Let_def list_ex_iff)

end
