(* ===== verification/Ieee.thy ===== *)
theory Ieee
  imports Complex_Main Prelude
begin

text \<open>
  The floating-point arithmetic of Rust's \<open>f32\<close> and \<open>f64\<close>: values are exact rationals, infinities and
  NaN, and every operation is the exact one followed by IEEE 754 rounding to nearest, ties to even,
  in the format's precision and exponent range. The two zeros are one value: no modelled code divides
  by a zero or reads a zero's sign. The lemmas say that rounding never crosses a representable value
  and bound its relative error, which is what the bounds of the media components rest on.
\<close>

section \<open>Rounding\<close>

text \<open>Round to the nearest integer, ties to even.\<close>

definition rne :: "rat \<Rightarrow> int" where
  "rne x = (let f = \<lfloor>x\<rfloor>; d = x - of_int f
     in if d < 1 / 2 then f else if 1 / 2 < d then f + 1 else if even f then f else f + 1)"

lemma rne_near: "\<bar>of_int (rne x) - x\<bar> \<le> 1 / 2"
proof -
  have "of_int \<lfloor>x\<rfloor> \<le> x" "x < of_int \<lfloor>x\<rfloor> + 1" by linarith+
  then show ?thesis by (simp add: rne_def Let_def abs_le_iff)
qed

lemma rne_of_int [simp]: "rne (of_int k) = k"
  by (simp add: rne_def)

lemma rne_le_of_int: "x \<le> of_int k \<Longrightarrow> rne x \<le> k"
proof -
  assume le: "x \<le> of_int k"
  have "of_int (rne x) \<le> x + 1 / 2" using rne_near [of x] by linarith
  also have "\<dots> \<le> of_int k + 1 / 2" using le by simp
  finally have "of_int (rne x) < (of_int (k + 1) :: rat)" by simp
  then show ?thesis by (simp only: of_int_less_iff)
qed

lemma rne_ge_of_int: "of_int k \<le> x \<Longrightarrow> k \<le> rne x"
proof -
  assume le: "of_int k \<le> x"
  have "x - 1 / 2 \<le> of_int (rne x)" using rne_near [of x] by linarith
  then have "of_int (k - 1) < (of_int (rne x) :: rat)" using le by simp
  then show ?thesis by (simp only: of_int_less_iff)
qed

text \<open>The binary exponent: \<open>2 powi expo x \<le> x < 2 powi (expo x + 1)\<close> for positive \<open>x\<close>.\<close>

fun ilog2 :: "nat \<Rightarrow> nat" where
  "ilog2 n = (if n < 2 then 0 else Suc (ilog2 (n div 2)))"

declare ilog2.simps [simp del]

definition expo :: "rat \<Rightarrow> int" where
  "expo x = (let (n, d) = quotient_of x; e = int (ilog2 (nat n)) - int (ilog2 (nat d))
     in if 2 powi e \<le> x then e else e - 1)"

lemma ilog2_bounds: "0 < n \<Longrightarrow> 2 ^ ilog2 n \<le> n \<and> n < 2 * 2 ^ ilog2 n"
proof (induction n rule: ilog2.induct)
  case (1 n)
  show ?case
  proof (cases "n < 2")
    case True
    with "1.prems" show ?thesis by (subst (1 2) ilog2.simps) simp
  next
    case False
    with "1.IH" have "2 ^ ilog2 (n div 2) \<le> n div 2 \<and> n div 2 < 2 * 2 ^ ilog2 (n div 2)" by simp
    with False show ?thesis by (subst (1 2) ilog2.simps) auto
  qed
qed

lemma powi_2_pos [simp]: "(0 :: rat) < 2 powi e"
  by simp

lemma powi_2_Suc: "(2 :: rat) powi (e + 1) = 2 * 2 powi e"
  by (simp add: power_int_add)

lemma expo_bounds:
  assumes "0 < x"
  shows "2 powi expo x \<le> x" and "x < 2 powi (expo x + 1)"
proof -
  obtain n d where q: "quotient_of x = (n, d)" by force
  then have d: "0 < d" and x: "x = of_int n / of_int d"
    by (auto dest: quotient_of_denom_pos quotient_of_div)
  with assms have n: "0 < n" by (simp add: zero_less_divide_iff)
  define a b where "a = ilog2 (nat n)" and "b = ilog2 (nat d)"
  have nat_bounds: "(2 :: int) ^ ilog2 (nat k) \<le> k" "k < 2 * 2 ^ ilog2 (nat k)" if "0 < k" for k
  proof -
    have "2 ^ ilog2 (nat k) \<le> nat k \<and> nat k < 2 * 2 ^ ilog2 (nat k)" by (rule ilog2_bounds) (use that in simp)
    then have "int (2 ^ ilog2 (nat k)) \<le> int (nat k)" "int (nat k) < int (2 * 2 ^ ilog2 (nat k))"
      by (simp_all only: of_nat_le_iff of_nat_less_iff)
    then show "(2 :: int) ^ ilog2 (nat k) \<le> k" "k < 2 * 2 ^ ilog2 (nat k)"
      using that by simp_all
  qed
  note ab = nat_bounds(1) [OF n, folded a_def] nat_bounds(2) [OF n, folded a_def]
    nat_bounds(1) [OF d, folded b_def] nat_bounds(2) [OF d, folded b_def]
  have "(of_int (2 ^ a) :: rat) \<le> of_int n" "of_int n < (of_int (2 * 2 ^ a) :: rat)"
    "(of_int (2 ^ b) :: rat) \<le> of_int d" "of_int d < (of_int (2 * 2 ^ b) :: rat)"
    using ab by (simp_all only: of_int_le_iff of_int_less_iff)
  then have ra: "(2 :: rat) ^ a \<le> of_int n" "of_int n < 2 * (2 :: rat) ^ a"
    and rb: "(2 :: rat) ^ b \<le> of_int d" "of_int d < 2 * (2 :: rat) ^ b"
    by simp_all
  define e where "e = int a - int b"
  have pe: "(2 :: rat) powi e = 2 ^ a / 2 ^ b"
    by (simp add: e_def power_int_diff)
  have dp: "(0 :: rat) < of_int d" using d by simp
  have "x < (2 * 2 ^ a) / of_int d" using ra(2) dp by (simp add: x divide_strict_right_mono)
  also have "\<dots> \<le> (2 * 2 ^ a) / 2 ^ b" using rb(1) dp by (intro divide_left_mono mult_pos_pos) auto
  finally have up: "x < 2 powi (e + 1)" by (simp add: powi_2_Suc pe)
  have "(2 ^ a :: rat) / (2 * 2 ^ b) \<le> 2 ^ a / of_int d" using rb(2) dp by (intro divide_left_mono mult_pos_pos) auto
  also have "\<dots> \<le> x" using ra(1) dp by (simp add: x divide_right_mono)
  finally have lo: "2 powi (e - 1) \<le> x" by (simp add: power_int_diff pe)
  have ex: "expo x = (if 2 powi e \<le> x then e else e - 1)"
    by (simp add: expo_def q e_def a_def b_def)
  show "2 powi expo x \<le> x" using lo by (simp add: ex)
  show "x < 2 powi (expo x + 1)" using up by (simp add: ex)
qed

section \<open>Formats\<close>

text \<open>Precision in bits, exponent of the least unit, largest finite value.\<close>

record fformat =
  prec :: nat
  emin :: int
  fmax :: rat

definition f32 :: fformat where
  "f32 = \<lparr>prec = 24, emin = - 149, fmax = (2 ^ 24 - 1) * 2 ^ 104\<rparr>"

definition f64 :: fformat where
  "f64 = \<lparr>prec = 53, emin = - 1074, fmax = (2 ^ 53 - 1) * 2 ^ 971\<rparr>"

definition ulp_exp :: "fformat \<Rightarrow> rat \<Rightarrow> int" where
  "ulp_exp F x = max (expo \<bar>x\<bar> - int (prec F) + 1) (emin F)"

text \<open>The rounded value before the overflow check.\<close>

definition rnd :: "fformat \<Rightarrow> rat \<Rightarrow> rat" where
  "rnd F x = (if x = 0 then 0 else let u = 2 powi ulp_exp F x in of_int (rne (x / u)) * u)"

definition representable :: "fformat \<Rightarrow> rat \<Rightarrow> bool" where
  "representable F v \<longleftrightarrow> (\<exists>k e. v = of_int k * 2 powi e \<and> \<bar>k\<bar> < 2 ^ prec F \<and> emin F \<le> e)"

lemma rnd_nonneg: "0 \<le> x \<Longrightarrow> 0 \<le> rnd F x"
  using rne_ge_of_int [of 0 "x / 2 powi ulp_exp F x"]
  by (auto simp: rnd_def Let_def)

text \<open>An integer multiple of a smaller unit: dividing by it gives an integer.\<close>

lemma of_int_div_powi:
  assumes "q \<le> e"
  obtains j where "(of_int k * 2 powi e) / 2 powi q = (of_int j :: rat)"
proof
  have "(2 :: rat) powi e = 2 powi q * 2 ^ nat (e - q)"
    using assms by (simp add: power_int_nonneg_exp [symmetric] power_int_diff)
  then show "(of_int k * 2 powi e) / 2 powi q = (of_int (k * 2 ^ nat (e - q)) :: rat)" by simp
qed

lemma scaled_le_powi: "\<bar>k\<bar> < 2 ^ p \<Longrightarrow> of_int k * (2 :: rat) powi e \<le> 2 powi (e + int p)"
proof -
  assume "\<bar>k\<bar> < 2 ^ p"
  then have "k \<le> 2 ^ p" by linarith
  then have "(of_int k :: rat) \<le> 2 ^ p" by (metis of_int_le_iff of_int_numeral of_int_power)
  then have "of_int k * (2 :: rat) powi e \<le> 2 ^ p * 2 powi e" by (intro mult_right_mono) auto
  then show ?thesis by (simp add: power_int_add mult.commute)
qed

lemma powi_2_mono: "a \<le> b \<Longrightarrow> (2 :: rat) powi a \<le> 2 powi b"
  by (intro power_int_increasing) auto

text \<open>Rounding does not cross a representable value, from below or from above.\<close>

lemma rnd_le_representable:
  assumes "0 < x" and "x \<le> v" and "representable F v" and p: "0 < prec F"
  shows "rnd F x \<le> v"
proof -
  obtain k e where v: "v = of_int k * 2 powi e" "\<bar>k\<bar> < 2 ^ prec F" "emin F \<le> e"
    using assms(3) by (auto simp: representable_def)
  let ?q = "ulp_exp F x"
  have "?q \<le> e"
  proof (rule ccontr)
    assume "\<not> ?q \<le> e"
    with v(3) assms(1) have "e + int (prec F) \<le> expo x" by (simp add: ulp_exp_def max_def split: if_splits)
    then have "2 powi (e + int (prec F)) \<le> x"
      using expo_bounds(1) [OF assms(1)] powi_2_mono order_trans by blast
    moreover have "v < 2 powi (e + int (prec F))"
    proof -
      have "k < 2 ^ prec F" using v(2) by linarith
      then have "(of_int k :: rat) < 2 ^ prec F" by (metis of_int_less_iff of_int_numeral of_int_power)
      then show ?thesis by (simp add: v(1) power_int_add mult.commute)
    qed
    ultimately show False using assms(2) by simp
  qed
  then obtain j where j: "v / 2 powi ?q = of_int j" unfolding v(1) by (rule of_int_div_powi)
  have "x / 2 powi ?q \<le> of_int j" unfolding j [symmetric] using assms(2) by (simp add: divide_right_mono)
  then have "rne (x / 2 powi ?q) \<le> j" by (rule rne_le_of_int)
  then have "of_int (rne (x / 2 powi ?q)) * 2 powi ?q \<le> (of_int j :: rat) * 2 powi ?q" by simp
  also have "\<dots> = v" by (simp add: j [symmetric])
  finally show ?thesis using assms(1) by (simp add: rnd_def Let_def)
qed

lemma rnd_ge_representable:
  assumes "0 < x" and "v \<le> x" and "representable F v" and p: "0 < prec F"
  shows "v \<le> rnd F x"
proof -
  obtain k e where v: "v = of_int k * 2 powi e" "\<bar>k\<bar> < 2 ^ prec F" "emin F \<le> e"
    using assms(3) by (auto simp: representable_def)
  let ?q = "ulp_exp F x"
  have "\<exists>j. of_int j \<le> x / 2 powi ?q \<and> v \<le> of_int j * 2 powi ?q"
  proof (cases "?q \<le> e")
    case True
    then obtain j where j: "v / 2 powi ?q = of_int j" unfolding v(1) by (rule of_int_div_powi)
    moreover have "v / 2 powi ?q \<le> x / 2 powi ?q" using assms(2) by (simp add: divide_right_mono)
    moreover have "v = of_int j * 2 powi ?q" by (simp add: j [symmetric])
    ultimately show ?thesis by (intro exI [of _ j]) simp
  next
    case False
    with v(3) assms(1) have e: "expo x = ?q + int (prec F) - 1" "e + int (prec F) \<le> expo x"
      by (auto simp: ulp_exp_def max_def split: if_splits)
    have "expo x = ?q + int (prec F - 1)" using e(1) p by simp
    then have w: "2 powi expo x = 2 ^ (prec F - 1) * (2 :: rat) powi ?q"
      by (simp add: power_int_add)
    have "v \<le> 2 powi expo x"
      using scaled_le_powi [OF v(2), of e] powi_2_mono [OF e(2)] v(1) by linarith
    moreover have "2 ^ (prec F - 1) \<le> x / 2 powi ?q"
      using expo_bounds(1) [OF assms(1)] by (simp add: pos_le_divide_eq w)
    ultimately show ?thesis using w by (intro exI [of _ "2 ^ (prec F - 1)"]) simp
  qed
  then obtain j where j: "of_int j \<le> x / 2 powi ?q" "v \<le> of_int j * 2 powi ?q" by blast
  have "j \<le> rne (x / 2 powi ?q)" using j(1) by (rule rne_ge_of_int)
  then have "of_int j * 2 powi ?q \<le> of_int (rne (x / 2 powi ?q)) * (2 :: rat) powi ?q" by simp
  with j(2) have "v \<le> of_int (rne (x / 2 powi ?q)) * 2 powi ?q" by (rule order_trans)
  then show ?thesis using assms(1) by (simp add: rnd_def Let_def)
qed

lemma rnd_representable:
  "representable F v \<Longrightarrow> 0 < prec F \<Longrightarrow> 0 \<le> v \<Longrightarrow> rnd F v = v"
  using rnd_le_representable [of v v F] rnd_ge_representable [of v v F]
  by (cases "v = 0") (auto simp: rnd_def)

text \<open>In the normal range the relative error is at most half a unit in the last place.\<close>

lemma rnd_relative_error:
  assumes "2 powi (emin F + int (prec F) - 1) \<le> x" "0 < prec F"
  shows "\<bar>rnd F x - x\<bar> \<le> x / 2 ^ prec F"
proof -
  let ?q = "ulp_exp F x"
  have xp: "0 < x" using assms(1) powi_2_pos less_le_trans by blast
  have "emin F + int (prec F) - 1 \<le> expo x"
  proof (rule ccontr)
    assume "\<not> ?thesis"
    then have "2 powi (expo x + 1) \<le> (2 :: rat) powi (emin F + int (prec F) - 1)" by (intro powi_2_mono) simp
    with expo_bounds(2) [OF xp] assms(1) show False by linarith
  qed
  then have q: "expo x = ?q + int (prec F - 1)" using xp assms(2) by (simp add: ulp_exp_def max_def)
  have near: "\<bar>of_int (rne (x / 2 powi ?q)) - x / 2 powi ?q\<bar> * 2 powi ?q \<le> 1 / 2 * (2 :: rat) powi ?q"
    by (intro mult_right_mono rne_near) simp
  have "\<bar>rnd F x - x\<bar> = \<bar>of_int (rne (x / 2 powi ?q)) - x / 2 powi ?q\<bar> * 2 powi ?q"
  proof -
    have "\<bar>of_int (rne (x / 2 powi ?q)) - x / 2 powi ?q\<bar> * 2 powi ?q
        = \<bar>(of_int (rne (x / 2 powi ?q)) - x / 2 powi ?q) * 2 powi ?q\<bar>" by (simp add: abs_mult)
    also have "(of_int (rne (x / 2 powi ?q)) - x / 2 powi ?q) * 2 powi ?q = rnd F x - x"
      using xp by (simp add: rnd_def Let_def left_diff_distrib)
    finally show ?thesis by simp
  qed
  also note near
  also have "1 / 2 * (2 :: rat) powi ?q = 2 powi expo x / 2 ^ prec F"
    using assms(2) by (cases "prec F") (simp_all add: q power_int_add)
  also have "\<dots> \<le> x / 2 ^ prec F" using expo_bounds(1) [OF xp] by (intro divide_right_mono) auto
  finally show ?thesis .
qed


section \<open>Values and operations\<close>

datatype fl = NaN | Inf bool | Fin rat

text \<open>\<open>Inf True\<close> is positive infinity. \<open>fround\<close> rounds an exact result into the format.\<close>

definition fround :: "fformat \<Rightarrow> rat \<Rightarrow> fl" where
  "fround F x = (let r = rnd F x in
     if fmax F < r then Inf True else if r < - fmax F then Inf False else Fin r)"

fun f_neg :: "fl \<Rightarrow> fl" where
  "f_neg NaN = NaN"
| "f_neg (Inf b) = Inf (\<not> b)"
| "f_neg (Fin x) = Fin (- x)"

fun f_mul :: "fformat \<Rightarrow> fl \<Rightarrow> fl \<Rightarrow> fl" where
  "f_mul F (Fin x) (Fin y) = fround F (x * y)"
| "f_mul F (Inf a) (Inf b) = Inf (a = b)"
| "f_mul F (Inf a) (Fin y) = (if y = 0 then NaN else Inf (a = (0 < y)))"
| "f_mul F (Fin x) (Inf b) = (if x = 0 then NaN else Inf (b = (0 < x)))"
| "f_mul F _ _ = NaN"

fun f_sub :: "fformat \<Rightarrow> fl \<Rightarrow> fl \<Rightarrow> fl" where
  "f_sub F (Fin x) (Fin y) = fround F (x - y)"
| "f_sub F (Inf a) (Inf b) = (if a = b then NaN else Inf a)"
| "f_sub F (Inf a) (Fin y) = Inf a"
| "f_sub F (Fin x) (Inf b) = Inf (\<not> b)"
| "f_sub F _ _ = NaN"

fun f_div :: "fformat \<Rightarrow> fl \<Rightarrow> fl \<Rightarrow> fl" where
  "f_div F (Fin x) (Fin y) = (if y = 0 then (if x = 0 then NaN else Inf (0 < x)) else fround F (x / y))"
| "f_div F (Inf a) (Fin y) = Inf (a = (0 \<le> y))"
| "f_div F (Fin x) (Inf b) = Fin 0"
| "f_div F _ _ = NaN"

text \<open>Comparisons are false on NaN.\<close>

fun f_lt :: "fl \<Rightarrow> fl \<Rightarrow> bool" where
  "f_lt (Fin x) (Fin y) \<longleftrightarrow> x < y"
| "f_lt (Inf a) (Inf b) \<longleftrightarrow> \<not> a \<and> b"
| "f_lt (Inf a) (Fin y) \<longleftrightarrow> \<not> a"
| "f_lt (Fin x) (Inf b) \<longleftrightarrow> b"
| "f_lt _ _ \<longleftrightarrow> False"

fun f_le :: "fl \<Rightarrow> fl \<Rightarrow> bool" where
  "f_le NaN _ \<longleftrightarrow> False"
| "f_le _ NaN \<longleftrightarrow> False"
| "f_le a b \<longleftrightarrow> \<not> f_lt b a"

text \<open>IEEE equality: NaN differs from itself.\<close>

fun f_eq :: "fl \<Rightarrow> fl \<Rightarrow> bool" where
  "f_eq NaN _ \<longleftrightarrow> False"
| "f_eq a b \<longleftrightarrow> a = b"

text \<open>\<open>clamp\<close> for constant bounds in order (the library asserts \<open>min \<le> max\<close>); NaN stays NaN.\<close>

definition f_clamp :: "fl \<Rightarrow> fl \<Rightarrow> fl \<Rightarrow> fl" where
  "f_clamp x lo hi = (let y = (if f_lt x lo then lo else x) in if f_lt hi y then hi else y)"

text \<open>\<open>round\<close>: to the nearest integer, ties away from zero. The result is exact in the format.\<close>

definition round_away :: "rat \<Rightarrow> int" where
  "round_away x = (if 0 \<le> x then \<lfloor>x + 1 / 2\<rfloor> else - \<lfloor>1 / 2 - x\<rfloor>)"

fun f_round :: "fl \<Rightarrow> fl" where
  "f_round (Fin x) = Fin (of_int (round_away x))"
| "f_round v = v"

text \<open>The \<open>as\<close> casts truncate and saturate; NaN becomes 0.\<close>

definition trunc_rat :: "rat \<Rightarrow> int" where
  "trunc_rat x = (if 0 \<le> x then \<lfloor>x\<rfloor> else - \<lfloor>- x\<rfloor>)"

fun as_u32 :: "fl \<Rightarrow> nat" where
  "as_u32 NaN = 0"
| "as_u32 (Inf b) = (if b then 2 ^ 32 - 1 else 0)"
| "as_u32 (Fin x) = nat (min (2 ^ 32 - 1) (trunc_rat x))"

fun as_i32 :: "fl \<Rightarrow> int" where
  "as_i32 NaN = 0"
| "as_i32 (Inf b) = (if b then 2 ^ 31 - 1 else - (2 ^ 31))"
| "as_i32 (Fin x) = max (- (2 ^ 31)) (min (2 ^ 31 - 1) (trunc_rat x))"

lemma as_u32_less: "as_u32 v < 2 ^ 32"
  by (cases v) (auto simp: nat_less_iff)

section \<open>Bounds\<close>

lemma prec_pos [simp]: "0 < prec f32" "0 < prec f64"
  by (simp_all add: f32_def f64_def)

lemma representable_int:
  assumes "\<bar>k\<bar> < 2 ^ prec F" "emin F \<le> 0"
  shows "representable F (of_int k)"
  unfolding representable_def by (rule exI [of _ k], rule exI [of _ 0]) (use assms in simp)

lemma representable_0 [simp]: "representable f32 0" "representable f64 0"
  and representable_1 [simp]: "representable f32 1" "representable f64 1"
  using representable_int [of 0 f32] representable_int [of 0 f64]
    representable_int [of 1 f32] representable_int [of 1 f64]
  by (simp_all add: f32_def f64_def)

lemma representable_u32 [simp]:
  assumes "n < 2 ^ 32"
  shows "representable f64 (of_nat n)"
proof -
  have "int n < 2 ^ 32" using assms by (metis of_nat_less_iff of_nat_numeral of_nat_power)
  then have "representable f64 (of_int (int n))"
    by (intro representable_int) (simp_all add: f64_def)
  then show ?thesis by simp
qed

lemma fround_bounds:
  assumes "0 \<le> x" "x \<le> v" "representable F v" "0 < prec F" "v \<le> fmax F"
  obtains r where "fround F x = Fin r" "r = rnd F x" "0 \<le> r" "r \<le> v"
proof -
  have up: "rnd F x \<le> v"
    using assms rnd_le_representable [of x v F] by (cases "x = 0") (auto simp: rnd_def)
  have lo: "0 \<le> rnd F x" using assms(1) by (rule rnd_nonneg)
  with up assms(5) have "fround F x = Fin (rnd F x)" by (simp add: fround_def Let_def)
  with up lo that show ?thesis by blast
qed

lemma round_away_le: "x \<le> of_int k \<Longrightarrow> 0 \<le> k \<Longrightarrow> round_away x \<le> k"
  by (auto simp: round_away_def floor_le_iff) linarith+

lemma round_away_nonneg: "0 \<le> x \<Longrightarrow> 0 \<le> round_away x"
  by (simp add: round_away_def)

lemma trunc_rat_of_int [simp]: "trunc_rat (of_int k) = k"
  by (simp add: trunc_rat_def)


section \<open>Evaluation on constants\<close>

lemma expo_eqI:
  assumes "0 < x" "2 powi e \<le> x" "x < 2 powi (e + 1)"
  shows "expo x = e"
proof (rule ccontr)
  assume "expo x \<noteq> e"
  then consider "expo x + 1 \<le> e" | "e + 1 \<le> expo x" by linarith
  then show False
    using powi_2_mono [of "expo x + 1" e] powi_2_mono [of "e + 1" "expo x"] expo_bounds [OF assms(1)] assms
    by cases linarith+
qed

lemma rne_eqI: "\<bar>of_int k - x\<bar> < 1 / 2 \<Longrightarrow> rne x = k"
proof -
  assume "\<bar>of_int k - x\<bar> < 1 / 2"
  with rne_near [of x] have "\<bar>of_int (rne x) - (of_int k :: rat)\<bar> < 1" by linarith
  then have "of_int \<bar>rne x - k\<bar> < (of_int 1 :: rat)" by simp
  then show ?thesis by (simp only: of_int_less_iff)
qed

text \<open>To evaluate a rounding, name the exponent and the significand of the result.\<close>

lemma fround_eqI:
  assumes "0 < x" "2 powi e \<le> x" "x < 2 powi (e + 1)"
    and "q = max (e - int (prec F) + 1) (emin F)"
    and "\<bar>of_int k - x / 2 powi q\<bar> < 1 / 2" "r = of_int k * 2 powi q" "\<bar>r\<bar> \<le> fmax F"
  shows "fround F x = Fin r"
proof -
  have "ulp_exp F x = q" using expo_eqI [OF assms(1-3)] assms(1,4) by (simp add: ulp_exp_def)
  then have "rnd F x = r" using assms(1,6) rne_eqI [OF assms(5)] by (simp add: rnd_def Let_def)
  with assms(7) show ?thesis by (simp add: fround_def Let_def abs_le_iff)
qed

lemma fround_representable:
  assumes "representable F v" "0 < prec F" "0 \<le> v" "v \<le> fmax F"
  shows "fround F v = Fin v"
  using assms rnd_representable [OF assms(1-3)] by (simp add: fround_def Let_def)

end
