(* ===== verification/Bitrate.thy ===== *)
theory Bitrate
  imports Ieee
begin

text \<open>
  The adaptive bitrate controller (\<open>crates/transport/src/bitrate.rs\<close>): bitrates are 32-bit words, the
  loss fraction and the factors are \<open>f32\<close> values of theory \<open>Ieee\<close>, so the controller's arithmetic is the
  code's, rounding and truncation included. \<open>None\<close> is the panic of \<open>u32::clamp\<close> on reversed bounds; the
  addition wraps, as in the release profile of the workspace.
\<close>

section \<open>Data\<close>

record bitrate_limits =
  min_bps :: u32
  max_bps :: u32
  start_bps :: u32

definition bitrate_limits_default :: bitrate_limits where
  "bitrate_limits_default = \<lparr>min_bps = 300000, max_bps = 8000000, start_bps = 2500000\<rparr>"

record network_sample =
  loss :: fl
  rtt_ms :: u32
  estimated_bps :: "u32 option"

datatype quality_tier = Low | Medium | High | Ultra

record bitrate_decision =
  target_bps :: u32
  tier :: quality_tier

definition LOSS_DECREASE :: fl where "LOSS_DECREASE = fround f32 (1 / 10)"
definition LOSS_INCREASE :: fl where "LOSS_INCREASE = fround f32 (1 / 50)"
definition DECREASE_FACTOR :: fl where "DECREASE_FACTOR = fround f32 (85 / 100)"
definition INCREASE_FRACTION :: fl where "INCREASE_FRACTION = fround f32 (8 / 100)"
definition HIGH_RTT_MS :: u32 where "HIGH_RTT_MS = 400"

record bitrate_controller =
  limits :: bitrate_limits
  target :: u32

section \<open>Operations\<close>

definition u32_clamp :: "u32 \<Rightarrow> u32 \<Rightarrow> u32 \<Rightarrow> u32 option" where
  "u32_clamp v lo hi = (if hi < lo then None
     else Some (if v < lo then lo else if hi < v then hi else v))"

text \<open>\<open>as f32\<close> of a \<open>u32\<close>, and the cast back.\<close>

definition u32_as_f32 :: "u32 \<Rightarrow> fl" where
  "u32_as_f32 v = fround f32 (of_nat (unat v))"

definition f32_as_u32 :: "fl \<Rightarrow> u32" where
  "f32_as_u32 x = word_of_nat (as_u32 x)"

definition controller_new :: "bitrate_limits \<Rightarrow> bitrate_controller option" where
  "controller_new l = (case u32_clamp (start_bps l) (min_bps l) (max_bps l) of
     None \<Rightarrow> None | Some t \<Rightarrow> Some \<lparr>limits = l, target = t\<rparr>)"

definition set_target :: "bitrate_controller \<Rightarrow> u32 \<Rightarrow> bitrate_controller option" where
  "set_target c v = (case u32_clamp v (min_bps (limits c)) (max_bps (limits c)) of
     None \<Rightarrow> None | Some t \<Rightarrow> Some (c\<lparr>target := t\<rparr>))"

definition tier_for :: "u32 \<Rightarrow> quality_tier" where
  "tier_for b = (if b < 800000 then Low else if b < 2500000 then Medium
     else if b < 5000000 then High else Ultra)"

definition decrease_factor :: "fl \<Rightarrow> fl" where
  "decrease_factor l =
     (let severity = f_clamp (f_div f32 (f_sub f32 l LOSS_DECREASE) (f_sub f32 (Fin 1) LOSS_DECREASE)) (Fin 0) (Fin 1)
      in f_sub f32 DECREASE_FACTOR (f_mul f32 (Fin (1 / 4)) severity))"

definition increase_step :: "u32 \<Rightarrow> u32" where
  "increase_step t = f32_as_u32 (f_mul f32 (u32_as_f32 t) INCREASE_FRACTION)"

definition observe ::
    "bitrate_controller \<Rightarrow> network_sample \<Rightarrow> (bitrate_controller \<times> bitrate_decision) option" where
  "observe c sample =
     (let l = f_clamp (loss sample) (Fin 0) (Fin 1);
          c' = (if f_le LOSS_DECREASE l
                then set_target c (f32_as_u32 (f_mul f32 (u32_as_f32 (target c)) (decrease_factor l)))
                else if f_le l LOSS_INCREASE \<and> rtt_ms sample \<le> HIGH_RTT_MS
                then (let nxt = target c + increase_step (target c);
                          nxt' = (case estimated_bps sample of None \<Rightarrow> nxt
                                  | Some est \<Rightarrow> min nxt (max est (min_bps (limits c))))
                      in set_target c nxt')
                else Some c)
      in case c' of None \<Rightarrow> None
         | Some d \<Rightarrow> Some (d, \<lparr>target_bps = target d, tier = tier_for (target d)\<rparr>))"

text \<open>Feeding one sample after the other.\<close>

fun observe_all :: "bitrate_controller \<Rightarrow> network_sample list \<Rightarrow> bitrate_controller option" where
  "observe_all c [] = Some c"
| "observe_all c (x # xs) = (case observe c x of None \<Rightarrow> None | Some (d, _) \<Rightarrow> observe_all d xs)"

section \<open>The constants\<close>

lemma LOSS_DECREASE_val: "LOSS_DECREASE = Fin (13421773 / 2 ^ 27)"
  unfolding LOSS_DECREASE_def
  by (rule fround_eqI [where e = "- 4" and q = "- 27" and k = 13421773])
     (simp_all add: f32_def power_int_def power_divide power_one_over)

lemma LOSS_INCREASE_val: "LOSS_INCREASE = Fin (10737418 / 2 ^ 29)"
  unfolding LOSS_INCREASE_def
  by (rule fround_eqI [where e = "- 6" and q = "- 29" and k = 10737418])
     (simp_all add: f32_def power_int_def power_divide power_one_over)

lemma DECREASE_FACTOR_val: "DECREASE_FACTOR = Fin (14260634 / 2 ^ 24)"
  unfolding DECREASE_FACTOR_def
  by (rule fround_eqI [where e = "- 1" and q = "- 24" and k = 14260634])
     (simp_all add: f32_def power_int_def power_divide power_one_over)

lemma INCREASE_FRACTION_val: "INCREASE_FRACTION = Fin (10737418 / 2 ^ 27)"
  unfolding INCREASE_FRACTION_def
  by (rule fround_eqI [where e = "- 4" and q = "- 27" and k = 10737418])
     (simp_all add: f32_def power_int_def power_divide power_one_over)

lemmas const_values = LOSS_DECREASE_val LOSS_INCREASE_val DECREASE_FACTOR_val INCREASE_FRACTION_val

lemma one_minus_loss: "f_sub f32 (Fin 1) LOSS_DECREASE = Fin (15099494 / 2 ^ 24)"
  unfolding const_values f_sub.simps
  by (rule fround_eqI [where e = "- 1" and q = "- 24" and k = 15099494])
     (simp_all add: f32_def power_int_def power_divide power_one_over)


lemma representable_intro:
  "v = of_int k * 2 powi e \<Longrightarrow> \<bar>k\<bar> < 2 ^ prec F \<Longrightarrow> emin F \<le> e \<Longrightarrow> representable F v"
  by (auto simp: representable_def)

lemma representable_constants:
  "representable f32 2" "representable f32 (1 / 4)" "representable f32 (1 / 2)"
  "representable f32 (14260634 / 2 ^ 24)" "representable f32 (2 ^ 32)"
  by (rule representable_intro [where k = 1 and e = 1] representable_intro [where k = 1 and e = "- 2"]
        representable_intro [where k = 1 and e = "- 1"] representable_intro [where k = 14260634 and e = "- 24"]
        representable_intro [where k = 1 and e = 32];
      simp add: f32_def power_int_def power_divide power_one_over)+

lemma prec_f32: "prec f32 = 24"
  by (simp add: f32_def)

lemma fmax_f32: "2 ^ 32 \<le> fmax f32" "2 \<le> fmax f32" "1 \<le> fmax f32" "1 / 4 \<le> fmax f32"
    "14260634 / 2 ^ 24 \<le> fmax f32"
  by (simp_all add: f32_def)

lemma f_clamp_unit:
  "v \<noteq> NaN \<Longrightarrow> \<exists>l. f_clamp v (Fin 0) (Fin 1) = Fin l \<and> 0 \<le> l \<and> l \<le> 1"
  by (cases v) (auto simp: f_clamp_def Let_def)

lemma f_clamp_NaN [simp]: "f_clamp NaN (Fin 0) (Fin 1) = NaN"
  by (simp add: f_clamp_def)

text \<open>The decrease factor stays between one half and the nominal factor.\<close>

lemma decrease_factor_bounds:
  assumes "13421773 / 2 ^ 27 \<le> l" "l \<le> 1"
  obtains f where "decrease_factor (Fin l) = Fin f" "1 / 2 \<le> f" "f \<le> 14260634 / 2 ^ 24"
proof -
  obtain a where a: "f_sub f32 (Fin l) LOSS_DECREASE = Fin a" "0 \<le> a" "a \<le> 1"
    using fround_bounds [of "l - 13421773 / 2 ^ 27" 1 f32] assms fmax_f32(3)
    by (auto simp: LOSS_DECREASE_val)
  let ?d = "15099494 / 2 ^ 24 :: rat"
  have "a / ?d \<le> 1 / ?d" using a(3) by (intro divide_right_mono) auto
  then have "a / ?d \<le> 2" by simp
  then obtain b where b: "f_div f32 (Fin a) (Fin ?d) = Fin b" "0 \<le> b" "b \<le> 2"
    using fround_bounds [of "a / ?d" 2 f32] a(2) representable_constants(1) fmax_f32(2) by auto
  obtain s where s: "f_clamp (Fin b) (Fin 0) (Fin 1) = Fin s" "0 \<le> s" "s \<le> 1"
    using f_clamp_unit [of "Fin b"] by blast
  obtain q where q: "f_mul f32 (Fin (1 / 4)) (Fin s) = Fin q" "0 \<le> q" "q \<le> 1 / 4"
    using fround_bounds [of "1 / 4 * s" "1 / 4" f32] s representable_constants(2) fmax_f32(4) by auto
  let ?x = "14260634 / 2 ^ 24 - q"
  have x: "1 / 2 \<le> ?x" "?x \<le> 14260634 / 2 ^ 24" using q by simp_all
  then obtain f where f: "f_sub f32 (Fin (14260634 / 2 ^ 24)) (Fin q) = Fin f" "f = rnd f32 ?x"
      "f \<le> 14260634 / 2 ^ 24"
    using fround_bounds [of ?x "14260634 / 2 ^ 24" f32] representable_constants(4) fmax_f32(5) by auto
  have "1 / 2 \<le> f"
    unfolding f(2) using x(1) by (intro rnd_ge_representable) (simp_all add: representable_constants)
  moreover have "decrease_factor (Fin l) = Fin f"
    unfolding decrease_factor_def Let_def a(1) one_minus_loss b(1) s(1) q(1) DECREASE_FACTOR_val
    by (rule f(1))
  ultimately show ?thesis using f(3) that by blast
qed

text \<open>Converting a bitrate to \<open>f32\<close> moves it by at most one part in \<open>2 ^ 24\<close>.\<close>

lemma u32_as_f32_bounds:
  assumes "1 \<le> unat t"
  obtains x where "u32_as_f32 t = Fin x" "1 \<le> x" "x \<le> of_nat (unat t) * (1 + 1 / 2 ^ 24)" "x \<le> 2 ^ 32"
proof -
  let ?n = "of_nat (unat t) :: rat"
  have n: "1 \<le> ?n" using assms by (metis of_nat_1 of_nat_le_iff)
  have "unat t < 2 ^ 32" using unsigned_less [of t] by simp
  then have "of_nat (unat t) < (of_nat (2 ^ 32) :: rat)" by (simp only: of_nat_less_iff)
  then have n32: "?n \<le> 2 ^ 32" by simp
  obtain x where x: "u32_as_f32 t = Fin x" "x = rnd f32 ?n" "x \<le> 2 ^ 32"
    using fround_bounds [of ?n "2 ^ 32" f32] n n32 representable_constants(5) fmax_f32(1)
    by (auto simp: u32_as_f32_def)
  have "2 powi (emin f32 + int (prec f32) - 1) \<le> (1 :: rat)"
    by (simp add: f32_def power_int_def power_one_over)
  with n have "\<bar>rnd f32 ?n - ?n\<bar> \<le> ?n / 2 ^ prec f32"
    by (intro rnd_relative_error) (auto intro: order_trans)
  then have "x - ?n \<le> ?n / 2 ^ 24" unfolding x(2) prec_f32 by (rule abs_le_D1)
  then have "x \<le> ?n * (1 + 1 / 2 ^ 24)" by (simp add: distrib_left)
  moreover have "1 \<le> x" unfolding x(2) using n by (intro rnd_ge_representable) auto
  ultimately show ?thesis using x that by blast
qed

text \<open>A product with a factor below one, rounded: at most one more part in \<open>2 ^ 24\<close>.\<close>

lemma f32_product_bounds:
  assumes "1 \<le> x" "x \<le> 2 ^ 32" "1 / 2 ^ 5 \<le> f" "f \<le> 1"
  obtains r where "f_mul f32 (Fin x) (Fin f) = Fin r" "0 \<le> r" "r \<le> x * f * (1 + 1 / 2 ^ 24)"
proof -
  have "1 / 2 ^ 5 \<le> x * f" using mult_mono [OF assms(1,3)] assms by simp
  moreover have "x * f \<le> 2 ^ 32" using mult_mono [OF assms(2,4)] assms by simp
  ultimately obtain r where r: "f_mul f32 (Fin x) (Fin f) = Fin r" "r = rnd f32 (x * f)" "0 \<le> r"
    using fround_bounds [of "x * f" "2 ^ 32" f32] representable_constants(5) fmax_f32(1) by auto
  have "2 powi (emin f32 + int (prec f32) - 1) \<le> (1 / 2 ^ 5 :: rat)"
    by (simp add: f32_def power_int_def power_one_over power_divide)
  with \<open>1 / 2 ^ 5 \<le> x * f\<close> have "\<bar>rnd f32 (x * f) - x * f\<bar> \<le> x * f / 2 ^ prec f32"
    by (intro rnd_relative_error) (auto intro: order_trans)
  then have "r - x * f \<le> x * f / 2 ^ 24" unfolding r(2) prec_f32 by (rule abs_le_D1)
  then have "r \<le> x * f * (1 + 1 / 2 ^ 24)" by (simp add: distrib_left mult.commute)
  with r that show ?thesis by blast
qed

lemma unat_f32_as_u32:
  assumes "0 \<le> r" "r < of_nat n" "n < 2 ^ 32"
  shows "unat (f32_as_u32 (Fin r)) < n"
proof -
  have "trunc_rat r < int n" using assms(1,2) by (simp add: trunc_rat_def floor_less_iff)
  then have "as_u32 (Fin r) < n" using assms(1) by (simp add: trunc_rat_def nat_less_iff)
  moreover then have "unat (word_of_nat (as_u32 (Fin r)) :: u32) = as_u32 (Fin r)"
    using assms(3) by (simp add: unat_of_nat)
  ultimately show ?thesis by (simp add: f32_as_u32_def)
qed

text \<open>On high loss the multiplied and truncated bitrate is strictly smaller.\<close>

lemma decrease_strict:
  assumes "13421773 / 2 ^ 27 \<le> l" "l \<le> 1" "1 \<le> unat t"
  shows "f32_as_u32 (f_mul f32 (u32_as_f32 t) (decrease_factor (Fin l))) < t"
proof -
  obtain f where f: "decrease_factor (Fin l) = Fin f" "1 / 2 \<le> f" "f \<le> 14260634 / 2 ^ 24"
    using decrease_factor_bounds [OF assms(1,2)] .
  obtain x where x: "u32_as_f32 t = Fin x" "1 \<le> x" "x \<le> of_nat (unat t) * (1 + 1 / 2 ^ 24)" "x \<le> 2 ^ 32"
    using u32_as_f32_bounds [OF assms(3)] .
  obtain r where r: "f_mul f32 (Fin x) (Fin f) = Fin r" "0 \<le> r" "r \<le> x * f * (1 + 1 / 2 ^ 24)"
    using f32_product_bounds [OF x(2,4), of f] f(2,3) by auto
  have "x * f \<le> (of_nat (unat t) * (1 + 1 / 2 ^ 24)) * (14260634 / 2 ^ 24)"
    using x f by (intro mult_mono) auto
  with r(3) have "r \<le> of_nat (unat t) * (1 + 1 / 2 ^ 24) * (14260634 / 2 ^ 24) * (1 + 1 / 2 ^ 24)"
    by (meson add_nonneg_nonneg divide_nonneg_nonneg mult_right_mono order_trans zero_le_numeral zero_le_one zero_le_power)
  also have "\<dots> < of_nat (unat t)"
  proof -
    have "(1 :: rat) \<le> of_nat (unat t)" using assms(3) by (metis of_nat_1 of_nat_le_iff)
    then show ?thesis by (simp del: of_nat_unat) 
  qed
  finally have "unat (f32_as_u32 (Fin r)) < unat t"
    by (intro unat_f32_as_u32 [OF r(2)]) (use unsigned_less [of t] in simp_all)
  then show ?thesis unfolding f(1) x(1) r(1) by (simp add: word_less_nat_alt)
qed


section \<open>The controller\<close>

definition limits_ok :: "bitrate_limits \<Rightarrow> bool" where
  "limits_ok l \<longleftrightarrow> min_bps l \<le> max_bps l"

text \<open>The invariant: ordered limits and a target between them.\<close>

definition controller_ok :: "bitrate_controller \<Rightarrow> bool" where
  "controller_ok c \<longleftrightarrow> min_bps (limits c) \<le> target c \<and> target c \<le> max_bps (limits c)"

lemma u32_clamp_ok: "lo \<le> hi \<Longrightarrow> u32_clamp v lo hi = Some (max lo (min v hi))"
  by (auto simp: u32_clamp_def max_def min_def)

lemma set_target_ok:
  assumes "controller_ok c"
  shows "set_target c v = Some (c\<lparr>target := max (min_bps (limits c)) (min v (max_bps (limits c)))\<rparr>)"
proof -
  have "min_bps (limits c) \<le> max_bps (limits c)" using assms order_trans by (auto simp: controller_ok_def)
  then show ?thesis by (simp add: set_target_def u32_clamp_ok)
qed

lemma controller_ok_set:
  "controller_ok c \<Longrightarrow> controller_ok (c\<lparr>target := max (min_bps (limits c)) (min v (max_bps (limits c)))\<rparr>)"
  by (auto simp: controller_ok_def intro: order_trans)

text \<open>The three regimes of a sample.\<close>

definition high_loss :: "network_sample \<Rightarrow> bool" where
  "high_loss s \<longleftrightarrow> f_le LOSS_DECREASE (f_clamp (loss s) (Fin 0) (Fin 1))"

definition healthy :: "network_sample \<Rightarrow> bool" where
  "healthy s \<longleftrightarrow> f_le (f_clamp (loss s) (Fin 0) (Fin 1)) LOSS_INCREASE \<and> rtt_ms s \<le> HIGH_RTT_MS"

definition increased :: "bitrate_controller \<Rightarrow> network_sample \<Rightarrow> u32" where
  "increased c s = (case estimated_bps s of
     None \<Rightarrow> target c + increase_step (target c)
   | Some est \<Rightarrow> min (target c + increase_step (target c)) (max est (min_bps (limits c))))"

definition decided :: "bitrate_controller \<Rightarrow> u32 \<Rightarrow> (bitrate_controller \<times> bitrate_decision) option" where
  "decided c v = (let t = max (min_bps (limits c)) (min v (max_bps (limits c)))
     in Some (c\<lparr>target := t\<rparr>, \<lparr>target_bps = t, tier = tier_for t\<rparr>))"

lemma decided_target: "controller_ok c \<Longrightarrow> decided c (target c) = Some (c, \<lparr>target_bps = target c, tier = tier_for (target c)\<rparr>)"
  by (simp add: decided_def controller_ok_def Let_def max_absorb2 min_absorb1)

lemma observe_eq:
  assumes "controller_ok c"
  shows "observe c s = decided c
     (if high_loss s
      then f32_as_u32 (f_mul f32 (u32_as_f32 (target c)) (decrease_factor (f_clamp (loss s) (Fin 0) (Fin 1))))
      else if healthy s then increased c s else target c)"
  using set_target_ok [OF assms] decided_target [OF assms]
  by (auto simp: observe_def high_loss_def healthy_def increased_def decided_def Let_def split: option.splits)

lemma decided_ok:
  "controller_ok c \<Longrightarrow> \<exists>d dec. decided c v = Some (d, dec) \<and> controller_ok d \<and> limits d = limits c
    \<and> target_bps dec = target d \<and> tier dec = tier_for (target d)"
  using controller_ok_set [of c v] by (simp add: decided_def Let_def)

lemma observe_total:
  "controller_ok c \<Longrightarrow> \<exists>d dec. observe c s = Some (d, dec) \<and> controller_ok d \<and> limits d = limits c
    \<and> target_bps dec = target d \<and> tier dec = tier_for (target d)"
  by (simp only: observe_eq) (rule decided_ok)

lemma observe_all_total:
  "controller_ok c \<Longrightarrow> \<exists>d. observe_all c xs = Some d \<and> controller_ok d \<and> limits d = limits c"
proof (induction xs arbitrary: c)
  case (Cons x xs)
  obtain d dec where d: "observe c x = Some (d, dec)" "controller_ok d" "limits d = limits c"
    using observe_total [OF Cons.prems] by blast
  with Cons.IH [OF d(2)] show ?case by auto
qed simp

lemma controller_new_ok:
  "limits_ok l \<Longrightarrow> \<exists>c. controller_new l = Some c \<and> controller_ok c \<and> limits c = l"
  by (auto simp: controller_new_def u32_clamp_ok limits_ok_def controller_ok_def)

lemma high_loss_value:
  assumes "high_loss s"
  obtains l where "f_clamp (loss s) (Fin 0) (Fin 1) = Fin l" "13421773 / 2 ^ 27 \<le> l" "l \<le> 1"
proof -
  have "loss s \<noteq> NaN" using assms by (auto simp: high_loss_def LOSS_DECREASE_val)
  then obtain l where "f_clamp (loss s) (Fin 0) (Fin 1) = Fin l" "l \<le> 1" using f_clamp_unit by blast
  with that assms show ?thesis by (simp add: high_loss_def LOSS_DECREASE_val)
qed

text \<open>One lossy interval: the bitrate drops strictly, down to the floor.\<close>

lemma high_loss_target:
  assumes "controller_ok c" "high_loss s" "observe c s = Some (d, dec)"
  shows "target d = target c \<and> target c = min_bps (limits c) \<or> target d < target c"
proof -
  obtain l where l: "f_clamp (loss s) (Fin 0) (Fin 1) = Fin l" "13421773 / 2 ^ 27 \<le> l" "l \<le> 1"
    using high_loss_value [OF assms(2)] .
  let ?v = "f32_as_u32 (f_mul f32 (u32_as_f32 (target c)) (decrease_factor (Fin l)))"
  have d: "target d = max (min_bps (limits c)) (min ?v (max_bps (limits c)))"
    using assms(2,3) observe_eq [OF assms(1), of s] l by (auto simp: decided_def Let_def)
  have ok: "min_bps (limits c) \<le> target c" "target c \<le> max_bps (limits c)"
    using assms(1) by (auto simp: controller_ok_def)
  show ?thesis
  proof (cases "target c = 0")
    case True
    with ok have "min_bps (limits c) = 0" by (simp add: word_le_0_iff)
    moreover have "?v = 0"
    proof -
      obtain f where "decrease_factor (Fin l) = Fin f" using decrease_factor_bounds [OF l(2,3)] .
      with True show ?thesis
        by (simp add: u32_as_f32_def fround_def rnd_def f32_as_u32_def trunc_rat_def f32_def)
    qed
    ultimately show ?thesis using d True by simp
  next
    case False
    then have "1 \<le> unat (target c)" by (simp add: Suc_le_eq unat_gt_0)
    then have "?v < target c" using decrease_strict [OF l(2,3)] by blast
    with d ok show ?thesis by (auto simp: max_def min_def)
  qed
qed


text \<open>Below 3.9 Gbit/s the increment cannot overflow the word.\<close>

lemma increase_no_overflow:
  assumes "unat t \<le> 3900000000"
  shows "unat t + unat (increase_step t) < 2 ^ 32"
proof (cases "unat t = 0")
  case True
  then show ?thesis using unsigned_less [of "increase_step t"] by simp
next
  case False
  then have t1: "1 \<le> unat t" by simp
  obtain x where x: "u32_as_f32 t = Fin x" "1 \<le> x" "x \<le> of_nat (unat t) * (1 + 1 / 2 ^ 24)" "x \<le> 2 ^ 32"
    using u32_as_f32_bounds [OF t1] .
  obtain r where r: "f_mul f32 (Fin x) (Fin (10737418 / 2 ^ 27)) = Fin r" "0 \<le> r"
      "r \<le> x * (10737418 / 2 ^ 27) * (1 + 1 / 2 ^ 24)"
    using f32_product_bounds [OF x(2,4), of "10737418 / 2 ^ 27"] by auto
  have t: "of_nat (unat t) \<le> (3900000000 :: rat)"
    using assms by (metis of_nat_le_iff of_nat_numeral)
  then have "x \<le> 3900000000 * (1 + 1 / 2 ^ 24)"
    using x(3) by (simp add: order_trans)
  then have "r \<le> 3900000000 * (1 + 1 / 2 ^ 24) * (10737418 / 2 ^ 27) * (1 + 1 / 2 ^ 24)"
    using r(3) by (simp add: order_trans)
  also have "\<dots> < 394967296" by simp
  also have "\<dots> \<le> (of_nat (2 ^ 32 - unat t) :: rat)"
  proof -
    have "394967296 \<le> 2 ^ 32 - unat t" using assms by simp
    then show ?thesis by (metis of_nat_le_iff of_nat_numeral)
  qed
  finally have "unat (f32_as_u32 (Fin r)) < 2 ^ 32 - unat t"
    by (intro unat_f32_as_u32 [OF r(2)]) (use t1 in simp_all)
  then show ?thesis unfolding increase_step_def x(1) INCREASE_FRACTION_val r(1) by simp
qed

lemma increase_ge: "unat t \<le> 3900000000 \<Longrightarrow> t \<le> t + increase_step t"
  using increase_no_overflow [of t] by (simp add: word_le_nat_alt unat_word_ariths)

lemma healthy_not_high: "healthy s \<Longrightarrow> \<not> high_loss s"
  by (cases "f_clamp (loss s) (Fin 0) (Fin 1)") (auto simp: healthy_def high_loss_def const_values)

section \<open>Properties\<close>

text \<open>
  C34: whatever is observed, NaN and out-of-range losses included, the controller neither panics nor
  leaves the configured range, and every decision reports the target and the tier of that target.
\<close>

theorem bitrate_stays_in_range:
  assumes "limits_ok l"
  shows "\<exists>c d e dec. controller_new l = Some c \<and> observe_all c xs = Some d \<and> observe d x = Some (e, dec)
    \<and> min_bps l \<le> target_bps dec \<and> target_bps dec \<le> max_bps l
    \<and> target_bps dec = target e \<and> tier dec = tier_for (target e)"
proof -
  obtain c where c: "controller_new l = Some c" "controller_ok c" "limits c = l"
    using controller_new_ok [OF assms] by blast
  then obtain d where d: "observe_all c xs = Some d" "controller_ok d" "limits d = l"
    using observe_all_total by blast
  then obtain e dec where e: "observe d x = Some (e, dec)" "controller_ok e" "limits e = l"
    "target_bps dec = target e" "tier dec = tier_for (target e)"
    using observe_total [OF d(2)] by (metis d(3))
  with c d show ?thesis by (auto simp: controller_ok_def)
qed

lemma default_limits_ok: "limits_ok bitrate_limits_default"
  by (simp add: limits_ok_def bitrate_limits_default_def)

theorem bitrate_stays_in_range_witness:
  "\<exists>c d e dec. controller_new bitrate_limits_default = Some c
    \<and> observe_all c [\<lparr>loss = NaN, rtt_ms = 5, estimated_bps = None\<rparr>] = Some d
    \<and> observe d \<lparr>loss = Inf True, rtt_ms = 5, estimated_bps = None\<rparr> = Some (e, dec)
    \<and> min_bps bitrate_limits_default \<le> target_bps dec \<and> target_bps dec \<le> max_bps bitrate_limits_default
    \<and> target_bps dec = target e \<and> tier dec = tier_for (target e)"
  by (rule bitrate_stays_in_range [OF default_limits_ok])


definition lossy_sample :: network_sample where
  "lossy_sample = \<lparr>loss = Fin (1 / 4), rtt_ms = 50, estimated_bps = None\<rparr>"

definition start_controller :: bitrate_controller where
  "start_controller = \<lparr>limits = bitrate_limits_default, target = 2500000\<rparr>"

lemma samples_ok: "controller_ok start_controller" "high_loss lossy_sample"
  by (simp_all add: controller_ok_def start_controller_def bitrate_limits_default_def
        high_loss_def lossy_sample_def f_clamp_def LOSS_DECREASE_val)


text \<open>
  the three regimes. Loss from ten per cent on lowers the target strictly unless it is at the
  floor; low loss with a healthy round trip never lowers it below the smaller of the old target and
  the receiver's estimate, and never lifts it above the estimate (or the floor); everything else,
  NaN included, holds.
\<close>

theorem observe_regimes:
  assumes "controller_ok c" "observe c s = Some (d, dec)" "unat (target c) \<le> 3900000000"
  shows "(high_loss s \<longrightarrow> target d < target c \<or> target c = min_bps (limits c) \<and> target d = target c)
    \<and> (healthy s \<and> estimated_bps s = None \<longrightarrow> target c \<le> target d)
    \<and> (\<forall>est. healthy s \<and> estimated_bps s = Some est \<longrightarrow>
         min (target c) est \<le> target d \<and> target d \<le> max est (min_bps (limits c)))
    \<and> (\<not> high_loss s \<and> \<not> healthy s \<longrightarrow> d = c)"
proof (intro conjI allI impI)
  assume "high_loss s"
  from high_loss_target [OF assms(1) this assms(2)]
  show "target d < target c \<or> target c = min_bps (limits c) \<and> target d = target c" by auto
next
  assume "healthy s \<and> estimated_bps s = None"
  with assms(2) observe_eq [OF assms(1), of s] healthy_not_high [of s] increase_ge [OF assms(3)]
  show "target c \<le> target d" using assms(1)
    by (auto simp: decided_def Let_def increased_def controller_ok_def max_def min_def)
next
  fix est assume h: "healthy s \<and> estimated_bps s = Some est"
  have td: "target d = max (min_bps (limits c)) (min (increased c s) (max_bps (limits c)))"
    using h assms(2) observe_eq [OF assms(1), of s] healthy_not_high [of s] by (auto simp: decided_def Let_def)
  with h assms(1) increase_ge [OF assms(3)] show "min (target c) est \<le> target d"
    by (auto simp: increased_def controller_ok_def max_def min_def)
  from td h assms(1) show "target d \<le> max est (min_bps (limits c))"
    by (auto simp: increased_def controller_ok_def max_def min_def)
next
  assume "\<not> high_loss s \<and> \<not> healthy s"
  then show "d = c" using assms(2) observe_eq [OF assms(1), of s] decided_target [OF assms(1)] by simp
qed

theorem observe_regimes_witness:
  "\<exists>d dec. observe start_controller lossy_sample = Some (d, dec) \<and> target d < 2500000"
proof -
  obtain d dec where d: "observe start_controller lossy_sample = Some (d, dec)"
    using observe_total [OF samples_ok(1)] by blast
  have "target d < target start_controller
      \<or> target start_controller = min_bps (limits start_controller) \<and> target d = target start_controller"
    using observe_regimes [OF samples_ok(1) d] samples_ok(2) by (simp add: start_controller_def)
  with d show ?thesis by (simp add: start_controller_def bitrate_limits_default_def)
qed

text \<open>
  the increment is not protected against overflow: a controller at the largest 32-bit bitrate
  that sees a loss-free interval wraps around and drops its target to about 344 Mbit/s.
\<close>

theorem increase_overflow:
  "observe \<lparr>limits = \<lparr>min_bps = 300000, max_bps = - 1, start_bps = - 1\<rparr>, target = - 1\<rparr>
      \<lparr>loss = Fin 0, rtt_ms = 30, estimated_bps = None\<rparr>
   = Some (\<lparr>limits = \<lparr>min_bps = 300000, max_bps = - 1, start_bps = - 1\<rparr>, target = 343597375\<rparr>,
           \<lparr>target_bps = 343597375, tier = Ultra\<rparr>)"
proof -
  have u32_max: "unat (- 1 :: u32) = 4294967295"
    by (simp add: unsigned_minus_1_eq_mask mask_eq_exp_minus_1)
  have a: "u32_as_f32 (- 1) = Fin (2 ^ 32)"
    unfolding u32_as_f32_def u32_max
    by (rule fround_eqI [where e = 31 and q = 8 and k = "2 ^ 24"]) (simp_all add: f32_def power_int_def)
  have b: "f_mul f32 (Fin (2 ^ 32)) (Fin (10737418 / 2 ^ 27)) = Fin 343597376"
    unfolding f_mul.simps
    by (rule fround_eqI [where e = 28 and q = 5 and k = 10737418]) (simp_all add: f32_def power_int_def)
  have "increase_step (- 1) = 343597376"
    unfolding increase_step_def a INCREASE_FRACTION_val b by (simp add: f32_as_u32_def trunc_rat_def)
  then show ?thesis
    by (simp add: observe_def f_clamp_def const_values HIGH_RTT_MS_def set_target_def u32_clamp_def
          tier_for_def Let_def)
qed

end
