(* ===== verification/Rust_Str.thy ===== *)
theory Rust_Str
  imports Prelude
begin

text \<open>
  Rust strings. A \<open>String\<close> is a byte vector that holds UTF-8, so it is modelled by HOL's \<open>string\<close>, whose
  \<open>char\<close> is a byte: \<open>length\<close> is \<open>str::len\<close>, equality is byte equality, and an ASCII literal is written
  as usual. \<open>utf8_chars\<close> splits a string into the byte groups of its characters, \<open>code_point\<close> reads one,
  and the library functions the agent uses (\<open>trim\<close>, \<open>is_char_boundary\<close>, \<open>starts_with\<close>, \<open>to_string\<close> of an
  integer) are defined on top.
\<close>

abbreviation byte :: "char \<Rightarrow> nat" where "byte \<equiv> of_char"

section \<open>Characters of a string\<close>

text \<open>Number of continuation bytes that follow a leading byte.\<close>

definition trail_len :: "char \<Rightarrow> nat" where
  "trail_len b = (if byte b < 0xC0 then 0 else if byte b < 0xE0 then 1 else if byte b < 0xF0 then 2 else 3)"

function utf8_chars :: "string \<Rightarrow> string list" where
  "utf8_chars [] = []"
| "utf8_chars (b # bs) = (b # take (trail_len b) bs) # utf8_chars (drop (trail_len b) bs)"
  by pat_completeness auto
termination by (relation "measure length") auto

lemma concat_utf8_chars [simp]: "concat (utf8_chars s) = s"
  by (induction s rule: utf8_chars.induct) auto

lemma utf8_chars_nonempty: "c \<in> set (utf8_chars s) \<Longrightarrow> c \<noteq> []"
  by (induction s rule: utf8_chars.induct) auto

lemma utf8_chars_Nil_iff [simp]: "utf8_chars s = [] \<longleftrightarrow> s = []"
  by (cases s) auto

definition is_cont :: "char \<Rightarrow> bool" where
  "is_cont b \<longleftrightarrow> 0x80 \<le> byte b \<and> byte b < 0xC0"

text \<open>Well-formed encodings of one character (Unicode table 3-7).\<close>

fun wf_char :: "string \<Rightarrow> bool" where
  "wf_char [a] \<longleftrightarrow> byte a < 0x80"
| "wf_char [a, b] \<longleftrightarrow> 0xC2 \<le> byte a \<and> byte a < 0xE0 \<and> is_cont b"
| "wf_char [a, b, c] \<longleftrightarrow> 0xE0 \<le> byte a \<and> byte a < 0xF0 \<and> is_cont b \<and> is_cont c
     \<and> (byte a = 0xE0 \<longrightarrow> 0xA0 \<le> byte b) \<and> (byte a = 0xED \<longrightarrow> byte b < 0xA0)"
| "wf_char [a, b, c, d] \<longleftrightarrow> 0xF0 \<le> byte a \<and> byte a < 0xF5 \<and> is_cont b \<and> is_cont c \<and> is_cont d
     \<and> (byte a = 0xF0 \<longrightarrow> 0x90 \<le> byte b) \<and> (byte a = 0xF4 \<longrightarrow> byte b < 0x90)"
| "wf_char _ \<longleftrightarrow> False"

definition valid_utf8 :: "string \<Rightarrow> bool" where
  "valid_utf8 s \<longleftrightarrow> list_all wf_char (utf8_chars s)"

fun code_point :: "string \<Rightarrow> nat" where
  "code_point [a, b] = (byte a mod 0x20) * 0x40 + byte b mod 0x40"
| "code_point [a, b, c] = (byte a mod 0x10) * 0x1000 + (byte b mod 0x40) * 0x40 + byte c mod 0x40"
| "code_point [a, b, c, d] = (byte a mod 8) * 0x40000 + (byte b mod 0x40) * 0x1000
     + (byte c mod 0x40) * 0x40 + byte d mod 0x40"
| "code_point (a # _) = byte a"
| "code_point [] = 0"

text \<open>\<open>char::is_whitespace\<close> (the \<open>White_Space\<close> property) and \<open>char::is_control\<close> (category Cc).\<close>

definition uc_whitespace :: "nat \<Rightarrow> bool" where
  "uc_whitespace c \<longleftrightarrow> (9 \<le> c \<and> c \<le> 13) \<or> c = 0x20 \<or> c = 0x85 \<or> c = 0xA0 \<or> c = 0x1680
     \<or> (0x2000 \<le> c \<and> c \<le> 0x200A) \<or> c = 0x2028 \<or> c = 0x2029 \<or> c = 0x202F \<or> c = 0x205F \<or> c = 0x3000"

definition uc_control :: "nat \<Rightarrow> bool" where
  "uc_control c \<longleftrightarrow> c < 0x20 \<or> (0x7F \<le> c \<and> c < 0xA0)"

definition trim :: "string \<Rightarrow> string" where
  "trim s = (let ws = (\<lambda>c. uc_whitespace (code_point c)) in
     concat (rev (dropWhile ws (rev (dropWhile ws (utf8_chars s))))))"

lemma dropWhile_all_iff: "(\<forall>x \<in> set (dropWhile P xs). P x) \<longleftrightarrow> list_all P xs"
  by (induction xs) auto

text \<open>A string trims to nothing exactly when all its characters are white space.\<close>

lemma trim_empty_iff: "trim s = [] \<longleftrightarrow> list_all (\<lambda>c. uc_whitespace (code_point c)) (utf8_chars s)"
proof -
  let ?ws = "\<lambda>c. uc_whitespace (code_point c)"
  let ?t = "dropWhile ?ws (rev (dropWhile ?ws (utf8_chars s)))"
  have "c \<noteq> []" if "c \<in> set ?t" for c
    using that set_dropWhileD utf8_chars_nonempty by (metis (no_types, lifting) set_rev)
  then have "concat (rev ?t) = [] \<longleftrightarrow> ?t = []"
    by (metis concat.simps(1) concat_eq_Nil_conv last_in_set rev.simps(1) set_rev)
  also have "?t = [] \<longleftrightarrow> (\<forall>c \<in> set (dropWhile ?ws (utf8_chars s)). ?ws c)" by simp
  finally show ?thesis unfolding trim_def Let_def dropWhile_all_iff .
qed

text \<open>Rules that evaluate the predicates above on literals.\<close>

lemmas str_eval = trim_empty_iff trail_len_def uc_whitespace_def uc_control_def is_cont_def

lemma trim_Nil [simp]: "trim [] = []"
  by (simp add: trim_def)

section \<open>Prefixes, slices and numbers\<close>

definition starts_with :: "string \<Rightarrow> string \<Rightarrow> bool" where
  "starts_with p s \<longleftrightarrow> take (length p) s = p"

lemma starts_with_append [simp]: "starts_with p (p @ s)"
  by (simp add: starts_with_def)

lemma starts_with_iff: "starts_with p s \<longleftrightarrow> (\<exists>t. s = p @ t)"
  by (metis append_take_drop_id starts_with_append starts_with_def)

definition trim_end_slash :: "string \<Rightarrow> string" where
  "trim_end_slash s = rev (dropWhile (\<lambda>c. c = CHR ''/'') (rev s))"

text \<open>\<open>str::is_char_boundary\<close>: the ends, and every index that does not point at a continuation byte.\<close>

definition is_char_boundary :: "string \<Rightarrow> nat \<Rightarrow> bool" where
  "is_char_boundary s i \<longleftrightarrow> i = 0 \<or> i = length s \<or> (i < length s \<and> \<not> is_cont (s ! i))"

fun decimal :: "nat \<Rightarrow> string" where
  "decimal n = (if n < 10 then [char_of (48 + n)] else decimal (n div 10) @ [char_of (48 + n mod 10)])"

declare decimal.simps [simp del]

definition decimal_int :: "int \<Rightarrow> string" where
  "decimal_int i = (if i < 0 then ''-'' @ decimal (nat (- i)) else decimal (nat i))"

text \<open>Reading a decimal number back, the inverse of \<open>decimal\<close>.\<close>

definition parse_decimal :: "string \<Rightarrow> nat" where
  "parse_decimal s = foldl (\<lambda>n c. 10 * n + (byte c - 48)) 0 s"

lemma byte_char_of [simp]: "n < 256 \<Longrightarrow> byte (char_of n) = n"
  by simp

lemma parse_decimal_decimal: "parse_decimal (decimal n) = n"
proof (induction n rule: decimal.induct)
  case (1 n)
  show ?case
  proof (cases "n < 10")
    case True
    then show ?thesis by (subst decimal.simps) (simp add: parse_decimal_def)
  next
    case False
    have "48 + n mod 10 < 256" using pos_mod_bound [of 10 "int n"] by (simp add: mod_less_divisor less_trans)
    with False 1 show ?thesis by (subst decimal.simps) (simp add: parse_decimal_def)
  qed
qed

lemma decimal_inject: "decimal m = decimal n \<Longrightarrow> m = n"
  by (metis parse_decimal_decimal)

lemma decimal_digits: "c \<in> set (decimal n) \<Longrightarrow> 48 \<le> byte c \<and> byte c < 58"
proof (induction n rule: decimal.induct)
  case (1 n)
  show ?case
  proof (cases "n < 10")
    case True
    with "1.prems" show ?thesis by (subst (asm) decimal.simps) simp
  next
    case False
    with "1.prems" have "c \<in> set (decimal (n div 10)) \<or> c = char_of (48 + n mod 10)"
      by (subst (asm) decimal.simps) auto
    moreover have "48 + n mod 10 < 58" by simp
    ultimately show ?thesis using "1.IH" [OF False] by auto
  qed
qed

end
