(* ===== verification/Agent_Error.thy ===== *)
theory Agent_Error
  imports Rust_Str
begin

text \<open>
  The unified error of the agent (\<open>crates/core/src/error.rs\<close>). The two wrapped library errors
  (\<open>serde_json::Error\<close>, \<open>std::io::Error\<close>) are represented by their messages.
\<close>

datatype agent_error =
    Config string
  | Subsystem string string
  | Transport string
  | Offline
  | Crypto string
  | Serialization string
  | Io string

type_synonym 'a agent_result = "('a, agent_error) result"

definition subsystem_error :: "string \<Rightarrow> string \<Rightarrow> agent_error" where
  "subsystem_error name message = Subsystem name message"

text \<open>The \<open>Display\<close> rendering of the error.\<close>

fun agent_error_display :: "agent_error \<Rightarrow> string" where
  "agent_error_display (Config m) = ''configuration error: '' @ m"
| "agent_error_display (Subsystem name m) = ''subsystem '' @ [CHR 39] @ name @ [CHR 39] @ '' error: '' @ m"
| "agent_error_display (Transport m) = ''transport error: '' @ m"
| "agent_error_display Offline = ''offline: operation refused until connectivity is restored''"
| "agent_error_display (Crypto m) = ''crypto error: '' @ m"
| "agent_error_display (Serialization m) = ''serialization error: '' @ m"
| "agent_error_display (Io m) = ''io error: '' @ m"

end
