(* ===== verification/Identity.thy ===== *)
theory Identity
  imports Agent_Error
begin

text \<open>
  The cryptographic identity of the device (\<open>crates/core/src/identity.rs\<close>). The curve (x25519-dalek), the hex and
  base64 codecs and the random source are parameters; \<open>identity_laws\<close> states what the agent relies on: a secret
  key survives being written out, hex decoding inverts hex encoding, and the two sides of a key exchange agree.
\<close>

definition KEY_LEN :: nat where "KEY_LEN = 32"

record 'sk identity_lib =
  sk_from :: "bytes \<Rightarrow> 'sk"
  sk_to_bytes :: "'sk \<Rightarrow> bytes"
  pk_from :: "'sk \<Rightarrow> bytes"
  dh :: "'sk \<Rightarrow> bytes \<Rightarrow> bytes"
  hex_encode :: "bytes \<Rightarrow> string"
  hex_decode :: "string \<Rightarrow> (bytes, string) result"
  base64_encode :: "bytes \<Rightarrow> string"

record 'sk device_identity =
  id_secret :: 'sk
  id_public :: bytes

section \<open>Operations\<close>

definition from_secret_bytes :: "'sk identity_lib \<Rightarrow> bytes \<Rightarrow> 'sk device_identity" where
  "from_secret_bytes lib b = (let secret = sk_from lib b in \<lparr> id_secret = secret, id_public = pk_from lib secret \<rparr>)"

text \<open>\<open>entropy\<close> is what the random source of the system returns.\<close>

definition generate :: "'sk identity_lib \<Rightarrow> (bytes, string) result \<Rightarrow> 'sk device_identity agent_result" where
  "generate lib entropy = (case entropy of
     Inl e \<Rightarrow> Err (Crypto (''failed to gather entropy: '' @ e))
   | Inr b \<Rightarrow> Ok (from_secret_bytes lib b))"

definition from_secret_hex :: "'sk identity_lib \<Rightarrow> string \<Rightarrow> 'sk device_identity agent_result" where
  "from_secret_hex lib s = (case hex_decode lib (trim s) of
     Inl e \<Rightarrow> Err (Crypto (''invalid secret key hex: '' @ e))
   | Inr raw \<Rightarrow> if length raw = KEY_LEN then Ok (from_secret_bytes lib raw)
       else Err (Crypto ''secret key must be 32 bytes''))"

definition secret_bytes :: "'sk identity_lib \<Rightarrow> 'sk device_identity \<Rightarrow> bytes" where
  "secret_bytes lib i = sk_to_bytes lib (id_secret i)"

definition secret_hex :: "'sk identity_lib \<Rightarrow> 'sk device_identity \<Rightarrow> string" where
  "secret_hex lib i = hex_encode lib (secret_bytes lib i)"

definition public_bytes :: "'sk device_identity \<Rightarrow> bytes" where
  "public_bytes i = id_public i"

definition public_hex :: "'sk identity_lib \<Rightarrow> 'sk device_identity \<Rightarrow> string" where
  "public_hex lib i = hex_encode lib (public_bytes i)"

definition public_base64 :: "'sk identity_lib \<Rightarrow> 'sk device_identity \<Rightarrow> string" where
  "public_base64 lib i = base64_encode lib (public_bytes i)"

definition fingerprint :: "'sk identity_lib \<Rightarrow> 'sk device_identity \<Rightarrow> string" where
  "fingerprint lib i = hex_encode lib (take 8 (public_bytes i))"

definition shared_secret :: "'sk identity_lib \<Rightarrow> 'sk device_identity \<Rightarrow> bytes \<Rightarrow> bytes" where
  "shared_secret lib i peer = dh lib (id_secret i) peer"

section \<open>Documented behaviour of the libraries\<close>

definition hex_digit :: "char \<Rightarrow> bool" where
  "hex_digit c \<longleftrightarrow> (48 \<le> byte c \<and> byte c \<le> 57) \<or> (97 \<le> byte c \<and> byte c \<le> 102)"

definition identity_laws :: "'sk identity_lib \<Rightarrow> bool" where
  "identity_laws lib \<longleftrightarrow>
     (\<forall>b. length b = KEY_LEN \<longrightarrow> length (sk_to_bytes lib (sk_from lib b)) = KEY_LEN
        \<and> sk_from lib (sk_to_bytes lib (sk_from lib b)) = sk_from lib b \<and> length (pk_from lib (sk_from lib b)) = KEY_LEN)
   \<and> (\<forall>b. hex_decode lib (hex_encode lib b) = Ok b \<and> list_all hex_digit (hex_encode lib b)
        \<and> length (hex_encode lib b) = 2 * length b)
   \<and> (\<forall>a b. dh lib (sk_from lib a) (pk_from lib (sk_from lib b)) = dh lib (sk_from lib b) (pk_from lib (sk_from lib a)))"

section \<open>Trimming a key file\<close>

definition ascii :: "string \<Rightarrow> bool" where
  "ascii s \<longleftrightarrow> list_all (\<lambda>c. byte c < 128) s"

lemma utf8_chars_ascii: "ascii s \<Longrightarrow> utf8_chars s = map (\<lambda>c. [c]) s"
  by (induction s) (auto simp: ascii_def trail_len_def)

lemma valid_utf8_ascii: "ascii s \<Longrightarrow> valid_utf8 s"
  unfolding valid_utf8_def utf8_chars_ascii by (simp add: ascii_def list_all_iff)

lemma hex_ascii: "list_all hex_digit s \<Longrightarrow> ascii s"
  by (auto simp: ascii_def list_all_iff hex_digit_def)

definition ascii_space :: "string \<Rightarrow> bool" where
  "ascii_space s \<longleftrightarrow> list_all (\<lambda>c. byte c < 128 \<and> uc_whitespace (byte c)) s"

lemma dropWhile_around:
  assumes "\<forall>c \<in> set u. P c" "\<forall>c \<in> set v. P c" "\<forall>c \<in> set s. \<not> P c"
  shows "rev (dropWhile P (rev (dropWhile P (u @ s @ v)))) = s"
proof (cases "s = []")
  case True
  then have "\<forall>c \<in> set (u @ s @ v). P c" using assms(1,2) by auto
  then have e: "dropWhile P (u @ s @ v) = []" by (simp only: dropWhile_eq_Nil_conv)
  show ?thesis unfolding e using True by simp
next
  case False
  have d: "dropWhile P (x @ y) = dropWhile P y" if "\<forall>c \<in> set x. P c" for x y using that by (induction x) auto
  have k: "dropWhile P (x @ y) = x @ y" if "x \<noteq> []" "\<forall>c \<in> set x. \<not> P c" for x y using that by (cases x) auto
  have "dropWhile P (u @ s @ v) = s @ v" using d [OF assms(1)] k [OF False assms(3)] by simp
  moreover have "dropWhile P (rev (s @ v)) = rev s"
    using d [of "rev v" "rev s"] k [of "rev s" "[]"] assms(2,3) False by simp
  ultimately show ?thesis by simp
qed

text \<open>White space around a key does not matter: trimming gives the key back.\<close>

lemma trim_around:
  assumes "ascii_space u" "ascii_space v" "list_all hex_digit s"
  shows "trim (u @ s @ v) = s"
proof -
  let ?ws = "\<lambda>c. uc_whitespace (code_point c)"
  have a: "ascii (u @ s @ v)"
    using assms hex_ascii [OF assms(3)] by (auto simp: ascii_def ascii_space_def list_all_iff)
  have sp: "\<forall>c \<in> set (map (\<lambda>c. [c]) w). ?ws c" if "ascii_space w" for w
    using that by (auto simp: ascii_space_def list_all_iff)
  have "\<forall>c \<in> set (map (\<lambda>c. [c]) s). \<not> ?ws c"
    using assms(3) by (auto simp: list_all_iff hex_digit_def uc_whitespace_def)
  from dropWhile_around [OF sp [OF assms(1)] sp [OF assms(2)] this] show ?thesis
    unfolding trim_def utf8_chars_ascii [OF a] Let_def by (simp add: concat_map_singleton)
qed

lemma from_secret_hex_around:
  assumes "identity_laws lib" "length b = KEY_LEN" "i = from_secret_bytes lib b" "ascii_space u" "ascii_space v"
  shows "from_secret_hex lib (u @ secret_hex lib i @ v) = Ok i"
proof -
  have h: "list_all hex_digit (secret_hex lib i)" "hex_decode lib (secret_hex lib i) = Ok (secret_bytes lib i)"
    using assms(1) by (auto simp: identity_laws_def secret_hex_def)
  have "length (secret_bytes lib i) = KEY_LEN" "from_secret_bytes lib (secret_bytes lib i) = i"
    using assms(1-3) by (auto simp: identity_laws_def secret_bytes_def from_secret_bytes_def Let_def)
  then show ?thesis using h trim_around [OF assms(4,5) h(1)] by (simp add: from_secret_hex_def)
qed

section \<open>Properties\<close>

text \<open>
  A persisted identity is restored exactly, whatever white space an editor left around the key: parsing the hex
  form of the secret gives back the same identity, public key included, and its fingerprint is 16 hex digits.
\<close>

theorem identity_roundtrips:
  assumes "identity_laws lib" and "length b = KEY_LEN" and "generate lib (Ok b) = Ok i"
    and "ascii_space u" and "ascii_space v"
  shows "from_secret_hex lib (u @ secret_hex lib i @ v) = Ok i
    \<and> length (fingerprint lib i) = 16 \<and> list_all hex_digit (fingerprint lib i)"
proof -
  have i: "i = from_secret_bytes lib b" using assms(3) by (simp add: generate_def)
  have "length (public_bytes i) = KEY_LEN"
    using assms(1,2) by (simp add: i identity_laws_def public_bytes_def from_secret_bytes_def Let_def)
  then have "length (fingerprint lib i) = 16" "list_all hex_digit (fingerprint lib i)"
    using assms(1) by (simp_all add: fingerprint_def identity_laws_def KEY_LEN_def)
  then show ?thesis using from_secret_hex_around [OF assms(1,2) i assms(4,5)] by simp
qed

text \<open>A concrete instance of the libraries: keys are their bytes, and hex is spelled out.\<close>

definition hex_char :: "nat \<Rightarrow> char" where
  "hex_char n = char_of (if n < 10 then 48 + n else 87 + n)"

definition hex_val :: "char \<Rightarrow> nat" where
  "hex_val c = (if byte c < 58 then byte c - 48 else byte c - 87)"

fun hex_of :: "bytes \<Rightarrow> string" where
  "hex_of [] = []"
| "hex_of (b # bs) = hex_char (unat b div 16) # hex_char (unat b mod 16) # hex_of bs"

fun of_hex :: "string \<Rightarrow> (bytes, string) result" where
  "of_hex [] = Ok []"
| "of_hex [c] = Err ''Odd number of digits''"
| "of_hex (c # d # s) = bind_result (of_hex s) (\<lambda>bs. Ok (word_of_nat (16 * hex_val c + hex_val d) # bs))"

definition sample_lib :: "bytes identity_lib" where
  "sample_lib = \<lparr> sk_from = (\<lambda>b. b), sk_to_bytes = (\<lambda>b. b), pk_from = (\<lambda>b. b), dh = (\<lambda>a b. map2 (+) a b),
     hex_encode = hex_of, hex_decode = of_hex, base64_encode = hex_of \<rparr>"

lemma hex_char_digit: "n < 16 \<Longrightarrow> hex_digit (hex_char n) \<and> hex_val (hex_char n) = n"
  by (auto simp: hex_digit_def hex_char_def hex_val_def)

lemma of_hex_of: "of_hex (hex_of b) = Ok b \<and> list_all hex_digit (hex_of b) \<and> length (hex_of b) = 2 * length b"
proof (induction b)
  case (Cons x b)
  have "unat x < 256" using unsigned_less [of x] by simp
  then have "unat x div 16 < 16" "unat x mod 16 < 16" by auto
  then show ?case using Cons hex_char_digit by simp
qed simp

lemma sample_lib_laws: "identity_laws sample_lib"
proof -
  have "map2 (+) a b = map2 (+) b a" for a b :: bytes
    by (induction a b rule: list_induct2') (auto simp: add.commute)
  then show ?thesis using of_hex_of by (simp add: identity_laws_def sample_lib_def)
qed

theorem identity_roundtrips_witness:
  "from_secret_hex sample_lib ('' '' @ secret_hex sample_lib (from_secret_bytes sample_lib (replicate 32 7)) @ [CHR 0x0A])
     = Ok (from_secret_bytes sample_lib (replicate 32 7))"
proof -
  have l: "length (replicate 32 7) = KEY_LEN" by (simp add: KEY_LEN_def)
  have g: "generate sample_lib (Ok (replicate 32 7)) = Ok (from_secret_bytes sample_lib (replicate 32 7))"
    by (simp add: generate_def)
  have u: "ascii_space '' ''" "ascii_space [CHR 0x0A]" by (simp_all add: ascii_space_def uc_whitespace_def)
  from identity_roundtrips [OF sample_lib_laws l g u] show ?thesis by blast
qed

text \<open>The two ends of a pairing derive the same shared secret from each other's public keys.\<close>

lemma shared_secrets_agree:
  assumes "identity_laws lib" and "generate lib (Ok a) = Ok i" and "generate lib (Ok b) = Ok j"
  shows "shared_secret lib i (public_bytes j) = shared_secret lib j (public_bytes i)"
  using assms by (auto simp: identity_laws_def generate_def from_secret_bytes_def shared_secret_def public_bytes_def Let_def)

text \<open>What is refused: text that is not hex, and keys of another length.\<close>

lemma from_secret_hex_errors:
  "hex_decode lib (trim s) = Err e \<Longrightarrow> from_secret_hex lib s = Err (Crypto (''invalid secret key hex: '' @ e))"
  "hex_decode lib (trim s) = Ok raw \<Longrightarrow> length raw \<noteq> KEY_LEN
     \<Longrightarrow> from_secret_hex lib s = Err (Crypto ''secret key must be 32 bytes'')"
  by (simp_all add: from_secret_hex_def)

end
