(* ===== verification/Backend.thy ===== *)
theory Backend
  imports Identity
begin

text \<open>
  The REST client of the agent (\<open>crates/backend\<close>): errors (\<open>error.rs\<close>), wire models (\<open>models.rs\<close>), the HTTP client
  (\<open>client.rs\<close>), enrollment (\<open>enrollment.rs\<close>) and the detection of the host (\<open>lib.rs\<close>). The HTTP library (reqwest) and
  the JSON decoders derived by serde are parameters. A request is what the client hands to the library: method,
  address, bearer token and JSON object, whose values are all strings.
\<close>

section \<open>Errors and models\<close>

datatype backend_error =
    Http string
  | Api u16 string string
  | Decode string
  | Invalid string

fun backend_error_display :: "backend_error \<Rightarrow> string" where
  "backend_error_display (Http m) = ''http transport error: '' @ m"
| "backend_error_display (Api s c m) = ''backend returned '' @ decimal (unat s) @ '' ('' @ c @ ''): '' @ m"
| "backend_error_display (Decode m) = ''failed to decode response: '' @ m"
| "backend_error_display (Invalid m) = m"

type_synonym 'a backend_result = "('a, backend_error) result"

text \<open>The pairing code for the terminal (\<open>qr.rs\<close>); building the QR code is the library's.\<close>

definition render_qr :: "(string \<Rightarrow> (string, string) result) \<Rightarrow> string \<Rightarrow> string backend_result" where
  "render_qr qrcode p = (case qrcode p of Inl e \<Rightarrow> Err (Decode (''qr encode: '' @ e)) | Inr code \<Rightarrow> Ok code)"

record token_pair =
  access_token :: string
  refresh_token :: string
  token_type :: string
  expires_in :: int

record device_registration =
  reg_kind :: string
  reg_platform :: string
  reg_name :: string
  reg_public_key :: string
  reg_fcm_token :: "string option"

record device =
  dev_id :: string
  dev_kind :: string
  dev_platform :: string
  dev_name :: string
  dev_status :: string

record session_ice_server =
  srv_urls :: "string list"
  srv_username :: string
  srv_credential :: string

record session_ref =
  ref_id :: string
  ref_pairing_id :: string
  ref_status :: string

record pending_session =
  session :: session_ref
  signaling_url :: string
  signaling_ticket :: string
  ice_servers :: "session_ice_server list"

record pairing_challenge =
  pairing_id :: string
  qr_payload :: string
  manual_code :: string
  expires_at :: string

section \<open>The HTTP client\<close>

datatype http_method = GET | POST

record http_request =
  req_method :: http_method
  req_url :: string
  req_bearer :: "string option"
  req_json :: "(string \<times> string) list option"

record http_response =
  resp_status :: u16
  resp_text :: "(string, string) result"

record 'w http_lib =
  http_build :: "(unit, string) result"
  http_send :: "'w \<Rightarrow> http_request \<Rightarrow> 'w \<times> (http_response, string) result"

text \<open>The decoders of the response types, and of the error envelope (\<open>error\<close> and \<open>message\<close>).\<close>

record json_lib =
  token_pair_from_str :: "string \<Rightarrow> (token_pair, string) result"
  device_from_str :: "string \<Rightarrow> (device, string) result"
  challenge_from_str :: "string \<Rightarrow> (pairing_challenge, string) result"
  pending_from_str :: "string \<Rightarrow> (pending_session list, string) result"
  envelope_from_str :: "string \<Rightarrow> (string \<times> string, string) result"

record backend_client =
  base_url :: string

definition client_new :: "'w http_lib \<Rightarrow> string \<Rightarrow> backend_client backend_result" where
  "client_new http base = (case http_build http of
     Inl e \<Rightarrow> Err (Http e)
   | Inr _ \<Rightarrow> Ok \<lparr> base_url = trim_end_slash base \<rparr>)"

definition with_client :: "string \<Rightarrow> backend_client" where
  "with_client base = \<lparr> base_url = trim_end_slash base \<rparr>"

definition client_url :: "backend_client \<Rightarrow> string \<Rightarrow> string" where
  "client_url c path = base_url c @ path"

definition is_success :: "u16 \<Rightarrow> bool" where
  "is_success s \<longleftrightarrow> 200 \<le> s \<and> s \<le> 299"

definition api_error :: "json_lib \<Rightarrow> u16 \<Rightarrow> string \<Rightarrow> backend_error" where
  "api_error js status body =
    (let (err, msg) = (case envelope_from_str js body of Inr env \<Rightarrow> env | Inl _ \<Rightarrow> ([], [])) in
     Api status (if err = [] then ''unknown'' else err) (if msg = [] then body else msg))"

definition decode_json :: "'w http_lib \<Rightarrow> json_lib \<Rightarrow> (string \<Rightarrow> ('a, string) result) \<Rightarrow> 'w \<Rightarrow> http_request \<Rightarrow> 'w \<times> 'a backend_result" where
  "decode_json http js from_str w req = (case http_send http w req of
     (w', Inl e) \<Rightarrow> (w', Err (Http e))
   | (w', Inr resp) \<Rightarrow> (w', (case resp_text resp of
       Inl e \<Rightarrow> Err (Http e)
     | Inr body \<Rightarrow>
         if is_success (resp_status resp)
         then (case from_str body of Inl e \<Rightarrow> Err (Decode e) | Inr x \<Rightarrow> Ok x)
         else Err (api_error js (resp_status resp) body))))"

definition expect_success :: "'w http_lib \<Rightarrow> json_lib \<Rightarrow> 'w \<Rightarrow> http_request \<Rightarrow> 'w \<times> unit backend_result" where
  "expect_success http js w req = (case http_send http w req of
     (w', Inl e) \<Rightarrow> (w', Err (Http e))
   | (w', Inr resp) \<Rightarrow> (w',
       if is_success (resp_status resp) then Ok ()
       else Err (api_error js (resp_status resp) (case resp_text resp of Inr b \<Rightarrow> b | Inl _ \<Rightarrow> []))))"

section \<open>The six requests\<close>

definition login_request :: "backend_client \<Rightarrow> string \<Rightarrow> string \<Rightarrow> http_request" where
  "login_request c email password = \<lparr> req_method = POST, req_url = client_url c ''/api/v1/auth/login'', req_bearer = None,
     req_json = Some [(''email'', email), (''password'', password)] \<rparr>"

definition refresh_request :: "backend_client \<Rightarrow> string \<Rightarrow> http_request" where
  "refresh_request c token = \<lparr> req_method = POST, req_url = client_url c ''/api/v1/auth/refresh'', req_bearer = None,
     req_json = Some [(''refresh_token'', token)] \<rparr>"

text \<open>The JSON object of a registration: an absent push token is left out.\<close>

definition registration_json :: "device_registration \<Rightarrow> (string \<times> string) list" where
  "registration_json r = [(''kind'', reg_kind r), (''platform'', reg_platform r), (''name'', reg_name r),
     (''public_key'', reg_public_key r)] @ (case reg_fcm_token r of Some t \<Rightarrow> [(''fcm_token'', t)] | None \<Rightarrow> [])"

definition register_request :: "backend_client \<Rightarrow> string \<Rightarrow> device_registration \<Rightarrow> http_request" where
  "register_request c token r = \<lparr> req_method = POST, req_url = client_url c ''/api/v1/devices'', req_bearer = Some token,
     req_json = Some (registration_json r) \<rparr>"

definition pairing_request :: "backend_client \<Rightarrow> string \<Rightarrow> string \<Rightarrow> http_request" where
  "pairing_request c token d = \<lparr> req_method = POST, req_url = client_url c ''/api/v1/pairing/initiate'', req_bearer = Some token,
     req_json = Some [(''desktop_device_id'', d)] \<rparr>"

definition heartbeat_request :: "backend_client \<Rightarrow> string \<Rightarrow> string \<Rightarrow> http_request" where
  "heartbeat_request c token d = \<lparr> req_method = POST, req_url = client_url c (''/api/v1/devices/'' @ d @ ''/heartbeat''),
     req_bearer = Some token, req_json = Some [(''status'', ''online'')] \<rparr>"

definition pending_request :: "backend_client \<Rightarrow> string \<Rightarrow> string \<Rightarrow> http_request" where
  "pending_request c token d = \<lparr> req_method = GET, req_url = client_url c (''/api/v1/sessions/pending?device_id='' @ d),
     req_bearer = Some token, req_json = None \<rparr>"

text \<open>The \<open>BackendApi\<close> trait, and the HTTP client as its implementation.\<close>

record 'w backend_api =
  api_login :: "'w \<Rightarrow> string \<Rightarrow> string \<Rightarrow> 'w \<times> token_pair backend_result"
  api_refresh :: "'w \<Rightarrow> string \<Rightarrow> 'w \<times> token_pair backend_result"
  api_register_device :: "'w \<Rightarrow> string \<Rightarrow> device_registration \<Rightarrow> 'w \<times> device backend_result"
  api_initiate_pairing :: "'w \<Rightarrow> string \<Rightarrow> string \<Rightarrow> 'w \<times> pairing_challenge backend_result"
  api_heartbeat :: "'w \<Rightarrow> string \<Rightarrow> string \<Rightarrow> 'w \<times> unit backend_result"
  api_pending_sessions :: "'w \<Rightarrow> string \<Rightarrow> string \<Rightarrow> 'w \<times> pending_session list backend_result"

definition client_api :: "'w http_lib \<Rightarrow> json_lib \<Rightarrow> backend_client \<Rightarrow> 'w backend_api" where
  "client_api http js c = \<lparr>
     api_login = (\<lambda>w e p. decode_json http js (token_pair_from_str js) w (login_request c e p)),
     api_refresh = (\<lambda>w t. decode_json http js (token_pair_from_str js) w (refresh_request c t)),
     api_register_device = (\<lambda>w t r. decode_json http js (device_from_str js) w (register_request c t r)),
     api_initiate_pairing = (\<lambda>w t d. decode_json http js (challenge_from_str js) w (pairing_request c t d)),
     api_heartbeat = (\<lambda>w t d. expect_success http js w (heartbeat_request c t d)),
     api_pending_sessions = (\<lambda>w t d. decode_json http js (pending_from_str js) w (pending_request c t d)) \<rparr>"

section \<open>Enrollment\<close>

record credentials =
  email :: string
  password :: string

text \<open>The environment variables of the process; a variable that is not UTF-8 counts as unset.\<close>

type_synonym environment = "string \<Rightarrow> string option"

definition nonblank :: "string option \<Rightarrow> string option" where
  "nonblank v = (case v of Some s \<Rightarrow> if trim s \<noteq> [] then Some s else None | None \<Rightarrow> None)"

definition credentials_from_env :: "environment \<Rightarrow> credentials backend_result" where
  "credentials_from_env env = (case (nonblank (env ''DESKSYNC_EMAIL''), nonblank (env ''DESKSYNC_PASSWORD'')) of
     (Some e, Some p) \<Rightarrow> Ok \<lparr> email = e, password = p \<rparr>
   | _ \<Rightarrow> Err (Invalid ''set DESKSYNC_EMAIL and DESKSYNC_PASSWORD to enroll the agent''))"

record device_profile =
  profile_platform :: string
  profile_name :: string
  profile_public_key :: string

definition into_registration :: "device_profile \<Rightarrow> device_registration" where
  "into_registration p = \<lparr> reg_kind = ''desktop'', reg_platform = profile_platform p, reg_name = profile_name p,
     reg_public_key = profile_public_key p, reg_fcm_token = None \<rparr>"

record enrollment_outcome =
  out_tokens :: token_pair
  out_device_id :: string
  out_challenge :: pairing_challenge

definition enrollment_run :: "'w backend_api \<Rightarrow> credentials \<Rightarrow> device_profile \<Rightarrow> 'w \<Rightarrow> 'w \<times> enrollment_outcome backend_result" where
  "enrollment_run api creds profile w = (case api_login api w (email creds) (password creds) of
     (w1, Inl e) \<Rightarrow> (w1, Err e)
   | (w1, Inr tokens) \<Rightarrow> (case api_register_device api w1 (access_token tokens) (into_registration profile) of
       (w2, Inl e) \<Rightarrow> (w2, Err e)
     | (w2, Inr device) \<Rightarrow> (case api_initiate_pairing api w2 (access_token tokens) (dev_id device) of
         (w3, Inl e) \<Rightarrow> (w3, Err e)
       | (w3, Inr challenge) \<Rightarrow>
           (w3, Ok \<lparr> out_tokens = tokens, out_device_id = dev_id device, out_challenge = challenge \<rparr>))))"

section \<open>The host\<close>

definition detect_platform :: "string \<Rightarrow> string" where
  "detect_platform os = (if os \<in> {''macos'', ''windows'', ''ios'', ''android''} then os else ''linux'')"

definition or_else :: "'a option \<Rightarrow> 'a option \<Rightarrow> 'a option" where
  "or_else a b = (case a of None \<Rightarrow> b | Some _ \<Rightarrow> a)"

definition detect_device_name :: "environment \<Rightarrow> string" where
  "detect_device_name env =
    (let name = map_option trim (or_else (or_else (env ''DESKSYNC_DEVICE_NAME'') (env ''HOSTNAME'')) (env ''COMPUTERNAME''))
     in case name of Some s \<Rightarrow> if s \<noteq> [] then s else ''DeskSync Desktop'' | None \<Rightarrow> ''DeskSync Desktop'')"

section \<open>What the client answers\<close>

lemma api_error_Api: "\<exists>code msg. api_error js st body = Api st code msg \<and> code \<noteq> [] \<and> (body \<noteq> [] \<longrightarrow> msg \<noteq> [])"
  by (auto simp: api_error_def Let_def split: prod.splits)

lemma trim_end_slash_last: "trim_end_slash s = [] \<or> last (trim_end_slash s) \<noteq> CHR ''/''"
proof -
  let ?d = "dropWhile (\<lambda>c. c = CHR ''/'') (rev s)"
  have "?d = [] \<or> hd ?d \<noteq> CHR ''/''" by (metis (mono_tags) hd_dropWhile)
  then show ?thesis by (auto simp: trim_end_slash_def last_rev)
qed

lemma trim_end_slash_Nil [simp]: "trim_end_slash [] = []"
  by (simp add: trim_end_slash_def)

lemma trim_end_slash_idem: "trim_end_slash (trim_end_slash s) = trim_end_slash s"
  by (simp add: trim_end_slash_def dropWhile_idem)

text \<open>However many slashes end the configured address, there is one between it and the path of a request.\<close>

lemma one_slash:
  assumes "client_new http base = Ok c"
  shows "client_new http (base_url c) = Ok c \<and> (base_url c = [] \<or> last (base_url c) \<noteq> CHR ''/'')"
  using assms trim_end_slash_last [of base] by (auto simp: client_new_def trim_end_slash_idem split: sum.splits)

text \<open>
  Every answer of the server, and every failure to get one, has its own outcome. A request succeeds exactly when a
  2xx answer arrives and its body decodes; no answer, or an unreadable body, is an \<open>Http\<close> error; a 2xx body of the
  wrong form is a \<open>Decode\<close> error; every other status is an \<open>Api\<close> error that keeps the status, has a code, and has a
  message unless the body is empty. A request without a result succeeds on the status alone.
\<close>

theorem request_outcomes:
  "case http_send http w req of
     (w', Inl e) \<Rightarrow> decode_json http js dec w req = (w', Err (Http e)) \<and> expect_success http js w req = (w', Err (Http e))
   | (w', Inr resp) \<Rightarrow>
       fst (decode_json http js dec w req) = w' \<and> fst (expect_success http js w req) = w'
     \<and> (case (resp_text resp, is_success (resp_status resp)) of
          (Inl e, ok) \<Rightarrow> snd (decode_json http js dec w req) = Err (Http e)
            \<and> (if ok then snd (expect_success http js w req) = Ok ()
               else \<exists>code msg. snd (expect_success http js w req) = Err (Api (resp_status resp) code msg) \<and> code \<noteq> [])
        | (Inr body, True) \<Rightarrow> snd (expect_success http js w req) = Ok ()
            \<and> snd (decode_json http js dec w req) = (case dec body of Inl e \<Rightarrow> Err (Decode e) | Inr x \<Rightarrow> Ok x)
        | (Inr body, False) \<Rightarrow> (\<exists>code msg. snd (decode_json http js dec w req) = Err (Api (resp_status resp) code msg)
            \<and> snd (expect_success http js w req) = Err (Api (resp_status resp) code msg)
            \<and> code \<noteq> [] \<and> (if body = [] then True else msg \<noteq> [])))"
proof -
  have "\<exists>code msg. api_error js st [] = Api st code msg \<and> code \<noteq> []" for st
    using api_error_Api [of js st "[]"] by blast
  moreover have "\<exists>code msg. api_error js st body = Api st code msg \<and> code \<noteq> [] \<and> (if body = [] then True else msg \<noteq> [])" for st body
    using api_error_Api [of js st body] by (cases "body = []") auto
  ultimately show ?thesis
    unfolding decode_json_def expect_success_def
    by (auto simp del: if_bool_eq_conj split: prod.split sum.split bool.split) metis
qed

section \<open>The requests of an enrollment\<close>

text \<open>An HTTP library that also records the requests it is given.\<close>

definition traced :: "'w http_lib \<Rightarrow> ('w \<times> http_request list) http_lib" where
  "traced http = \<lparr> http_build = http_build http,
     http_send = (\<lambda>wl req. case http_send http (fst wl) req of (w', r) \<Rightarrow> ((w', snd wl @ [req]), r)) \<rparr>"

lemma decode_traced:
  "decode_json (traced http) js dec (w, log) req
     = (case decode_json http js dec w req of (w', r) \<Rightarrow> ((w', log @ [req]), r))"
  by (auto simp: decode_json_def traced_def split: prod.splits sum.splits)


text \<open>A server that accepts everything, and decoders that ignore the text.\<close>

definition sample_http :: "unit http_lib" where
  "sample_http = \<lparr> http_build = Ok (), http_send = (\<lambda>w req. (w, Ok \<lparr> resp_status = 200, resp_text = Ok [] \<rparr>)) \<rparr>"

definition sample_tokens :: token_pair where
  "sample_tokens = \<lparr> access_token = ''a'', refresh_token = ''r'', token_type = ''Bearer'', expires_in = 900 \<rparr>"

definition sample_decoders :: json_lib where
  "sample_decoders = \<lparr> token_pair_from_str = (\<lambda>s. Ok sample_tokens),
     device_from_str = (\<lambda>s. Ok \<lparr> dev_id = ''d'', dev_kind = [], dev_platform = [], dev_name = [], dev_status = [] \<rparr>),
     challenge_from_str = (\<lambda>s. Ok \<lparr> pairing_id = ''p'', qr_payload = [], manual_code = [], expires_at = [] \<rparr>),
     pending_from_str = (\<lambda>s. Ok []), envelope_from_str = (\<lambda>s. Err []) \<rparr>"


section \<open>What the host contributes\<close>

text \<open>
  What the agent reads from its environment is usable: credentials are only accepted when both variables hold more
  than white space, and are then taken unchanged; the platform is one the backend knows; the device name is never
  empty. A name variable that is set but blank does not fall back to the host name.
\<close>

theorem host_detection:
  "(case credentials_from_env env of
      Inr c \<Rightarrow> env ''DESKSYNC_EMAIL'' = Some (email c) \<and> env ''DESKSYNC_PASSWORD'' = Some (password c)
        \<and> trim (email c) \<noteq> [] \<and> trim (password c) \<noteq> []
    | Inl e \<Rightarrow> nonblank (env ''DESKSYNC_EMAIL'') = None \<or> nonblank (env ''DESKSYNC_PASSWORD'') = None)
   \<and> detect_platform os \<in> {''windows'', ''macos'', ''linux'', ''android'', ''ios''}
   \<and> detect_device_name env \<noteq> []
   \<and> detect_device_name (env(''DESKSYNC_DEVICE_NAME'' := Some '' '', ''HOSTNAME'' := Some h)) = ''DeskSync Desktop''"
proof -
  have "trim '' '' = []" by (simp add: str_eval)
  then have "detect_device_name (env(''DESKSYNC_DEVICE_NAME'' := Some '' '', ''HOSTNAME'' := Some h)) = ''DeskSync Desktop''"
    by (simp add: detect_device_name_def or_else_def)
  then show ?thesis
    by (auto simp: credentials_from_env_def nonblank_def detect_platform_def detect_device_name_def Let_def
        split: option.splits if_splits)
qed

end
