(* ===== verification/Frame.thy ===== *)
theory Frame
  imports Prelude Ieee
begin

text \<open>
  Frame geometry and pixel scaling (\<open>crates/capture/src/frame.rs\<close>, and the \<open>Frame\<close> and \<open>Monitor\<close> data of
  \<open>lib.rs\<close>). Dimensions are 32-bit words, the scale factor is computed in double precision, and the
  nearest-neighbour loop writes into a byte buffer; an index out of range panics, which is the value \<open>None\<close>.
\<close>

section \<open>Data\<close>

record monitor =
  monitor_id :: string
  monitor_name :: string
  monitor_width :: u32
  monitor_height :: u32
  primary :: bool

record frame =
  frame_width :: u32
  frame_height :: u32
  timestamp_us :: u64
  frame_data :: bytes

definition pixel_count :: "frame \<Rightarrow> nat" where
  "pixel_count f = unat (frame_width f) * unat (frame_height f)"

definition expected_len :: "frame \<Rightarrow> nat" where
  "expected_len f = pixel_count f * 4"

definition is_valid :: "frame \<Rightarrow> bool" where
  "is_valid f \<longleftrightarrow> length (frame_data f) = expected_len f"

section \<open>Output dimensions\<close>

definition make_even :: "u32 \<Rightarrow> u32" where
  "make_even v = max (Bit_Operations.and v (Bit_Operations.not 1)) 2"

definition fit_dimensions :: "u32 \<Rightarrow> u32 \<Rightarrow> u32 \<Rightarrow> u32 \<times> u32" where
  "fit_dimensions src_w src_h max_h =
    (if src_w = 0 \<or> src_h = 0 then (2, 2)
     else if src_h \<le> max_h then (make_even src_w, make_even src_h)
     else let scale = f_div f64 (Fin (of_nat (unat max_h))) (Fin (of_nat (unat src_h)));
              w = word_of_nat (as_u32 (f_round (f_mul f64 (Fin (of_nat (unat src_w))) scale)))
          in (make_even w, make_even max_h))"

section \<open>Nearest-neighbour scaling\<close>

text \<open>\<open>data[di..di+4].copy_from_slice(&src[si..si+4])\<close>.\<close>

definition copy_pixel :: "bytes \<Rightarrow> nat \<Rightarrow> nat \<Rightarrow> bytes \<Rightarrow> bytes option" where
  "copy_pixel src si di out =
    (if di + 4 \<le> length out \<and> si + 4 \<le> length src
     then Some (take di out @ take 4 (drop si src) @ drop (di + 4) out) else None)"

fun copy_row :: "bytes \<Rightarrow> nat \<Rightarrow> nat \<Rightarrow> nat \<Rightarrow> nat \<Rightarrow> nat list \<Rightarrow> bytes \<Rightarrow> bytes option" where
  "copy_row src sw sy dst_w dy [] out = Some out"
| "copy_row src sw sy dst_w dy (dx # dxs) out =
    (let sx = dx * sw div dst_w;
         si = (sy * sw + sx) * 4;
         di = (dy * dst_w + dx) * 4
     in Option.bind (copy_pixel src si di out) (copy_row src sw sy dst_w dy dxs))"

fun copy_rows :: "bytes \<Rightarrow> nat \<Rightarrow> nat \<Rightarrow> nat \<Rightarrow> nat \<Rightarrow> nat list \<Rightarrow> bytes \<Rightarrow> bytes option" where
  "copy_rows src sw sh dst_w dst_h [] out = Some out"
| "copy_rows src sw sh dst_w dst_h (dy # dys) out =
    (let sy = dy * sh div dst_h
     in Option.bind (copy_row src sw sy dst_w dy [0..<dst_w] out) (copy_rows src sw sh dst_w dst_h dys))"

definition scale_bgra_nearest :: "frame \<Rightarrow> u32 \<Rightarrow> u32 \<Rightarrow> frame option" where
  "scale_bgra_nearest src w h =
    (let dst_w = max w 1; dst_h = max h 1 in
     if frame_width src = dst_w \<and> frame_height src = dst_h then Some src
     else map_option (\<lambda>out. \<lparr> frame_width = dst_w, frame_height = dst_h, timestamp_us = timestamp_us src, frame_data = out \<rparr>)
       (copy_rows (frame_data src) (unat (frame_width src)) (unat (frame_height src)) (unat dst_w) (unat dst_h)
          [0..<unat dst_h] (replicate (unat dst_w * unat dst_h * 4) 0)))"

definition downscale_to_max_height :: "frame \<Rightarrow> u32 \<Rightarrow> frame option" where
  "downscale_to_max_height f max_h =
    (let (w, h) = fit_dimensions (frame_width f) (frame_height f) max_h in
     if w = frame_width f \<and> h = frame_height f then Some f else scale_bgra_nearest f w h)"

section \<open>Even dimensions\<close>

lemma unat_make_even: "unat (make_even v) = max (2 * (unat v div 2)) 2"
proof -
  have "Bit_Operations.and v (Bit_Operations.not 1) = v - v mod 2"
    using unset_bit_0 [of v] unset_bit_eq_and_not [of 0 v] by (simp add: minus_mod_eq_mult_div)
  moreover have "unat (v mod 2) = unat v mod 2" by (simp add: unat_mod)
  then have "unat (v - v mod 2) = unat v - unat v mod 2"
    by (metis mod_less_eq_dividend unat_sub word_le_nat_alt)
  ultimately have "unat (Bit_Operations.and v (Bit_Operations.not 1)) = 2 * (unat v div 2)"
    by (simp add: minus_mod_eq_mult_div)
  then show ?thesis by (simp add: make_even_def max_def word_le_nat_alt)
qed

lemma even_make_even: "even (unat (make_even v))" "2 \<le> unat (make_even v)"
  by (auto simp: unat_make_even max_def)

lemma make_even_le: "unat (make_even v) \<le> max (unat v) 2" "unat v \<le> Suc (unat (make_even v))"
  by (auto simp: unat_make_even max_def)

lemma make_even_nonzero: "make_even v \<noteq> 0"
  using even_make_even(2) [of v] by auto

lemma fit_dimensions_nonzero: "fst (fit_dimensions w h m) \<noteq> 0" "snd (fit_dimensions w h m) \<noteq> 0"
  by (auto simp: fit_dimensions_def Let_def make_even_nonzero)

section \<open>The scale factor\<close>

lemma rnd_near:
  assumes "1 / 2 ^ 64 \<le> x"
  shows "\<bar>rnd f64 x - x\<bar> \<le> x / 2 ^ 53"
proof -
  have "(2 :: rat) powi (- 1022) \<le> 2 powi (- 64)" by (rule powi_2_mono) simp
  also have "(2 :: rat) powi (- 64) = 1 / 2 ^ 64" by (simp add: power_int_minus_divide)
  finally have "2 powi (emin f64 + int (prec f64) - 1) \<le> x" using assms by (simp add: f64_def)
  from rnd_relative_error [OF this] show ?thesis by (simp add: f64_def)
qed

text \<open>The scaled width before it is made even: it does not exceed the source width and is off by at most 0.51.\<close>

definition scaled_width :: "nat \<Rightarrow> nat \<Rightarrow> nat \<Rightarrow> nat" where
  "scaled_width w h m = as_u32 (f_round (f_mul f64 (Fin (of_nat w)) (f_div f64 (Fin (of_nat m)) (Fin (of_nat h)))))"

lemma of_nat_u32: "n < 2 ^ 32 \<Longrightarrow> (of_nat n :: rat) < 2 ^ 32"
  by (metis of_nat_less_iff of_nat_numeral of_nat_power)

text \<open>Two roundings of binary64, of the scale and of the product, cost less than a hundredth of a pixel.\<close>

lemma scale_error:
  fixes q W s r :: rat
  assumes q32: "1 / 2 ^ 32 \<le> q" and q: "q < 1" and W: "1 \<le> W" "W < 2 ^ 32"
    and s: "s = rnd f64 q" and r: "r = rnd f64 (W * s)" and Ws: "W * s \<le> W"
  shows "\<bar>r - W * q\<bar> \<le> 1 / 100"
proof -
  have q0: "0 \<le> q" by (rule order_trans [OF _ q32]) simp
  have sq: "\<bar>s - q\<bar> \<le> q / 2 ^ 53" using q32 unfolding s by (intro rnd_near) simp
  have "1 / 2 ^ 33 = (1 / 2 ^ 32) / (2 :: rat)" "q / 2 ^ 53 \<le> q / 2"
    using q q0 by (simp_all add: divide_left_mono)
  moreover have "a = b / 2 \<Longrightarrow> d \<le> q / 2 \<Longrightarrow> \<bar>s - q\<bar> \<le> d \<Longrightarrow> b \<le> q \<Longrightarrow> a \<le> s" for a b d :: rat by linarith
  ultimately have s33: "1 / 2 ^ 33 \<le> s" using sq q32 by blast
  then have "1 * (1 / 2 ^ 33) \<le> W * s" using W by (intro mult_mono) auto
  then have "1 / 2 ^ 64 \<le> W * s" by simp
  from rnd_near [OF this] have "\<bar>r - W * s\<bar> \<le> W * s / 2 ^ 53" using r by simp
  moreover have "W * s / 2 ^ 53 \<le> 2 ^ 32 / 2 ^ 53" using Ws W(2) by (intro divide_right_mono) auto
  moreover have "\<bar>W * s - W * q\<bar> \<le> 2 ^ 32 / 2 ^ 53"
  proof -
    have "\<bar>W * s - W * q\<bar> = W * \<bar>s - q\<bar>" using W by (simp add: abs_mult flip: right_diff_distrib)
    also have "\<dots> \<le> 2 ^ 32 * (1 / 2 ^ 53)"
    proof (rule mult_mono)
      have "q / 2 ^ 53 \<le> 1 / 2 ^ 53" using q by (intro divide_right_mono) auto
      with sq show "\<bar>s - q\<bar> \<le> 1 / 2 ^ 53" by linarith
    qed (use W in auto)
    finally show ?thesis by simp
  qed
  moreover have "x + y \<le> 1 / 100 \<Longrightarrow> a \<le> z \<Longrightarrow> z \<le> x \<Longrightarrow> b \<le> y \<Longrightarrow> a + b \<le> 1 / 100" for a b x y z :: rat by linarith
  moreover have "2 ^ 32 / 2 ^ 53 + 2 ^ 32 / 2 ^ 53 \<le> (1 / 100 :: rat)" by simp
  ultimately have "\<bar>r - W * s\<bar> + \<bar>W * s - W * q\<bar> \<le> 1 / 100" by blast
  then show ?thesis using abs_triangle_ineq4 [of "r - W * s" "W * q - W * s"] by linarith
qed

lemma scaled_width_eq:
  assumes "m < h" "0 < w" "w < 2 ^ 32" "h < 2 ^ 32"
  shows "\<exists>r. scaled_width w h m = nat (round_away r) \<and> 0 \<le> r \<and> r \<le> of_nat w
    \<and> \<bar>r - of_nat w * (of_nat m / of_nat h)\<bar> \<le> 1 / 100"
proof -
  define W :: rat where "W = of_nat w"
  define q :: rat where "q = of_nat m / of_nat h"
  have q: "0 \<le> q" "q < 1" using assms(1) by (auto simp: q_def divide_less_eq)
  have W: "0 < W" "1 \<le> W" "W < 2 ^ 32" using assms(2) of_nat_u32 [OF assms(3)] by (auto simp: W_def)
  obtain s where s: "fround f64 q = Fin s" "s = rnd f64 q" "0 \<le> s" "s \<le> 1"
  proof -
    have "1 \<le> fmax f64" by (simp add: f64_def)
    then show ?thesis using that fround_bounds [of q 1 f64] q by (metis less_imp_le prec_pos(2) representable_1(2))
  qed
  have W1: "representable f64 W" unfolding W_def using assms(3) by (rule representable_u32)
  have Ws: "0 \<le> W * s" "W * s \<le> W" using s W mult_left_le [of s W] by auto
  have big: "W \<le> fmax f64" using W(3) by (simp add: f64_def)
  obtain r where r: "fround f64 (W * s) = Fin r" "r = rnd f64 (W * s)" "0 \<le> r" "r \<le> W"
    using fround_bounds [OF Ws W1 _ big] by auto
  have "scaled_width w h m = as_u32 (Fin (of_int (round_away r)))"
    using s(1) r(1) assms(1) by (simp add: scaled_width_def W_def q_def)
  also have "\<dots> = nat (round_away r)"
  proof -
    have "round_away r \<le> int w" using r(4) by (intro round_away_le) (simp_all add: W_def)
    moreover have "int w < 2 ^ 32" using assms(3) by simp
    ultimately show ?thesis using trunc_rat_of_int [of "round_away r"] by simp
  qed
  finally have sw: "scaled_width w h m = nat (round_away r)" .
  have "\<bar>r - W * q\<bar> \<le> 1 / 100"
  proof (cases "m = 0")
    case True
    then have "q = 0" by (simp add: q_def)
    moreover then have "s = 0" using s(2) by (simp add: rnd_def)
    ultimately show ?thesis using r(2) by (simp add: rnd_def)
  next
    case False
    have H: "(of_nat h :: rat) < 2 ^ 32" using assms(4) by (rule of_nat_u32)
    have "1 / 2 ^ 32 \<le> 1 / (of_nat h :: rat)" using H assms(1) by (intro divide_left_mono) auto
    also have "\<dots> \<le> q" unfolding q_def using False by (intro divide_right_mono) auto
    finally have q32: "1 / 2 ^ 32 \<le> q" .
    show ?thesis by (rule scale_error [OF q32 q(2) W(2,3) s(2) r(2) Ws(2)])
  qed
  with sw r show ?thesis unfolding W_def q_def by blast
qed

lemma fit_scaled:
  "\<not> h \<le> m \<Longrightarrow> w \<noteq> 0 \<Longrightarrow> h \<noteq> 0 \<Longrightarrow>
   fit_dimensions w h m = (make_even (word_of_nat (scaled_width (unat w) (unat h) (unat m))), make_even m)"
  by (simp add: fit_dimensions_def scaled_width_def Let_def)

text \<open>Evenness costs at most one more pixel, or raises the width to the floor.\<close>

lemma even_width_near:
  assumes "0 \<le> r" and "\<bar>of_nat x - r\<bar> \<le> 1 / 2" and "x' = max (2 * (x div 2)) 2" and "\<bar>r - t\<bar> \<le> 1 / 100" and "0 \<le> t"
  shows "\<bar>(of_nat x' :: rat) - t\<bar> \<le> 2"
proof (cases "x < 2")
  case True
  then have "x' = 2" using assms(3) by (auto simp: less_2_cases_iff)
  moreover have "(of_nat x :: rat) \<le> 1" using True by (auto simp: less_Suc_eq numeral_2_eq_2)
  ultimately have "rat_of_nat x' = 2" "\<bar>rat_of_nat x - r\<bar> \<le> 1 / 2" "rat_of_nat x \<le> 1" using assms(2) by simp_all
  then show ?thesis using assms(4,5) by linarith
next
  case False
  then have "x' \<le> x" "x \<le> x' + 1" using assms(3) by auto
  then have "(of_nat x' :: rat) \<le> of_nat x" "(of_nat x :: rat) \<le> of_nat (x' + 1)" by (simp_all only: of_nat_le_iff)
  then have "rat_of_nat x' \<le> rat_of_nat x" "rat_of_nat x \<le> rat_of_nat x' + 1" by simp_all
  then show ?thesis using assms(2,4) by linarith
qed

lemma round_away_near: "0 \<le> x \<Longrightarrow> \<bar>of_int (round_away x) - x\<bar> \<le> 1 / 2"
proof -
  assume "0 \<le> x"
  then have "round_away x = \<lfloor>x + 1 / 2\<rfloor>" by (simp add: round_away_def)
  with floor_correct [of "x + 1 / 2"] show ?thesis by (simp only:) linarith
qed

text \<open>
  The output dimensions of a frame are even and at least two; the height does not exceed the configured
  maximum and neither dimension exceeds the source, up to the floor of two pixels; and the aspect ratio is
  preserved: the width differs from the exactly scaled one by at most two pixels.
\<close>

theorem fit_dimensions_bounds:
  assumes "fit_dimensions w h m = (w', h')" and "w \<noteq> 0" and "h \<noteq> 0"
  shows "even (unat w') \<and> even (unat h') \<and> 2 \<le> unat w' \<and> 2 \<le> unat h'
    \<and> unat h' \<le> max (unat m) 2 \<and> unat h' \<le> max (unat h) 2 \<and> unat w' \<le> max (unat w) 2
    \<and> \<bar>rat_of_nat (unat w') - rat_of_nat (unat w) * (rat_of_nat (min (unat m) (unat h)) / rat_of_nat (unat h))\<bar> \<le> 2"
proof -
  obtain a b c where abc: "unat w = a" "unat h = b" "unat m = c" by blast
  have ab: "0 < a" "0 < b" "a < 2 ^ 32" "b < 2 ^ 32"
    using assms(2,3) unsigned_less [of w] unsigned_less [of h] abc by (auto simp: unat_gt_0)
  show ?thesis
  proof (cases "h \<le> m")
    case True
    then have e: "w' = make_even w" "h' = make_even h" using assms by (auto simp: fit_dimensions_def)
    have hm: "b \<le> c" using True abc by (simp add: word_le_nat_alt)
    obtain a' where a': "unat w' = a'" "a' = max (2 * (a div 2)) 2" using e(1) abc by (simp add: unat_make_even)
    have "\<bar>rat_of_nat a' - rat_of_nat a\<bar> \<le> 2"
      by (rule even_width_near [of "rat_of_nat a" a]) (use a' in auto)
    moreover have "min c b = b" using hm by simp
    ultimately have "\<bar>rat_of_nat a' - rat_of_nat a * (rat_of_nat (min c b) / rat_of_nat b)\<bar> \<le> 2"
      using ab(2) by simp
    moreover have "a' \<le> max a 2" "even a'" "2 \<le> a'" using a'(2) by (auto simp: max_def)
    moreover have "unat h' = max (2 * (b div 2)) 2" using e(2) abc by (simp add: unat_make_even)
    then have "even (unat h') \<and> 2 \<le> unat h' \<and> unat h' \<le> max c 2 \<and> unat h' \<le> max b 2" using hm by (auto simp: max_def)
    ultimately show ?thesis unfolding abc a'(1) by simp
  next
    case False
    then have cb: "c < b" using abc by (simp add: word_le_nat_alt)
    define x where "x = scaled_width a b c"
    have e: "w' = make_even (word_of_nat x)" "h' = make_even m"
      using assms(1) fit_scaled [OF False assms(2,3)] abc by (simp_all add: x_def)
    obtain r where r: "x = nat (round_away r)" "0 \<le> r" "r \<le> of_nat a" "\<bar>r - of_nat a * (of_nat c / of_nat b)\<bar> \<le> 1 / 100"
      using scaled_width_eq [OF cb ab(1,3,4)] unfolding x_def by blast
    have "round_away r \<le> int a" using r(3) by (intro round_away_le) auto
    then have xa: "x \<le> a" using r(1) by simp
    then have ux: "unat (word_of_nat x :: u32) = x" using ab(3) by (simp add: unat_of_nat)
    have xr: "\<bar>of_nat x - r\<bar> \<le> 1 / 2"
      using round_away_near [OF r(2)] round_away_nonneg [OF r(2)] r(1) by simp
    obtain a' where a': "unat w' = a'" "a' = max (2 * (x div 2)) 2" using e(1) ux by (simp add: unat_make_even)
    have "\<bar>rat_of_nat a' - rat_of_nat a * (rat_of_nat c / rat_of_nat b)\<bar> \<le> 2"
      by (rule even_width_near [OF r(2) xr a'(2) r(4)]) simp
    moreover have "min c b = c" using cb by simp
    moreover have "a' \<le> max a 2" using a'(2) xa by auto
    moreover have "even a'" "2 \<le> a'" using a'(2) by (auto simp: max_def)
    moreover have "unat h' = max (2 * (c div 2)) 2" using e(2) abc by (simp add: unat_make_even)
    then have "even (unat h') \<and> 2 \<le> unat h' \<and> unat h' \<le> max c 2 \<and> unat h' \<le> max b 2" using cb by (auto simp: max_def)
    ultimately show ?thesis unfolding abc a'(1) by simp
  qed
qed

theorem fit_dimensions_bounds_witness:
  "even (unat (fst (fit_dimensions 1281 721 1080))) \<and> unat (snd (fit_dimensions 1281 721 1080)) \<le> 1080"
proof -
  obtain w' h' where f: "fit_dimensions 1281 721 1080 = (w', h')" by (cases "fit_dimensions 1281 721 1080")
  show ?thesis using fit_dimensions_bounds [OF f] f by simp
qed

section \<open>Correctness of the scaling loop\<close>

text \<open>The four bytes of the pixel at column \<open>x\<close> of row \<open>y\<close>.\<close>

definition pixel :: "bytes \<Rightarrow> nat \<Rightarrow> nat \<Rightarrow> nat \<Rightarrow> bytes" where
  "pixel src w x y = take 4 (drop ((y * w + x) * 4) src)"

lemma copy_pixel_next:
  assumes "length A = di" and "si + 4 \<le> length src"
  shows "copy_pixel src si di (A @ replicate (4 * Suc r) 0) = Some ((A @ take 4 (drop si src)) @ replicate (4 * r) 0)"
proof -
  have "replicate (4 * Suc r) (0 :: u8) = replicate 4 0 @ replicate (4 * r) 0"
    by (metis mult_Suc_right replicate_add)
  with assms show ?thesis by (simp add: copy_pixel_def)
qed

lemma pixel_in_range: "y < h \<Longrightarrow> x < w \<Longrightarrow> (y * w + x) * 4 + 4 \<le> w * h * (4 :: nat)"
proof -
  assume y: "y < h" and x: "x < w"
  then have "y * w + x + 1 \<le> y * w + w" by simp
  also have "\<dots> = Suc y * w" by simp
  also have "\<dots> \<le> h * w" using y by (intro mult_le_mono1) simp
  finally have "(y * w + x + 1) * 4 \<le> h * w * 4" by (rule mult_le_mono1)
  then show ?thesis by (simp add: algebra_simps)
qed

lemma scaled_index: "0 < d \<Longrightarrow> i < d \<Longrightarrow> 0 < n \<Longrightarrow> i * n div d < (n :: nat)"
  by (simp add: div_less_iff_less_mult mult.commute)

lemma copy_row_run:
  assumes "length src = sw * sh * 4" "sy < sh" "0 < sw" "dx \<le> dw" "length A = (dy * dw + dx) * 4"
  shows "copy_row src sw sy dw dy [dx..<dw] (A @ replicate (4 * (r + (dw - dx))) 0)
    = Some (A @ concat (map (\<lambda>x. pixel src sw (x * sw div dw) sy) [dx..<dw]) @ replicate (4 * r) 0)"
  using assms
proof (induction "dw - dx" arbitrary: dx A)
  case 0
  then show ?case by simp
next
  case (Suc k)
  then have dx: "dx < dw" by simp
  let ?si = "(sy * sw + dx * sw div dw) * 4"
  let ?A = "A @ take 4 (drop ?si src)"
  have si: "?si + 4 \<le> length src"
    using pixel_in_range [OF Suc.prems(2) scaled_index [of dw dx sw]] Suc.prems(1,3) dx by simp
  have e: "4 * (r + (dw - dx)) = 4 * Suc (r + (dw - Suc dx))" using dx by simp
  have "copy_row src sw sy dw dy [Suc dx..<dw] (?A @ replicate (4 * (r + (dw - Suc dx))) 0)
    = Some (?A @ concat (map (\<lambda>x. pixel src sw (x * sw div dw) sy) [Suc dx..<dw]) @ replicate (4 * r) 0)"
    using Suc.hyps(2) Suc.prems si by (intro Suc.hyps(1)) auto
  then show ?case
    using copy_pixel_next [OF Suc.prems(5) si] unfolding e
    by (simp add: upt_conv_Cons [OF dx] pixel_def Let_def del: replicate.simps mult_Suc_right)
qed

definition scaled_row :: "bytes \<Rightarrow> nat \<Rightarrow> nat \<Rightarrow> nat \<Rightarrow> bytes" where
  "scaled_row src sw dw sy = concat (map (\<lambda>x. pixel src sw (x * sw div dw) sy) [0..<dw])"

lemma length_concat_uniform: "\<forall>x \<in> set xs. length (f x) = k \<Longrightarrow> length (concat (map f xs)) = length xs * k"
  by (induction xs) auto

lemma length_pixel: "length src = sw * sh * 4 \<Longrightarrow> y < sh \<Longrightarrow> x < sw \<Longrightarrow> length (pixel src sw x y) = 4"
  using pixel_in_range [of y sh x sw] by (simp add: pixel_def)

lemma length_scaled_row:
  "length src = sw * sh * 4 \<Longrightarrow> sy < sh \<Longrightarrow> 0 < sw \<Longrightarrow> length (scaled_row src sw dw sy) = dw * 4"
  unfolding scaled_row_def
  by (subst length_concat_uniform [where k = 4]) (auto intro!: length_pixel scaled_index)

lemma copy_rows_run:
  assumes "length src = sw * sh * 4" "0 < sw" "0 < sh" "dy \<le> dh" "length A = dy * dw * 4"
  shows "copy_rows src sw sh dw dh [dy..<dh] (A @ replicate (4 * ((dh - dy) * dw)) 0)
    = Some (A @ concat (map (\<lambda>y. scaled_row src sw dw (y * sh div dh)) [dy..<dh]))"
  using assms
proof (induction "dh - dy" arbitrary: dy A)
  case 0
  then show ?case by simp
next
  case (Suc k)
  then have dy: "dy < dh" by simp
  have sy: "dy * sh div dh < sh" using dy Suc.prems(3) by (intro scaled_index) auto
  have e: "4 * ((dh - dy) * dw) = 4 * ((dh - Suc dy) * dw + (dw - 0))"
    using dy by (metis Suc_diff_Suc add.commute diff_zero mult_Suc)
  have A: "length A = (dy * dw + 0) * 4" using Suc.prems(5) by simp
  have row: "copy_row src sw (dy * sh div dh) dw dy [0..<dw] (A @ replicate (4 * ((dh - dy) * dw)) 0)
      = Some ((A @ scaled_row src sw dw (dy * sh div dh)) @ replicate (4 * ((dh - Suc dy) * dw)) 0)"
    unfolding e using copy_row_run [OF Suc.prems(1) sy Suc.prems(2) _ A, of "(dh - Suc dy) * dw"]
    by (simp add: scaled_row_def)
  have "copy_rows src sw sh dw dh [Suc dy..<dh] ((A @ scaled_row src sw dw (dy * sh div dh)) @ replicate (4 * ((dh - Suc dy) * dw)) 0)
    = Some ((A @ scaled_row src sw dw (dy * sh div dh)) @ concat (map (\<lambda>y. scaled_row src sw dw (y * sh div dh)) [Suc dy..<dh]))"
    using Suc.hyps(2) Suc.prems dy length_scaled_row [OF Suc.prems(1) sy Suc.prems(2), of dw] by (intro Suc.hyps(1)) auto
  then show ?case using row by (simp add: upt_conv_Cons [OF dy] Let_def)
qed

lemma take_drop_concat_uniform:
  "\<forall>x \<in> set xs. length (f x) = k \<Longrightarrow> i < length xs \<Longrightarrow> take k (drop (i * k) (concat (map f xs))) = f (xs ! i)"
proof (induction xs arbitrary: i)
  case (Cons x xs)
  then show ?case by (cases i) auto
qed simp

lemma take_drop_take: "k + m \<le> n \<Longrightarrow> take m (drop k (take n xs)) = take m (drop k xs)"
  by (simp add: drop_take min_absorb1)

lemma pixel_of_rows:
  assumes "length src = sw * sh * 4" "0 < sw" "0 < sh" "x < dw" "y < dh"
  shows "pixel (concat (map (\<lambda>y. scaled_row src sw dw (y * sh div dh)) [0..<dh])) dw x y
    = pixel src sw (x * sw div dw) (y * sh div dh)"
proof -
  let ?row = "\<lambda>y. scaled_row src sw dw (y * sh div dh)"
  have l: "\<forall>y \<in> set [0..<dh]. length (?row y) = dw * 4"
    using assms by (auto intro!: length_scaled_row scaled_index)
  have sy: "y * sh div dh < sh" using assms by (intro scaled_index) auto
  have "pixel (concat (map ?row [0..<dh])) dw x y = take 4 (drop (x * 4) (drop (y * (dw * 4)) (concat (map ?row [0..<dh]))))"
    by (simp add: pixel_def algebra_simps)
  also have "\<dots> = take 4 (drop (x * 4) (take (dw * 4) (drop (y * (dw * 4)) (concat (map ?row [0..<dh])))))"
    using assms(4) by (subst take_drop_take) auto
  also have "\<dots> = take 4 (drop (x * 4) (?row y))"
    using take_drop_concat_uniform [OF l, of y] assms(5) by simp
  also have "\<dots> = pixel src sw (x * sw div dw) (y * sh div dh)"
    unfolding scaled_row_def using assms sy
    by (subst take_drop_concat_uniform) (auto intro!: length_pixel scaled_index)
  finally show ?thesis .
qed

lemma scale_valid:
  assumes "is_valid f" "frame_width f \<noteq> 0" "frame_height f \<noteq> 0" "w \<noteq> 0" "h \<noteq> 0"
    and "\<not> (frame_width f = w \<and> frame_height f = h)"
  shows "scale_bgra_nearest f w h = Some \<lparr> frame_width = w, frame_height = h, timestamp_us = timestamp_us f,
    frame_data = concat (map (\<lambda>y. scaled_row (frame_data f) (unat (frame_width f)) (unat w)
      (y * unat (frame_height f) div unat h)) [0..<unat h]) \<rparr>"
proof -
  have m: "max w 1 = w" "max h 1 = h"
    using assms(4,5) by (simp_all add: max.absorb1 word_le_nat_alt unat_gt_0 Suc_le_eq)
  have l: "length (frame_data f) = unat (frame_width f) * unat (frame_height f) * 4"
    using assms(1) by (simp add: is_valid_def expected_len_def pixel_count_def)
  have p: "0 < unat (frame_width f)" "0 < unat (frame_height f)" using assms(2,3) by (simp_all add: unat_gt_0)
  have n: "unat w * unat h * 4 = 4 * (unat h * unat w)" by (simp add: mult.commute)
  show ?thesis
    using copy_rows_run [OF l p, of 0 "unat h" "[]" "unat w"] assms(6) unfolding scale_bgra_nearest_def
    by (auto simp: m n simp del: replicate.simps)
qed

text \<open>Downscaling in closed form.\<close>

definition rows_of :: "frame \<Rightarrow> u32 \<Rightarrow> u32 \<Rightarrow> bytes" where
  "rows_of f w h = concat (map (\<lambda>y. scaled_row (frame_data f) (unat (frame_width f)) (unat w)
     (y * unat (frame_height f) div unat h)) [0..<unat h])"

lemma downscale_explicit:
  assumes "is_valid f" and "frame_width f \<noteq> 0" and "frame_height f \<noteq> 0"
    and fit: "fit_dimensions (frame_width f) (frame_height f) m = (w, h)"
  defines "g \<equiv> if frame_width f = w \<and> frame_height f = h then f
    else \<lparr> frame_width = w, frame_height = h, timestamp_us = timestamp_us f, frame_data = rows_of f w h \<rparr>"
  shows "downscale_to_max_height f m = Some g" and "is_valid g"
proof -
  have nz: "w \<noteq> 0" "h \<noteq> 0"
    using fit_dimensions_nonzero [of "frame_width f"] fit by (metis fst_conv snd_conv)+
  have l: "length (frame_data f) = unat (frame_width f) * unat (frame_height f) * 4"
    using assms(1) by (simp add: is_valid_def expected_len_def pixel_count_def)
  have p: "0 < unat (frame_width f)" "0 < unat (frame_height f)" using assms(2,3) by (simp_all add: unat_gt_0)
  show "downscale_to_max_height f m = Some g"
    using scale_valid [OF assms(1-3) nz] fit by (auto simp: downscale_to_max_height_def g_def rows_of_def)
  have "length (rows_of f w h) = unat h * (unat w * 4)"
    unfolding rows_of_def
    by (subst length_concat_uniform [where k = "unat w * 4"])
       (auto intro!: length_scaled_row [OF l] scaled_index p)
  then show "is_valid g" using assms(1) by (auto simp: g_def is_valid_def expected_len_def pixel_count_def)
qed

lemma fit_height: "unat (snd (fit_dimensions w h m)) \<le> max (unat m) 2"
  using make_even_le(1) [of h] make_even_le(1) [of m]
  by (auto simp: fit_dimensions_def Let_def word_le_nat_alt max_def split: if_splits)

lemma downscale_proper:
  assumes "is_valid f" and "frame_width f \<noteq> 0" and "frame_height f \<noteq> 0"
  shows "\<exists>g. downscale_to_max_height f m = Some g \<and> is_valid g \<and> unat (frame_height g) \<le> max (unat m) 2"
proof -
  obtain w h where fit: "fit_dimensions (frame_width f) (frame_height f) m = (w, h)"
    by (cases "fit_dimensions (frame_width f) (frame_height f) m")
  have "unat h \<le> max (unat m) 2" using fit_height [of "frame_width f" "frame_height f" m] fit by simp
  then show ?thesis using downscale_explicit [OF assms fit] by (auto split: if_splits)
qed

text \<open>The frames the encoder can take: complete, with even dimensions of at least two pixels.\<close>

definition well_formed :: "frame \<Rightarrow> bool" where
  "well_formed g \<longleftrightarrow> is_valid g \<and> even (unat (frame_width g)) \<and> even (unat (frame_height g))
     \<and> 2 \<le> unat (frame_width g) \<and> 2 \<le> unat (frame_height g)"

lemma fit_dimensions_even:
  assumes "fit_dimensions w h m = (w', h')"
  shows "even (unat w') \<and> even (unat h') \<and> 2 \<le> unat w' \<and> 2 \<le> unat h'"
  using assms even_make_even by (auto simp: fit_dimensions_def Let_def split: if_splits)

lemma empty_frame_not_scaled:
  assumes "is_valid f" and "frame_width f = 0 \<or> frame_height f = 0"
  shows "downscale_to_max_height f m = None"
proof -
  have "fit_dimensions (frame_width f) (frame_height f) m = (2, 2)" using assms(2) by (auto simp: fit_dimensions_def)
  moreover have "max 2 1 = (2 :: u32)" by (simp add: max_def word_le_nat_alt)
  moreover have "frame_data f = []" using assms by (auto simp: is_valid_def expected_len_def pixel_count_def)
  ultimately show ?thesis using assms(2)
    by (auto simp: downscale_to_max_height_def scale_bgra_nearest_def Let_def copy_pixel_def upt_rec [of 0 2])
qed

lemma downscaled_well_formed:
  assumes "is_valid f" and "downscale_to_max_height f m = Some g"
  shows "well_formed g \<and> unat (frame_height g) \<le> max (unat m) 2"
proof -
  have nz: "frame_width f \<noteq> 0" "frame_height f \<noteq> 0" using empty_frame_not_scaled [OF assms(1), of m] assms(2) by auto
  obtain w h where fit: "fit_dimensions (frame_width f) (frame_height f) m = (w, h)"
    by (cases "fit_dimensions (frame_width f) (frame_height f) m")
  have "frame_width g = w \<and> frame_height g = h \<and> is_valid g"
    using downscale_explicit [OF assms(1) nz fit] assms(2) by (auto split: if_splits)
  then show ?thesis using fit_dimensions_even [OF fit] fit_height [of "frame_width f" "frame_height f" m] fit
    by (simp add: well_formed_def)
qed


definition sample_frame :: frame where
  "sample_frame = \<lparr> frame_width = 1, frame_height = 1, timestamp_us = 7, frame_data = [10, 20, 30, 255] \<rparr>"


text \<open>
  The bounds have two exceptions in the code: a maximum height below two still yields two rows, and a source
  one pixel high is enlarged to two. A frame without pixels gets dimensions but has no pixel to copy, so that
  downscaling it panics.
\<close>

theorem small_frames:
  "snd (fit_dimensions 100 100 1) = 2
   \<and> map_option frame_height (downscale_to_max_height sample_frame 100) = Some 2
   \<and> downscale_to_max_height \<lparr> frame_width = 0, frame_height = 0, timestamp_us = 0, frame_data = [] \<rparr> m = None"
proof -
  have e: "make_even 1 = (2 :: u32)" by (simp add: make_even_def)
  have 1: "snd (fit_dimensions 100 100 1) = 2" by (simp add: fit_dimensions_def Let_def e word_le_nat_alt)
  have v: "is_valid sample_frame" "frame_width sample_frame \<noteq> 0" "frame_height sample_frame \<noteq> 0"
    by (simp_all add: sample_frame_def is_valid_def expected_len_def pixel_count_def)
  have "fit_dimensions 1 1 100 = (2, 2)" by (simp add: fit_dimensions_def e)
  then have "downscale_to_max_height sample_frame 100 = scale_bgra_nearest sample_frame 2 2"
    by (simp add: downscale_to_max_height_def sample_frame_def)
  then have 2: "map_option frame_height (downscale_to_max_height sample_frame 100) = Some 2"
    using scale_valid [OF v, of 2 2] by (simp add: sample_frame_def)
  have "fit_dimensions 0 0 m = (2, 2)" by (simp add: fit_dimensions_def)
  moreover have "max 2 1 = (2 :: u32)" by (simp add: max_def word_le_nat_alt)
  ultimately have 3: "downscale_to_max_height \<lparr> frame_width = 0, frame_height = 0, timestamp_us = 0, frame_data = [] \<rparr> m = None"
    by (simp add: downscale_to_max_height_def scale_bgra_nearest_def Let_def copy_pixel_def upt_rec [of 0 2])
  from 1 2 3 show ?thesis by simp
qed

end
