(* ===== verification/Utf8.thy ===== *)
theory Utf8
  imports Rust_Str
begin

text \<open>
  UTF-8 facts the byte-level code relies on: valid strings are the concatenations of well-formed characters,
  cutting a valid string at a character boundary keeps it valid, the search for a boundary below an index
  moves by at most three bytes, and the lossy decoding of the standard library (\<open>String::from_utf8_lossy\<close>)
  always yields a valid string and is the identity on valid ones.
\<close>

section \<open>Concatenations of well-formed characters\<close>

lemma wf_char_cases:
  assumes "wf_char c"
  obtains (one) a where "c = [a]" "byte a < 0x80"
  | (two) a b where "c = [a, b]" "0xC2 \<le> byte a" "byte a < 0xE0" "is_cont b"
  | (three) a b d where "c = [a, b, d]" "0xE0 \<le> byte a" "byte a < 0xF0" "is_cont b" "is_cont d"
  | (four) a b d e where "c = [a, b, d, e]" "0xF0 \<le> byte a" "byte a < 0xF5" "is_cont b" "is_cont d" "is_cont e"
  using assms by (cases c rule: wf_char.cases) auto

lemma wf_char_not_Nil [simp]: "\<not> wf_char []"
  by simp

lemma utf8_chars_wf: "wf_char c \<Longrightarrow> utf8_chars (c @ s) = c # utf8_chars s"
  by (elim wf_char_cases) (simp_all add: trail_len_def numeral_eq_Suc)

lemma utf8_chars_concat: "list_all wf_char cs \<Longrightarrow> utf8_chars (concat cs) = cs"
  by (induction cs) (auto simp: utf8_chars_wf)

lemma valid_utf8_iff: "valid_utf8 s \<longleftrightarrow> (\<exists>cs. s = concat cs \<and> list_all wf_char cs)"
  by (metis concat_utf8_chars utf8_chars_concat valid_utf8_def)

lemma valid_utf8_append: "valid_utf8 s \<Longrightarrow> valid_utf8 t \<Longrightarrow> valid_utf8 (s @ t)"
  unfolding valid_utf8_iff by (metis concat_append list_all_append)

lemma wf_char_tail_cont: "wf_char c \<Longrightarrow> i < length c \<Longrightarrow> 0 < i \<Longrightarrow> is_cont (c ! i)"
  by (elim wf_char_cases) (auto simp: nth_Cons' less_Suc_eq)

lemma wf_char_length: "wf_char c \<Longrightarrow> 0 < length c \<and> length c \<le> 4"
  by (elim wf_char_cases) auto

lemma wf_char_head_not_cont: "wf_char c \<Longrightarrow> \<not> is_cont (c ! 0)"
  by (elim wf_char_cases) (auto simp: is_cont_def)

section \<open>Cutting at a boundary\<close>

text \<open>The loop that lowers an index until it is a character boundary.\<close>

fun floor_boundary :: "string \<Rightarrow> nat \<Rightarrow> nat" where
  "floor_boundary s i = (if i > 0 \<and> \<not> is_char_boundary s i then floor_boundary s (i - 1) else i)"

declare floor_boundary.simps [simp del]

lemma floor_boundary_le: "floor_boundary s i \<le> i"
proof (induction i)
  case (Suc i)
  then show ?case by (subst floor_boundary.simps) auto
qed (subst floor_boundary.simps, simp)

lemma floor_boundary_is_boundary: "is_char_boundary s (floor_boundary s i)"
proof (induction i)
  case 0
  show ?case by (subst floor_boundary.simps) (simp add: is_char_boundary_def)
next
  case (Suc i)
  then show ?case by (subst floor_boundary.simps) auto
qed

lemma floor_boundary_greatest: "is_char_boundary s j \<Longrightarrow> j \<le> i \<Longrightarrow> j \<le> floor_boundary s i"
proof (induction i)
  case 0
  then show ?case by simp
next
  case (Suc i)
  then show ?case by (subst floor_boundary.simps) (auto simp: le_Suc_eq)
qed

lemma take_concat_boundary:
  "list_all wf_char cs \<Longrightarrow> i \<le> length (concat cs) \<Longrightarrow> is_char_boundary (concat cs) i
     \<Longrightarrow> valid_utf8 (take i (concat cs))"
proof (induction cs arbitrary: i)
  case Nil
  then show ?case by (simp add: valid_utf8_def)
next
  case (Cons c cs)
  show ?case
  proof (cases "i < length c")
    case True
    have "i = 0"
    proof (rule ccontr)
      assume "i \<noteq> 0"
      with True Cons.prems have "is_cont (c ! i)" by (simp add: wf_char_tail_cont)
      moreover have "(concat (c # cs)) ! i = c ! i" using True by (simp add: nth_append)
      ultimately show False using Cons.prems(3) True \<open>i \<noteq> 0\<close>
        by (auto simp: is_char_boundary_def nth_append)
    qed
    then show ?thesis by (simp add: valid_utf8_def)
  next
    case False
    let ?j = "i - length c"
    from False Cons.prems have "is_char_boundary (concat cs) ?j"
      by (auto simp: is_char_boundary_def nth_append)
    with False Cons.prems have "valid_utf8 (take ?j (concat cs))" by (intro Cons.IH) auto
    moreover have "valid_utf8 c" using Cons.prems valid_utf8_iff [of c] by (auto intro!: exI [of _ "[c]"])
    ultimately show ?thesis using False by (simp add: valid_utf8_append)
  qed
qed

lemma take_boundary_valid:
  "valid_utf8 s \<Longrightarrow> i \<le> length s \<Longrightarrow> is_char_boundary s i \<Longrightarrow> valid_utf8 (take i s)"
  unfolding valid_utf8_iff [of s] using take_concat_boundary by blast

lemma boundary_near:
  "list_all wf_char cs \<Longrightarrow> i \<le> length (concat cs) \<Longrightarrow> \<exists>j. is_char_boundary (concat cs) j \<and> j \<le> i \<and> i \<le> j + 3"
proof (induction cs arbitrary: i)
  case Nil
  then show ?case by (auto simp: is_char_boundary_def)
next
  case (Cons c cs)
  show ?case
  proof (cases "i < length c")
    case True
    with Cons.prems wf_char_length [of c] show ?thesis
      by (intro exI [of _ 0]) (auto simp: is_char_boundary_def)
  next
    case False
    with Cons.prems have "i - length c \<le> length (concat cs)" by simp
    with Cons.IH [of "i - length c"] Cons.prems obtain j where
        j: "is_char_boundary (concat cs) j" "j \<le> i - length c" "i - length c \<le> j + 3" by auto
    show ?thesis
    proof (cases "j = 0")
      case True
      have "is_char_boundary (concat (c # cs)) (length c)"
      proof (cases cs)
        case Nil
        then show ?thesis by (simp add: is_char_boundary_def)
      next
        case (Cons d ds)
        with \<open>list_all wf_char (c # cs)\<close> wf_char_length [of d] wf_char_head_not_cont [of d] show ?thesis
          by (simp add: is_char_boundary_def nth_append)
      qed
      with True False j show ?thesis by (intro exI [of _ "length c"]) auto
    next
      case nz: False
      with j(1) have "is_char_boundary (concat (c # cs)) (length c + j)"
        by (auto simp: is_char_boundary_def nth_append)
      with False j show ?thesis by (intro exI [of _ "length c + j"]) auto
    qed
  qed
qed

lemma floor_boundary_near: "valid_utf8 s \<Longrightarrow> i \<le> length s \<Longrightarrow> i \<le> floor_boundary s i + 3"
  unfolding valid_utf8_iff [of s] using boundary_near floor_boundary_greatest by fastforce

section \<open>Lossy decoding\<close>

text \<open>
  \<open>String::from_utf8_lossy\<close>: \<open>utf8_chunk\<close> measures the character at the head of a byte string, or the longest
  prefix of it that can start a character; an invalid chunk is replaced by U+FFFD.
\<close>

definition byte_in :: "nat \<Rightarrow> nat \<Rightarrow> string \<Rightarrow> nat \<Rightarrow> bool" where
  "byte_in lo hi s i \<longleftrightarrow> i < length s \<and> lo \<le> byte (s ! i) \<and> byte (s ! i) \<le> hi"

definition second_range :: "nat \<Rightarrow> nat \<times> nat" where
  "second_range a = (if a = 0xE0 then (0xA0, 0xBF) else if a = 0xED then (0x80, 0x9F)
     else if a = 0xF0 then (0x90, 0xBF) else if a = 0xF4 then (0x80, 0x8F) else (0x80, 0xBF))"

definition utf8_chunk :: "string \<Rightarrow> nat \<times> bool" where
  "utf8_chunk s =
    (let a = byte (s ! 0); (lo, hi) = second_range a;
         second = byte_in lo hi s 1; third = byte_in 0x80 0xBF s 2; fourth = byte_in 0x80 0xBF s 3 in
     if a < 0x80 then (1, True)
     else if a < 0xC2 then (1, False)
     else if a < 0xE0 then (if second then (2, True) else (1, False))
     else if a < 0xF0 then (if \<not> second then (1, False) else if third then (3, True) else (2, False))
     else if a < 0xF5 then
       (if \<not> second then (1, False) else if \<not> third then (2, False) else if fourth then (4, True) else (3, False))
     else (1, False))"

definition REPLACEMENT :: string where
  "REPLACEMENT = [char_of (0xEF::nat), char_of (0xBF::nat), char_of (0xBD::nat)]"

lemma utf8_chunk_pos: "0 < fst (utf8_chunk s)"
  by (simp add: utf8_chunk_def Let_def split: prod.split)

function from_utf8_lossy :: "string \<Rightarrow> string" where
  "from_utf8_lossy s =
    (if s = [] then []
     else (case utf8_chunk s of (n, ok) \<Rightarrow> (if ok then take n s else REPLACEMENT) @ from_utf8_lossy (drop n s)))"
  by pat_completeness auto
termination
  by (relation "measure length")
     (simp, metis (no_types) diff_less fst_conv in_measure length_drop length_greater_0_conv utf8_chunk_pos)

declare from_utf8_lossy.simps [simp del]

lemma REPLACEMENT_wf: "wf_char REPLACEMENT"
  by (simp add: REPLACEMENT_def is_cont_def)

lemma byte_inD: "byte_in lo hi s i \<Longrightarrow> i < length s \<and> lo \<le> byte (s ! i) \<and> byte (s ! i) \<le> hi"
  by (simp add: byte_in_def)

lemma is_cont_iff: "is_cont b \<longleftrightarrow> 0x80 \<le> byte b \<and> byte b \<le> 0xBF"
  by (auto simp: is_cont_def)

lemma chunk_ok_wf:
  assumes "s \<noteq> []" and "utf8_chunk s = (n, True)"
  shows "wf_char (take n s) \<and> n \<le> length s"
proof -
  from assms(1) obtain a t where s: "s = a # t" by (cases s) auto
  consider "n = 1" | "n = 2" | "n = 3" | "n = 4"
    using assms(2) by (auto simp: utf8_chunk_def Let_def split: prod.splits if_splits)
  then show ?thesis
  proof cases
    case 1
    then show ?thesis using assms(2) s by (auto simp: utf8_chunk_def Let_def split: prod.splits if_splits)
  next
    case 2
    then have "0xC2 \<le> byte a" "byte a < 0xE0" "byte_in 0x80 0xBF s 1"
      using assms(2) s by (auto simp: utf8_chunk_def Let_def second_range_def split: if_splits)
    with 2 s show ?thesis by (cases t) (auto simp: byte_in_def is_cont_iff)
  next
    case 3
    then have "0xE0 \<le> byte a" "byte a < 0xF0"
        "byte_in (fst (second_range (byte a))) (snd (second_range (byte a))) s 1" "byte_in 0x80 0xBF s 2"
      using assms(2) s by (auto simp: utf8_chunk_def Let_def split: prod.splits if_splits)
    with 3 s show ?thesis
      by (cases t; cases "tl t") (auto simp: byte_in_def is_cont_iff second_range_def split: if_splits)
  next
    case 4
    then have "0xF0 \<le> byte a" "byte a < 0xF5"
        "byte_in (fst (second_range (byte a))) (snd (second_range (byte a))) s 1" "byte_in 0x80 0xBF s 2"
        "byte_in 0x80 0xBF s 3"
      using assms(2) s by (auto simp: utf8_chunk_def Let_def split: prod.splits if_splits)
    with 4 s show ?thesis
      by (cases t; cases "tl t"; cases "tl (tl t)")
         (auto simp: byte_in_def is_cont_iff second_range_def split: if_splits)
  qed
qed

lemma second_range_wf:
  "wf_char (a # b # c) \<Longrightarrow> byte_in (fst (second_range (byte a))) (snd (second_range (byte a))) (a # b # t) 1"
  by (cases c; cases "tl c"; cases "tl (tl c)") (auto simp: byte_in_def second_range_def is_cont_iff)

lemma chunk_of_wf:
  assumes "wf_char c"
  shows "utf8_chunk (c @ s) = (length c, True)"
  using assms
proof (cases rule: wf_char_cases)
  case (one a)
  then show ?thesis by (simp add: utf8_chunk_def Let_def split: prod.split)
next
  case (two a b)
  with second_range_wf [of a b "[]" s] assms show ?thesis
    by (auto simp: utf8_chunk_def Let_def split: prod.splits)
next
  case (three a b d)
  with second_range_wf [of a b "[d]" "d # s"] assms show ?thesis
    by (auto simp: utf8_chunk_def Let_def is_cont_iff byte_in_def split: prod.splits)
next
  case (four a b d e)
  with second_range_wf [of a b "[d, e]" "d # e # s"] assms show ?thesis
    by (auto simp: utf8_chunk_def Let_def is_cont_iff byte_in_def split: prod.splits)
qed

lemma wf_char_valid: "wf_char c \<Longrightarrow> valid_utf8 c"
  using valid_utf8_iff [of c] by (auto intro!: exI [of _ "[c]"])

lemma from_utf8_lossy_valid: "valid_utf8 (from_utf8_lossy s)"
proof (induction s rule: from_utf8_lossy.induct)
  case (1 s)
  show ?case
  proof (cases "s = []")
    case True
    then show ?thesis by (subst from_utf8_lossy.simps) (simp add: valid_utf8_def)
  next
    case False
    obtain n ok where n: "utf8_chunk s = (n, ok)" by (cases "utf8_chunk s")
    with 1 [OF False n [symmetric]] False chunk_ok_wf [OF False, of n] show ?thesis
      by (subst from_utf8_lossy.simps) (auto intro!: valid_utf8_append simp: wf_char_valid REPLACEMENT_wf)
  qed
qed

lemma from_utf8_lossy_id: "valid_utf8 s \<Longrightarrow> from_utf8_lossy s = s"
proof -
  have "list_all wf_char cs \<Longrightarrow> from_utf8_lossy (concat cs) = concat cs" for cs
  proof (induction cs)
    case Nil
    show ?case by (subst from_utf8_lossy.simps) simp
  next
    case (Cons c cs)
    then have "c @ concat cs \<noteq> []" by (auto dest: wf_char_length)
    with Cons show ?case by (subst from_utf8_lossy.simps) (simp add: chunk_of_wf)
  qed
  then show "valid_utf8 s \<Longrightarrow> from_utf8_lossy s = s" by (auto simp: valid_utf8_iff)
qed

end
