(* ===== verification/Media.thy ===== *)
theory Media
  imports Frame Utf8
begin

text \<open>
  Media (\<open>crates/media\<close>): the JPEG screen encoder (\<open>encoder.rs\<close>) and the WebRTC answerer that streams encoded
  frames in chunks over a data channel (\<open>rtc.rs\<close>). The JPEG library and the WebRTC stack are parameters. The
  receiving end, the mobile viewer's chunk assembler (\<open>_onFrameChunk\<close> of \<open>webrtc_session.dart\<close>), is modelled too,
  so that the wire format is verified from one end to the other.
\<close>

section \<open>The encoder\<close>

datatype encode_error = InvalidFrame | Encode string

record encoded_frame =
  enc_width :: u32
  enc_height :: u32
  enc_timestamp_us :: u64
  enc_data :: bytes

record jpeg_encoder =
  enc_max_height :: u32
  enc_quality :: u8

definition clamp :: "'a::len word \<Rightarrow> 'a word \<Rightarrow> 'a word \<Rightarrow> 'a word" where
  "clamp x lo hi = (if x < lo then lo else if x > hi then hi else x)"

definition encoder_new :: "u32 \<Rightarrow> u8 \<Rightarrow> jpeg_encoder" where
  "encoder_new h q = \<lparr> enc_max_height = clamp h 120 2160, enc_quality = clamp q 20 90 \<rparr>"

definition streaming_default :: jpeg_encoder where
  "streaming_default = encoder_new 720 55"

type_synonym jpeg_lib = "u8 \<Rightarrow> bytes \<Rightarrow> u16 \<Rightarrow> u16 \<Rightarrow> (bytes, string) result"

text \<open>\<open>None\<close> is the panic of the scaling routine.\<close>

definition encode :: "jpeg_lib \<Rightarrow> jpeg_encoder \<Rightarrow> frame \<Rightarrow> (encoded_frame, encode_error) result option" where
  "encode jpeg enc f = map_option (\<lambda>scaled.
     if \<not> is_valid scaled then Err InvalidFrame
     else (case jpeg (enc_quality enc) (frame_data scaled) (ucast (frame_width scaled)) (ucast (frame_height scaled)) of
        Inl e \<Rightarrow> Err (Encode e)
      | Inr buf \<Rightarrow> Ok \<lparr> enc_width = frame_width scaled, enc_height = frame_height scaled,
          enc_timestamp_us = timestamp_us scaled, enc_data = buf \<rparr>))
     (downscale_to_max_height f (enc_max_height enc))"

lemma clamp_height: "120 \<le> unat (clamp h 120 2160 :: u32) \<and> unat (clamp h 120 2160 :: u32) \<le> 2160"
  by (auto simp: clamp_def word_less_nat_alt)

section \<open>Chunks of a frame\<close>

definition FRAME_CHUNK_HEADER_LEN :: nat where "FRAME_CHUNK_HEADER_LEN = 8"
definition FRAME_CHUNK_PAYLOAD :: nat where "FRAME_CHUNK_PAYLOAD = 16 * 1024 - FRAME_CHUNK_HEADER_LEN"

text \<open>\<open>slice::chunks\<close> for a positive size.\<close>

function chunks :: "nat \<Rightarrow> bytes \<Rightarrow> bytes list" where
  "chunks n xs = (if xs = [] \<or> n = 0 then [] else take n xs # chunks n (drop n xs))"
  by pat_completeness auto
termination by (relation "measure (\<lambda>(n, xs). length xs)") auto

declare chunks.simps [simp del]

definition chunk_message :: "u32 \<Rightarrow> nat \<Rightarrow> nat \<Rightarrow> bytes \<Rightarrow> bytes" where
  "chunk_message fid idx count payload =
     u32_to_le_bytes fid @ u16_to_le_bytes (word_of_nat idx) @ u16_to_le_bytes (word_of_nat count) @ payload"

definition chunk_count :: "bytes \<Rightarrow> nat" where
  "chunk_count xs = max ((length xs + FRAME_CHUNK_PAYLOAD - 1) div FRAME_CHUNK_PAYLOAD) 1"

section \<open>The peer\<close>

record ice_server =
  ice_urls :: "string list"
  ice_username :: string
  ice_credential :: string

datatype peer_event =
    LocalIce string u16
  | InputFrame string
  | ControlFrame string
  | StateChanged string

datatype rtc_state = RtcNew | RtcConnecting | RtcConnected | RtcDisconnected | RtcFailed | RtcClosed | RtcUnspecified

text \<open>The callbacks the peer installs: what each of them emits.\<close>

definition wire_ice :: "((string \<times> u16 option), string) result option \<Rightarrow> peer_event list" where
  "wire_ice cand = (case cand of
     None \<Rightarrow> []
   | Some (Inr (candidate, idx)) \<Rightarrow> [LocalIce candidate (case idx of Some i \<Rightarrow> i | None \<Rightarrow> 0)]
   | Some (Inl e) \<Rightarrow> [])"

fun wire_state :: "rtc_state \<Rightarrow> peer_event" where
  "wire_state RtcNew = StateChanged ''new''"
| "wire_state RtcConnecting = StateChanged ''connecting''"
| "wire_state RtcConnected = StateChanged ''connected''"
| "wire_state RtcDisconnected = StateChanged ''disconnected''"
| "wire_state RtcFailed = StateChanged ''failed''"
| "wire_state RtcClosed = StateChanged ''closed''"
| "wire_state RtcUnspecified = StateChanged ''unspecified''"

definition wire_text_channel :: "(string \<Rightarrow> peer_event) \<Rightarrow> string \<Rightarrow> peer_event" where
  "wire_text_channel wrap msg = wrap (from_utf8_lossy msg)"

text \<open>The peer connection and data channel of the WebRTC stack.\<close>

record 'w rtc_api =
  parse_offer :: "string \<Rightarrow> (string, string) result"
  set_remote_description :: "'w \<Rightarrow> string \<Rightarrow> 'w \<times> (unit, string) result"
  create_answer :: "'w \<Rightarrow> 'w \<times> (string, string) result"
  set_local_description :: "'w \<Rightarrow> string \<Rightarrow> 'w \<times> (unit, string) result"
  local_description :: "'w \<Rightarrow> string option"
  add_ice_candidate :: "'w \<Rightarrow> string \<Rightarrow> u16 \<Rightarrow> 'w \<times> (unit, string) result"
  dc_open :: "'w \<Rightarrow> bool"
  dc_buffered :: "'w \<Rightarrow> nat"
  dc_send :: "'w \<Rightarrow> bytes \<Rightarrow> 'w \<times> (unit, string) result"

record 'w agent_peer =
  pc :: 'w
  frames_channel :: bool
  frame_seq :: u32

definition peer_new :: "'w \<Rightarrow> 'w agent_peer" where
  "peer_new w = \<lparr> pc = w, frames_channel = False, frame_seq = 0 \<rparr>"

text \<open>Construction of a peer from the ICE servers of the session; the stack's own builders are parameters.\<close>

record peer_config =
  peer_ice_servers :: "ice_server list"

record 'w rtc_builder =
  register_default_codecs :: "(unit, string) result"
  register_default_interceptors :: "(unit, string) result"
  new_peer_connection :: "ice_server list \<Rightarrow> ('w, string) result"

definition agent_peer_new :: "'w rtc_builder \<Rightarrow> peer_config \<Rightarrow> ('w agent_peer, string) result" where
  "agent_peer_new b cfg = (case register_default_codecs b of
     Inl e \<Rightarrow> Err (''register codecs: '' @ e)
   | Inr _ \<Rightarrow> (case register_default_interceptors b of
       Inl e \<Rightarrow> Err (''register interceptors: '' @ e)
     | Inr _ \<Rightarrow> (case new_peer_connection b (peer_ice_servers cfg) of
         Inl e \<Rightarrow> Err (''new peer connection: '' @ e)
       | Inr w \<Rightarrow> Ok (peer_new w))))"

text \<open>A channel the controller opened: text channels emit events, \<open>frames\<close> is retained, others are ignored.\<close>

datatype channel_use = TextChannel "string \<Rightarrow> peer_event" | FramesChannel | IgnoredChannel

definition wire_data_channels :: "string \<Rightarrow> channel_use" where
  "wire_data_channels label =
    (if label = ''input'' then TextChannel (wire_text_channel InputFrame)
     else if label = ''control'' then TextChannel (wire_text_channel ControlFrame)
     else if label = ''frames'' then FramesChannel
     else IgnoredChannel)"

definition on_data_channel :: "'w agent_peer \<Rightarrow> string \<Rightarrow> 'w agent_peer" where
  "on_data_channel p label = (case wire_data_channels label of FramesChannel \<Rightarrow> p\<lparr> frames_channel := True \<rparr> | _ \<Rightarrow> p)"

definition accept_offer :: "'w rtc_api \<Rightarrow> 'w agent_peer \<Rightarrow> string \<Rightarrow> 'w agent_peer \<times> (string, string) result" where
  "accept_offer api p sdp = (case parse_offer api sdp of
     Inl e \<Rightarrow> (p, Err (''parse offer: '' @ e))
   | Inr offer \<Rightarrow> (case set_remote_description api (pc p) offer of
       (w1, Inl e) \<Rightarrow> (p\<lparr> pc := w1 \<rparr>, Err (''set remote description: '' @ e))
     | (w1, Inr _) \<Rightarrow> (case create_answer api w1 of
         (w2, Inl e) \<Rightarrow> (p\<lparr> pc := w2 \<rparr>, Err (''create answer: '' @ e))
       | (w2, Inr answer) \<Rightarrow> (case set_local_description api w2 answer of
           (w3, Inl e) \<Rightarrow> (p\<lparr> pc := w3 \<rparr>, Err (''set local description: '' @ e))
         | (w3, Inr _) \<Rightarrow> (p\<lparr> pc := w3 \<rparr>,
             ok_or (local_description api w3) ''missing local description after answer'')))))"

definition add_remote_ice :: "'w rtc_api \<Rightarrow> 'w agent_peer \<Rightarrow> string \<Rightarrow> u16 \<Rightarrow> 'w agent_peer \<times> (unit, string) result" where
  "add_remote_ice api p c i = (case add_ice_candidate api (pc p) c i of
     (w, Inl e) \<Rightarrow> (p\<lparr> pc := w \<rparr>, Err (''add ice candidate: '' @ e))
   | (w, Inr _) \<Rightarrow> (p\<lparr> pc := w \<rparr>, Ok ()))"

definition frames_open :: "'w rtc_api \<Rightarrow> 'w agent_peer \<Rightarrow> bool" where
  "frames_open api p \<longleftrightarrow> frames_channel p \<and> dc_open api (pc p)"

fun send_chunks :: "'w rtc_api \<Rightarrow> 'w \<Rightarrow> u32 \<Rightarrow> nat \<Rightarrow> nat \<Rightarrow> bytes list \<Rightarrow> 'w \<times> (unit, string) result" where
  "send_chunks api w fid count idx [] = (w, Ok ())"
| "send_chunks api w fid count idx (payload # rest) = (case dc_send api w (chunk_message fid idx count payload) of
     (w', Inl e) \<Rightarrow> (w', Err (''send frame: '' @ e))
   | (w', Inr _) \<Rightarrow> send_chunks api w' fid count (Suc idx) rest)"

definition send_frame :: "'w rtc_api \<Rightarrow> 'w agent_peer \<Rightarrow> encoded_frame \<Rightarrow> nat \<Rightarrow> 'w agent_peer \<times> (bool, string) result" where
  "send_frame api p f max_buffered =
    (if \<not> frames_channel p then (p, Ok False)
     else if \<not> dc_open api (pc p) then (p, Ok False)
     else if dc_buffered api (pc p) > max_buffered then (p, Ok False)
     else let count = chunk_count (enc_data f) in
       if count > 2 ^ 16 - 1
       then (p, Err (''frame too large to chunk: '' @ decimal (length (enc_data f)) @ '' bytes ('' @ decimal count @ '' chunks)''))
       else let p1 = p\<lparr> frame_seq := frame_seq p + 1 \<rparr> in
         (case send_chunks api (pc p1) (frame_seq p) count 0 (chunks FRAME_CHUNK_PAYLOAD (enc_data f)) of
            (w, Inl e) \<Rightarrow> (p1\<lparr> pc := w \<rparr>, Err e)
          | (w, Inr _) \<Rightarrow> (p1\<lparr> pc := w \<rparr>, Ok True)))"

section \<open>The assembler of the viewer\<close>

record assembler =
  asm_frame_id :: "u32 option"
  asm_expected :: nat
  asm_chunks :: "bytes list"

text \<open>The little-endian fields of the header.\<close>

definition chunk_id :: "bytes \<Rightarrow> u32" where "chunk_id m = word_of_nat (le_value (take 4 m))"
definition chunk_index :: "bytes \<Rightarrow> nat" where "chunk_index m = le_value (take 2 (drop 4 m))"
definition chunk_total :: "bytes \<Rightarrow> nat" where "chunk_total m = le_value (take 2 (drop 6 m))"

definition on_frame_chunk :: "assembler \<Rightarrow> bytes \<Rightarrow> assembler \<times> bytes option" where
  "on_frame_chunk a m =
    (if length m < FRAME_CHUNK_HEADER_LEN then (a, None)
     else if chunk_total m = 0 then (a, None)
     else let payload = drop FRAME_CHUNK_HEADER_LEN m in
       if chunk_index m \<noteq> 0 \<and> (asm_frame_id a \<noteq> Some (chunk_id m) \<or> length (asm_chunks a) \<noteq> chunk_index m)
       then (a\<lparr> asm_frame_id := None, asm_chunks := [] \<rparr>, None)
       else let a1 = (if chunk_index m = 0
                then \<lparr> asm_frame_id = Some (chunk_id m), asm_expected = chunk_total m, asm_chunks = [payload] \<rparr>
                else a\<lparr> asm_chunks := asm_chunks a @ [payload] \<rparr>)
         in if length (asm_chunks a1) = asm_expected a1
            then (a1\<lparr> asm_frame_id := None, asm_chunks := [] \<rparr>, Some (concat (asm_chunks a1)))
            else (a1, None))"

fun assemble :: "assembler \<Rightarrow> bytes list \<Rightarrow> assembler \<times> bytes list" where
  "assemble a [] = (a, [])"
| "assemble a (m # ms) = (case on_frame_chunk a m of (a', out) \<Rightarrow> case assemble a' ms of (a'', outs) \<Rightarrow>
     (a'', (case out of Some d \<Rightarrow> d # outs | None \<Rightarrow> outs)))"

section \<open>Properties of the wire format\<close>

lemma length_chunk_message: "length (chunk_message fid i c p) = 8 + length p"
  by (simp add: chunk_message_def)

lemma chunk_fields:
  assumes "i < 2 ^ 16" "c < 2 ^ 16"
  shows "chunk_id (chunk_message fid i c p) = fid" "chunk_index (chunk_message fid i c p) = i"
    "chunk_total (chunk_message fid i c p) = c" "drop 8 (chunk_message fid i c p) = p"
proof -
  have f: "le_value (u32_to_le_bytes fid) = unat fid"
  proof -
    have "unat fid < 2 ^ 32" using unsigned_less [of fid] by simp
    then show ?thesis by (simp add: u32_to_le_bytes_def le_value_le_bytes)
  qed
  have s: "le_value (u16_to_le_bytes (word_of_nat n)) = n" if "n < 2 ^ 16" for n
    using that by (simp add: u16_to_le_bytes_def le_value_le_bytes unat_of_nat)
  show "chunk_id (chunk_message fid i c p) = fid" by (simp add: chunk_id_def chunk_message_def f)
  show "chunk_index (chunk_message fid i c p) = i" by (simp add: chunk_index_def chunk_message_def s [OF assms(1)] s [OF assms(2)])
  show "chunk_total (chunk_message fid i c p) = c" by (simp add: chunk_total_def chunk_message_def s [OF assms(1)] s [OF assms(2)])
  show "drop 8 (chunk_message fid i c p) = p" by (simp add: chunk_message_def)
qed

lemma concat_chunks: "0 < n \<Longrightarrow> concat (chunks n xs) = xs"
  by (induction n xs rule: chunks.induct) (subst chunks.simps, auto)

lemma chunks_Nil_iff: "0 < n \<Longrightarrow> chunks n xs = [] \<longleftrightarrow> xs = []"
  by (subst chunks.simps) simp

lemma chunks_bounded: "c \<in> set (chunks n xs) \<Longrightarrow> 0 < length c \<and> length c \<le> n"
proof (induction n xs rule: chunks.induct)
  case (1 n xs)
  then show ?case by (subst (asm) (2) chunks.simps) (auto split: if_splits)
qed

lemma length_chunks: "0 < n \<Longrightarrow> length (chunks n xs) = (length xs + n - 1) div n"
proof (induction n xs rule: chunks.induct)
  case (1 n xs)
  show ?case
  proof (cases "xs = []")
    case True
    then show ?thesis using 1 by (subst chunks.simps) simp
  next
    case False
    then have "length (chunks n xs) = Suc ((length xs - n + n - 1) div n)"
      using 1 by (subst chunks.simps) simp
    also have "\<dots> = (length xs + n - 1) div n"
    proof (cases "length xs \<le> n")
      case True
      obtain l where l: "length xs = Suc l" using False by (cases xs) auto
      then have "(length xs + n - 1) div n = 1" using True "1.prems" by (simp add: div_add_self2)
      moreover have "(length xs - n + n - 1) div n = 0"
        using True "1.prems" by simp
      ultimately show ?thesis by simp
    next
      case False
      then have e: "length xs + n - 1 = (length xs - n + n - 1) + n" by simp
      have "\<And>m. (m + n) div n = Suc (m div n)" using "1.prems" by simp
      then show ?thesis by (simp only: e)
    qed
    finally show ?thesis .
  qed
qed

lemma chunk_count_eq: "xs \<noteq> [] \<Longrightarrow> chunk_count xs = length (chunks FRAME_CHUNK_PAYLOAD xs)"
proof -
  assume xs: "xs \<noteq> []"
  have p: "0 < FRAME_CHUNK_PAYLOAD" by (simp add: FRAME_CHUNK_PAYLOAD_def FRAME_CHUNK_HEADER_LEN_def)
  then have "0 < length (chunks FRAME_CHUNK_PAYLOAD xs)" using xs chunks_Nil_iff [OF p, of xs] by simp
  then show ?thesis using length_chunks [OF p, of xs] by (simp add: chunk_count_def)
qed

text \<open>The messages of one frame.\<close>

definition frame_messages :: "u32 \<Rightarrow> bytes \<Rightarrow> bytes list" where
  "frame_messages fid d = (let cs = chunks FRAME_CHUNK_PAYLOAD d in
     map (\<lambda>i. chunk_message fid i (length cs) (cs ! i)) [0..<length cs])"

lemma assemble_append:
  "assemble a (xs @ ys) = (case assemble a xs of (a', o1) \<Rightarrow> case assemble a' ys of (a'', o2) \<Rightarrow> (a'', o1 @ o2))"
  by (induction xs arbitrary: a) (auto split: prod.splits option.splits)

text \<open>The first chunks of a frame: whatever came before, the assembler holds them and hands out nothing yet.\<close>

lemma assemble_prefix:
  assumes "length cs = n" "n < 2 ^ 16"
  shows "0 < j \<Longrightarrow> j < n \<Longrightarrow> assemble a (map (\<lambda>i. chunk_message fid i n (cs ! i)) [0..<j])
    = (\<lparr> asm_frame_id = Some fid, asm_expected = n, asm_chunks = take j cs \<rparr>, [])"
proof (induction j)
  case (Suc j)
  have i: "j < 2 ^ 16" using Suc.prems assms(2) by simp
  note f = chunk_fields [OF i assms(2), of fid "cs ! j"]
  have t: "take j cs @ [cs ! j] = take (Suc j) cs" using Suc.prems assms(1) by (simp add: take_Suc_conv_app_nth)
  show ?case
  proof (cases "j = 0")
    case True
    then show ?thesis using f t Suc.prems
      by (simp add: on_frame_chunk_def FRAME_CHUNK_HEADER_LEN_def length_chunk_message Let_def)
  next
    case False
    then show ?thesis using Suc f t assms(1)
      by (simp add: assemble_append on_frame_chunk_def FRAME_CHUNK_HEADER_LEN_def length_chunk_message Let_def)
  qed
qed simp

lemma assemble_frame:
  assumes "d \<noteq> []" and "chunk_count d < 2 ^ 16"
  shows "\<exists>a'. assemble a (frame_messages fid d) = (a', [d])"
proof -
  let ?cs = "chunks FRAME_CHUNK_PAYLOAD d"
  let ?m = "\<lambda>i. chunk_message fid i (length ?cs) (?cs ! i)"
  have p: "0 < FRAME_CHUNK_PAYLOAD" by (simp add: FRAME_CHUNK_PAYLOAD_def FRAME_CHUNK_HEADER_LEN_def)
  have n: "length ?cs < 2 ^ 16" using assms chunk_count_eq [OF assms(1)] by simp
  have c: "concat ?cs = d" by (rule concat_chunks [OF p])
  obtain k where k: "length ?cs = Suc k" using assms(1) chunks_Nil_iff [OF p, of d] by (cases "length ?cs") auto
  have f: "k < 2 ^ 16" using n k by simp
  note f = chunk_fields [OF f n, of fid "?cs ! k"]
  have t: "take k ?cs @ [?cs ! k] = ?cs" using k by (simp add: take_Suc_conv_app_nth [symmetric])
  have m: "frame_messages fid d = map ?m [0..<k] @ [?m k]" using k by (simp add: frame_messages_def Let_def)
  have l: "length (take k ?cs) = k" using k by simp
  show ?thesis
  proof (cases "k = 0")
    case True
    then have "?cs = [?cs ! k]" using t by simp
    then have "concat [?cs ! k] = d" using c by metis
    then show ?thesis using m f True k
      by (simp add: on_frame_chunk_def FRAME_CHUNK_HEADER_LEN_def length_chunk_message Let_def)
  next
    case False
    have "concat (take k ?cs) @ ?cs ! k = d" using t c by (metis concat.simps concat_append append_Nil2)
    then show ?thesis using assemble_prefix [OF refl n, of k a fid] m f l False k
      by (simp add: assemble_append on_frame_chunk_def FRAME_CHUNK_HEADER_LEN_def length_chunk_message Let_def)
  qed
qed

text \<open>An interrupted frame is never handed out.\<close>

lemma assemble_interrupted:
  assumes "chunk_count d < 2 ^ 16" and "k < length (frame_messages fid d)"
  shows "\<exists>a'. assemble a (take k (frame_messages fid d)) = (a', [])"
proof (cases "k = 0")
  case False
  let ?cs = "chunks FRAME_CHUNK_PAYLOAD d"
  have k: "k < length ?cs" using assms(2) by (simp add: frame_messages_def Let_def)
  then have "d \<noteq> []" by (auto simp: chunks.simps [of _ "[]"])
  then have n: "length ?cs < 2 ^ 16" using assms(1) chunk_count_eq [of d] by simp
  have "take k (frame_messages fid d) = map (\<lambda>i. chunk_message fid i (length ?cs) (?cs ! i)) [0..<k]"
    using k by (simp add: frame_messages_def Let_def take_map)
  then show ?thesis using assemble_prefix [OF refl n, of k a fid] False k by simp
qed simp

text \<open>A channel that records what it sends.\<close>

definition recording_channel :: "bytes list rtc_api" where
  "recording_channel = \<lparr> parse_offer = (\<lambda>s. Ok s), set_remote_description = (\<lambda>w s. (w, Ok ())),
     create_answer = (\<lambda>w. (w, Ok [])), set_local_description = (\<lambda>w s. (w, Ok ())), local_description = (\<lambda>w. Some []),
     add_ice_candidate = (\<lambda>w c i. (w, Ok ())), dc_open = (\<lambda>w. True), dc_buffered = (\<lambda>w. 0),
     dc_send = (\<lambda>w m. (w @ [m], Ok ())) \<rparr>"

lemma send_chunks_recording:
  "send_chunks recording_channel w fid count idx cs
     = (w @ map (\<lambda>i. chunk_message fid (idx + i) count (cs ! i)) [0..<length cs], Ok ())"
proof (induction cs arbitrary: w idx)
  case (Cons c cs)
  have "[0..<length (c # cs)] = 0 # map Suc [0..<length cs]" by (simp add: map_Suc_upt upt_conv_Cons del: upt_Suc)
  then show ?case using Cons by (simp add: recording_channel_def comp_def del: upt_Suc)
qed simp

text \<open>Offering messages to the channel, up to the first refusal.\<close>

fun send_all :: "'w rtc_api \<Rightarrow> 'w \<Rightarrow> bytes list \<Rightarrow> 'w \<times> (unit, string) result" where
  "send_all api w [] = (w, Ok ())"
| "send_all api w (m # ms) = (case dc_send api w m of (w', Inl e) \<Rightarrow> (w', Err e) | (w', Inr _) \<Rightarrow> send_all api w' ms)"

lemma send_chunks_all:
  "send_chunks api w fid count idx cs
     = (case send_all api w (map (\<lambda>i. chunk_message fid (idx + i) count (cs ! i)) [0..<length cs]) of
         (w', r) \<Rightarrow> (w', case r of Inl e \<Rightarrow> Err (''send frame: '' @ e) | Inr _ \<Rightarrow> Ok ()))"
proof (induction cs arbitrary: w idx)
  case (Cons c cs)
  have "[0..<length (c # cs)] = 0 # map Suc [0..<length cs]" by (simp add: map_Suc_upt upt_conv_Cons del: upt_Suc)
  then show ?case using Cons by (simp add: comp_def del: upt_Suc split: prod.split sum.split)
qed simp

text \<open>
  What the agent relies on in a data channel that is ordered and reliable: \<open>sent\<close> grows by a message exactly when the
  stack accepts it, and no other call on the connection touches it.
\<close>

definition in_order_channel :: "'w rtc_api \<Rightarrow> ('w \<Rightarrow> bytes list) \<Rightarrow> bool" where
  "in_order_channel api sent \<longleftrightarrow>
     (\<forall>w m w' r. dc_send api w m = (w', r) \<longrightarrow> sent w' = (if is_ok r then sent w @ [m] else sent w))
   \<and> (\<forall>w s. sent (fst (set_remote_description api w s)) = sent w) \<and> (\<forall>w. sent (fst (create_answer api w)) = sent w)
   \<and> (\<forall>w s. sent (fst (set_local_description api w s)) = sent w) \<and> (\<forall>w c i. sent (fst (add_ice_candidate api w c i)) = sent w)"

lemma recording_in_order: "in_order_channel recording_channel (\<lambda>w. w)"
  by (auto simp: in_order_channel_def recording_channel_def)

lemma send_all_in_order:
  "in_order_channel api sent \<Longrightarrow> send_all api w ms = (w', r) \<Longrightarrow>
     \<exists>k \<le> length ms. sent w' = sent w @ take k ms \<and> (is_ok r \<longleftrightarrow> k = length ms)"
proof (induction ms arbitrary: w)
  case (Cons m ms)
  obtain v q where v: "dc_send api w m = (v, q)" by force
  then have s: "sent v = (if is_ok q then sent w @ [m] else sent w)" using Cons.prems(1) by (simp add: in_order_channel_def)
  show ?case
  proof (cases q)
    case (Inl e)
    then show ?thesis using v s Cons.prems by (intro exI [of _ 0]) auto
  next
    case (Inr x)
    then have "send_all api v ms = (w', r)" using v Cons.prems(2) by simp
    from Cons.IH [OF Cons.prems(1) this] s Inr obtain k where "k \<le> length ms" "sent w' = sent w @ m # take k ms"
        "is_ok r \<longleftrightarrow> k = length ms" by auto
    then show ?thesis by (intro exI [of _ "Suc k"]) simp
  qed
qed auto

lemma send_frame_refuses:
  "\<not> (frames_channel p \<and> dc_open api (pc p) \<and> dc_buffered api (pc p) \<le> mb \<and> chunk_count (enc_data f) < 2 ^ 16)
    \<Longrightarrow> fst (send_frame api p f mb) = p \<and> snd (send_frame api p f mb) \<noteq> Ok True"
  by (auto simp: send_frame_def Let_def)

text \<open>What one frame leaves on such a channel: all of its messages if it was sent, a proper prefix otherwise.\<close>

lemma send_frame_in_order:
  assumes "in_order_channel api sent" and "send_frame api p f mb = (p', r)"
  shows "\<exists>k. sent (pc p') = sent (pc p) @ take k (frame_messages (frame_seq p) (enc_data f))
    \<and> (if r = Ok True then k = length (frame_messages (frame_seq p) (enc_data f)) \<and> chunk_count (enc_data f) < 2 ^ 16
        else k = 0 \<or> k < length (frame_messages (frame_seq p) (enc_data f)) \<and> chunk_count (enc_data f) < 2 ^ 16)"
proof -
  let ?cs = "chunks FRAME_CHUNK_PAYLOAD (enc_data f)"
  consider (drop) "p' = p" "r \<noteq> Ok True"
    | (sent) "chunk_count (enc_data f) < 2 ^ 16" "frames_channel p" "dc_open api (pc p)" "dc_buffered api (pc p) \<le> mb"
    using send_frame_refuses [of p api mb f] assms(2) by fastforce
  then show ?thesis
  proof cases
    case drop
    then show ?thesis by (intro exI [of _ 0]) simp
  next
    case sent
    let ?ms = "frame_messages (frame_seq p) (enc_data f)"
    obtain w q where w: "send_all api (pc p) ?ms = (w, q)" by force
    have ms: "map (\<lambda>i. chunk_message (frame_seq p) (0 + i) (chunk_count (enc_data f)) (?cs ! i)) [0..<length ?cs] = ?ms"
    proof (cases "enc_data f = []")
      case True
      then show ?thesis by (simp add: frame_messages_def chunks.simps [of _ "[]"])
    next
      case False
      then show ?thesis using chunk_count_eq by (simp add: frame_messages_def Let_def)
    qed
    have "p' = p\<lparr> frame_seq := frame_seq p + 1, pc := w \<rparr>" "r = Ok True \<longleftrightarrow> is_ok q"
      using assms(2) w ms send_chunks_all [of api "pc p" "frame_seq p" "chunk_count (enc_data f)" 0 ?cs] sent
      by (auto simp: send_frame_def Let_def split: sum.splits)
    then show ?thesis using send_all_in_order [OF assms(1) w] sent(1) by auto
  qed
qed

text \<open>Sending a sequence of frames, stopping at nothing.\<close>

fun send_frames :: "'w rtc_api \<Rightarrow> 'w agent_peer \<Rightarrow> encoded_frame list \<Rightarrow> nat \<Rightarrow> 'w agent_peer \<times> (bool, string) result list" where
  "send_frames api p [] mb = (p, [])"
| "send_frames api p (f # fs) mb = (case send_frame api p f mb of (p', r) \<Rightarrow>
     case send_frames api p' fs mb of (p'', rs) \<Rightarrow> (p'', r # rs))"

definition sendable :: "encoded_frame \<Rightarrow> bool" where
  "sendable f \<longleftrightarrow> enc_data f \<noteq> [] \<and> chunk_count (enc_data f) < 2 ^ 16"

lemma send_frame_recording:
  assumes "frames_channel p" "sendable f"
  shows "send_frame recording_channel p f mb
    = (p\<lparr> frame_seq := frame_seq p + 1, pc := pc p @ frame_messages (frame_seq p) (enc_data f) \<rparr>, Ok True)"
proof -
  have "\<not> chunk_count (enc_data f) > 2 ^ 16 - 1" "chunk_count (enc_data f) = length (chunks FRAME_CHUNK_PAYLOAD (enc_data f))"
    using assms(2) chunk_count_eq unfolding sendable_def by auto
  then show ?thesis
    using assms(1) send_chunks_recording
    by (simp add: send_frame_def recording_channel_def [THEN arg_cong [of _ _ dc_open]]
        recording_channel_def [THEN arg_cong [of _ _ dc_buffered]] frame_messages_def Let_def)
qed


definition sample_encoded :: encoded_frame where
  "sample_encoded = \<lparr> enc_width = 1, enc_height = 1, enc_timestamp_us = 0, enc_data = [0xFF, 0xD8, 0xFF, 0xD9] \<rparr>"


section \<open>What the encoder does\<close>

text \<open>What a capture loop publishes, the encoder takes.\<close>

lemma well_formed_encodes:
  assumes "well_formed g"
  shows "encode jpeg (encoder_new h q) g \<noteq> None \<and> encode jpeg (encoder_new h q) g \<noteq> Some (Err InvalidFrame)"
proof -
  have nz: "is_valid g" "frame_width g \<noteq> 0" "frame_height g \<noteq> 0" using assms by (auto simp: well_formed_def)
  obtain g' where "downscale_to_max_height g (clamp h 120 2160) = Some g'" "is_valid g'"
    using downscale_proper [OF nz] by blast
  then show ?thesis by (auto simp: encode_def encoder_new_def split: sum.splits)
qed

text \<open>
  A valid, non-empty frame never fails in the encoder itself. The JPEG library is called once, with the
  clamped quality and a buffer of exactly four bytes per pixel of the fitted dimensions, which never exceed the
  clamped height limit; the encoded frame carries those dimensions, the capture timestamp and the library's
  output, and an error is the library's error.
\<close>

theorem valid_frames_encode:
  assumes "is_valid f" and "frame_width f \<noteq> 0" and "frame_height f \<noteq> 0"
    and "fit_dimensions (frame_width f) (frame_height f) (clamp h 120 2160) = (w', h')"
  shows "\<exists>buf. length buf = unat w' * unat h' * 4 \<and> unat h' \<le> 2160
    \<and> encode jpeg (encoder_new h q) f = Some (case jpeg (clamp q 20 90) buf (ucast w') (ucast h') of
        Inl e \<Rightarrow> Err (Encode e)
      | Inr out \<Rightarrow> Ok \<lparr> enc_width = w', enc_height = h', enc_timestamp_us = timestamp_us f, enc_data = out \<rparr>)"
proof -
  obtain g where g: "downscale_to_max_height f (clamp h 120 2160) = Some g" "is_valid g"
      "frame_width g = w'" "frame_height g = h'" "timestamp_us g = timestamp_us f"
    using downscale_explicit [OF assms] by auto
  have "unat h' \<le> max (unat (clamp h 120 2160)) 2"
    using fit_height [of "frame_width f" "frame_height f" "clamp h 120 2160"] assms(2-4) by simp
  then have "unat h' \<le> 2160" using clamp_height [of h] by simp
  with g show ?thesis
    by (intro exI [of _ "frame_data g"])
      (auto simp: encode_def encoder_new_def is_valid_def expected_len_def pixel_count_def split: sum.splits)
qed

theorem valid_frames_encode_witness:
  "\<exists>w h out. encode (\<lambda>q d a b. Ok [q]) (encoder_new 720 200) sample_frame
     = Some (Ok \<lparr> enc_width = w, enc_height = h, enc_timestamp_us = 7, enc_data = [90] \<rparr>)"
proof -
  have v: "is_valid sample_frame" "frame_width sample_frame \<noteq> 0" "frame_height sample_frame \<noteq> 0"
    by (simp_all add: sample_frame_def is_valid_def expected_len_def pixel_count_def)
  obtain w h where f: "fit_dimensions (frame_width sample_frame) (frame_height sample_frame) (clamp 720 120 2160) = (w, h)"
    by force
  have "clamp 200 20 90 = (90 :: u8)" "timestamp_us sample_frame = 7" by (simp_all add: clamp_def sample_frame_def)
  with valid_frames_encode [OF v f, of "\<lambda>q d a b. Ok [q]" 200] show ?thesis by auto
qed

text \<open>
  The encoder looks at the length of the buffer only after it has scaled: a frame whose buffer is too short for
  its first pixel and that has to be scaled does not give \<open>InvalidFrame\<close> but panics in the copying loop.
\<close>

theorem short_frames_panic:
  assumes "length (frame_data f) < 4"
    and "fit_dimensions (frame_width f) (frame_height f) (enc_max_height enc) \<noteq> (frame_width f, frame_height f)"
  shows "encode jpeg enc f = None"
proof -
  obtain w h where wh: "fit_dimensions (frame_width f) (frame_height f) (enc_max_height enc) = (w, h)"
    by force
  then have nz: "w \<noteq> 0" "h \<noteq> 0"
    using fit_dimensions_nonzero [of "frame_width f"] by (metis fst_conv snd_conv)+
  have p: "0 < unat w" "0 < unat h" using nz by (simp_all add: unat_gt_0)
  then have m: "max w 1 = w" "max h 1 = h" by (auto simp: max_def word_le_nat_alt word_unat_eq_iff)
  have row: "copy_row (frame_data f) sw sy (unat w) dy [0..<unat w] out = None" for sw sy dy out
    using assms(1) p(1) by (simp add: upt_conv_Cons Let_def copy_pixel_def)
  then have "copy_rows (frame_data f) sw sh (unat w) dh [0..<unat h] out = None" for sw sh dh out
    using p(2) by (simp add: upt_conv_Cons Let_def)
  then have "scale_bgra_nearest f w h = None"
    using assms(2) wh unfolding scale_bgra_nearest_def Let_def m by auto
  with assms wh show ?thesis by (auto simp: encode_def downscale_to_max_height_def Let_def)
qed

section \<open>What a send does\<close>

text \<open>
  The regimes of \<open>send_frame\<close>. Without an open channel, or above the buffering bound, the frame is dropped
  and the peer is unchanged; a frame of more than 65535 chunks is refused before an identifier is spent on it;
  otherwise one identifier is spent whatever the channel answers, and the messages offered to the channel are the
  chunks of the frame, up to the first one the channel refuses.
\<close>

theorem send_frame_regimes:
  "send_frame api p f mb =
    (if \<not> frames_open api p \<or> mb < dc_buffered api (pc p) then (p, Ok False)
     else if FRAME_CHUNK_PAYLOAD * 65535 < length (enc_data f)
     then (p, Err (''frame too large to chunk: '' @ decimal (length (enc_data f)) @ '' bytes (''
            @ decimal (chunk_count (enc_data f)) @ '' chunks)''))
     else case send_all api (pc p) (frame_messages (frame_seq p) (enc_data f)) of
       (w, r) \<Rightarrow> (p\<lparr> frame_seq := frame_seq p + 1, pc := w \<rparr>,
         (case r of Inl e \<Rightarrow> Err (''send frame: '' @ e) | Inr _ \<Rightarrow> Ok True)))"
proof -
  have big: "chunk_count (enc_data f) > 2 ^ 16 - 1 \<longleftrightarrow> FRAME_CHUNK_PAYLOAD * 65535 < length (enc_data f)"
    by (auto simp: chunk_count_def FRAME_CHUNK_PAYLOAD_def FRAME_CHUNK_HEADER_LEN_def)
  have "send_chunks api w fid (chunk_count (enc_data f)) 0 (chunks FRAME_CHUNK_PAYLOAD (enc_data f))
     = (case send_all api w (frame_messages fid (enc_data f)) of
         (w', r) \<Rightarrow> (w', case r of Inl e \<Rightarrow> Err (''send frame: '' @ e) | Inr _ \<Rightarrow> Ok ()))" for w fid
  proof (cases "enc_data f = []")
    case True
    then show ?thesis by (simp add: frame_messages_def chunks.simps)
  next
    case False
    then show ?thesis by (simp add: send_chunks_all frame_messages_def Let_def chunk_count_eq)
  qed
  then show ?thesis unfolding send_frame_def Let_def big
    by (auto simp: frames_open_def split: prod.splits sum.splits)
qed

end
