(* ===== verification/Signaling.thy ===== *)
theory Signaling
  imports Agent_Error Guards
begin

text \<open>
  The signaling envelope, the replay guard (\<open>crates/transport/src/lib.rs\<close>) and the WebSocket transport
  (\<open>crates/transport/src/ws.rs\<close>). The socket is what the library hands out: a sink that accepts or
  refuses a text frame and a list of the events the stream will yield, whose end is the end of the
  stream. JSON encoding and decoding are parameters.
\<close>

section \<open>Envelopes\<close>

datatype signal_payload =
    Offer string
  | Answer string
  | IceCandidate string u16
  | Heartbeat
  | Bye
  | PeerJoined string
  | PeerLeft string

record signal_envelope =
  env_v :: u8
  env_nonce :: u64
  env_ts_ms :: u64
  env_session :: string
  env_payload :: signal_payload

text \<open>The clock yields the milliseconds since the epoch, \<open>None\<close> when it is set before it.\<close>

definition now_ms :: "nat option \<Rightarrow> u64" where
  "now_ms clock = (case clock of None \<Rightarrow> 0 | Some d \<Rightarrow> word_of_nat d)"

definition envelope_new :: "nat option \<Rightarrow> string \<Rightarrow> u64 \<Rightarrow> signal_payload \<Rightarrow> signal_envelope" where
  "envelope_new clock sid n p =
     \<lparr>env_v = 1, env_nonce = n, env_ts_ms = now_ms clock, env_session = sid, env_payload = p\<rparr>"

section \<open>The replay guard\<close>

record replay_guard =
  last_nonce :: "u64 option"

definition guard_new :: replay_guard where
  "guard_new = \<lparr>last_nonce = None\<rparr>"

definition guard_accept :: "replay_guard \<Rightarrow> u64 \<Rightarrow> replay_guard \<times> bool" where
  "guard_accept g n = (case last_nonce g of
     Some l \<Rightarrow> if n \<le> l then (g, False) else (g\<lparr>last_nonce := Some n\<rparr>, True)
   | None \<Rightarrow> (g\<lparr>last_nonce := Some n\<rparr>, True))"

interpretation nonce_guard: complete_guard
  "\<lambda>g. map_option unat (last_nonce g)" guard_accept unat
  by unfold_locales
     (auto simp: guard_accept_def fresh_for_def word_le_nat_alt split: option.splits if_splits)

section \<open>The WebSocket transport\<close>

text \<open>What the stream yields: messages of the protocol or a transport error.\<close>

datatype ws_event = Text string | Binary string | Ping | Pong | RawFrame | CloseMsg | StreamErr string

record ws_transport =
  ws_url :: string
  ws_session :: string
  ws_write :: "string list option"
  ws_read :: "ws_event list option"
  ws_connected :: bool
  ws_nonce :: u64

definition ws_new :: "string \<Rightarrow> string \<Rightarrow> string \<Rightarrow> string \<Rightarrow> ws_transport" where
  "ws_new base_url sid ticket role =
     (let sep = (if CHR ''?'' \<in> set base_url then ''&'' else ''?'');
          url = base_url @ sep @ ''ticket='' @ ticket @ ''&session='' @ sid @ ''&role='' @ role
      in \<lparr>ws_url = url, ws_session = sid, ws_write = None, ws_read = None,
          ws_connected = False, ws_nonce = 0\<rparr>)"

definition next_nonce :: "ws_transport \<Rightarrow> ws_transport \<times> u64" where
  "next_nonce w = (w\<lparr>ws_nonce := ws_nonce w + 1\<rparr>, ws_nonce w + 1)"

definition mark_disconnected :: "ws_transport \<Rightarrow> ws_transport" where
  "mark_disconnected w = w\<lparr>ws_connected := False\<rparr>"

text \<open>\<open>dial\<close> is \<open>connect_async\<close>: an error, or the events of a fresh stream.\<close>

definition ws_connect ::
    "(string \<Rightarrow> (ws_event list, string) result) \<Rightarrow> ws_transport \<Rightarrow> ws_transport \<times> unit agent_result" where
  "ws_connect dial w = (case dial (ws_url w) of
     Inl e \<Rightarrow> (w, Err (Transport (''signaling connect: '' @ e)))
   | Inr events \<Rightarrow> (w\<lparr>ws_write := Some [], ws_read := Some events, ws_connected := True\<rparr>, Ok ()))"

text \<open>The sink answers each text with an error message or accepts it.\<close>

definition ws_send ::
    "(signal_envelope \<Rightarrow> (string, string) result) \<Rightarrow> (string \<Rightarrow> string option) \<Rightarrow>
     ws_transport \<Rightarrow> signal_envelope \<Rightarrow> ws_transport \<times> unit agent_result" where
  "ws_send to_json sink w env = (case to_json env of
     Inl e \<Rightarrow> (w, Err (Serialization e))
   | Inr text \<Rightarrow> (case ws_write w of
       None \<Rightarrow> (w, Err (Transport ''send before connect''))
     | Some sent \<Rightarrow> (case sink text of
         None \<Rightarrow> (w\<lparr>ws_write := Some (sent @ [text])\<rparr>, Ok ())
       | Some e \<Rightarrow> (mark_disconnected w, Err (Transport (''signaling send: '' @ e))))))"

text \<open>
  The loop of \<open>recv\<close>: the remaining events, whether the transport was marked disconnected, and the
  result.
\<close>

fun recv_loop ::
    "(string \<Rightarrow> (signal_envelope, string) result) \<Rightarrow> (string \<Rightarrow> (signal_envelope, string) result) \<Rightarrow>
     ws_event list \<Rightarrow> ws_event list \<times> bool \<times> signal_envelope option agent_result" where
  "recv_loop from_str from_slice [] = ([], True, Ok None)"
| "recv_loop from_str from_slice (StreamErr e # es) = (es, True, Err (Transport (''signaling recv: '' @ e)))"
| "recv_loop from_str from_slice (Text t # es) = (es, False, (case from_str t of
     Inl e \<Rightarrow> Err (Serialization e) | Inr env \<Rightarrow> Ok (Some env)))"
| "recv_loop from_str from_slice (Binary t # es) = (es, False, (case from_slice t of
     Inl e \<Rightarrow> Err (Serialization e) | Inr env \<Rightarrow> Ok (Some env)))"
| "recv_loop from_str from_slice (CloseMsg # es) = (es, True, Ok None)"
| "recv_loop from_str from_slice (Ping # es) = recv_loop from_str from_slice es"
| "recv_loop from_str from_slice (Pong # es) = recv_loop from_str from_slice es"
| "recv_loop from_str from_slice (RawFrame # es) = recv_loop from_str from_slice es"

definition ws_recv ::
    "(string \<Rightarrow> (signal_envelope, string) result) \<Rightarrow> (string \<Rightarrow> (signal_envelope, string) result) \<Rightarrow>
     ws_transport \<Rightarrow> ws_transport \<times> signal_envelope option agent_result" where
  "ws_recv from_str from_slice w = (case ws_read w of
     None \<Rightarrow> (w, Err (Transport ''recv before connect''))
   | Some events \<Rightarrow>
       (let (rest, lost, r) = recv_loop from_str from_slice events;
            w' = w\<lparr>ws_read := Some rest\<rparr>
        in (if lost then mark_disconnected w' else w', r)))"


section \<open>Lemmas\<close>

text \<open>The nonces of \<open>n\<close> consecutive calls of \<open>next_nonce\<close>.\<close>

fun take_nonces :: "nat \<Rightarrow> ws_transport \<Rightarrow> u64 list" where
  "take_nonces 0 w = []"
| "take_nonces (Suc n) w = (let (w', k) = next_nonce w in k # take_nonces n w')"

lemma take_nonces_eq:
  "unat (ws_nonce w) + n < 2 ^ 64 \<Longrightarrow>
     map unat (take_nonces n w) = [unat (ws_nonce w) + 1 ..< unat (ws_nonce w) + n + 1]"
proof (induction n arbitrary: w)
  case (Suc n)
  have s: "unat (ws_nonce w + 1) = unat (ws_nonce w) + 1"
    using Suc.prems by (simp add: unat_word_ariths)
  have "map unat (take_nonces n (w\<lparr>ws_nonce := ws_nonce w + 1\<rparr>))
      = [unat (ws_nonce w) + 2 ..< unat (ws_nonce w) + n + 2]"
    using Suc.IH [of "w\<lparr>ws_nonce := ws_nonce w + 1\<rparr>"] Suc.prems s by simp
  then show ?case using s by (simp add: next_nonce_def upt_conv_Cons)
qed simp

text \<open>Calling \<open>recv\<close> \<open>n\<close> times.\<close>

fun recv_times where
  "recv_times from_str from_slice 0 w = (w, [])"
| "recv_times from_str from_slice (Suc n) w =
     (let (w1, r) = ws_recv from_str from_slice w;
          (w2, rs) = recv_times from_str from_slice n w1 in (w2, r # rs))"

text \<open>A healthy stream: control frames, and text frames that decode.\<close>

fun healthy_event :: "(string \<Rightarrow> (signal_envelope, string) result) \<Rightarrow> ws_event \<Rightarrow> bool" where
  "healthy_event from_str (Text t) = is_ok (from_str t)"
| "healthy_event from_str (Binary t) = False"
| "healthy_event from_str (StreamErr e) = False"
| "healthy_event from_str CloseMsg = False"
| "healthy_event from_str e = True"

fun envelopes :: "(string \<Rightarrow> (signal_envelope, string) result) \<Rightarrow> ws_event list \<Rightarrow> signal_envelope list" where
  "envelopes from_str [] = []"
| "envelopes from_str (Text t # es) = (case from_str t of
     Inl _ \<Rightarrow> envelopes from_str es | Inr env \<Rightarrow> env # envelopes from_str es)"
| "envelopes from_str (e # es) = envelopes from_str es"

lemma recv_loop_healthy:
  "list_all (healthy_event from_str) es \<Longrightarrow> envelopes from_str es = env # envs \<Longrightarrow>
    \<exists>rest. recv_loop from_str from_slice es = (rest, False, Ok (Some env))
      \<and> list_all (healthy_event from_str) rest \<and> envelopes from_str rest = envs"
proof (induction from_str from_slice es rule: recv_loop.induct)
  case (3 from_str from_slice t es)
  then show ?case by (cases "from_str t") auto
qed auto

lemma recv_loop_healthy_end:
  "list_all (healthy_event from_str) es \<Longrightarrow> envelopes from_str es = [] \<Longrightarrow>
    recv_loop from_str from_slice es = ([], True, Ok None)"
proof (induction from_str from_slice es rule: recv_loop.induct)
  case (3 from_str from_slice t es)
  then show ?case by (cases "from_str t") auto
qed auto

lemma recv_times_healthy:
  "ws_read w = Some es \<Longrightarrow> list_all (healthy_event from_str) es \<Longrightarrow> envelopes from_str es = envs \<Longrightarrow>
    recv_times from_str from_slice (Suc (length envs)) w =
      (w\<lparr>ws_read := Some [], ws_connected := False\<rparr>, map (\<lambda>e. Ok (Some e)) envs @ [Ok None])"
proof (induction envs arbitrary: w es)
  case Nil
  then show ?case using recv_loop_healthy_end [of from_str es from_slice]
    by (simp add: ws_recv_def mark_disconnected_def)
next
  case (Cons env envs)
  obtain rest where r: "recv_loop from_str from_slice es = (rest, False, Ok (Some env))"
    "list_all (healthy_event from_str) rest" "envelopes from_str rest = envs"
    using recv_loop_healthy [OF Cons.prems(2,3)] by blast
  let ?w = "w\<lparr>ws_read := Some rest\<rparr>"
  have "ws_recv from_str from_slice w = (?w, Ok (Some env))"
    using Cons.prems(1) r(1) by (simp add: ws_recv_def)
  moreover have "recv_times from_str from_slice (Suc (length envs)) ?w =
      (?w\<lparr>ws_read := Some [], ws_connected := False\<rparr>, map (\<lambda>e. Ok (Some e)) envs @ [Ok None])"
    using Cons.IH [of ?w rest] r by simp
  ultimately show ?case
    unfolding recv_times.simps(2) [of from_str from_slice "length (env # envs)"]
    by simp
qed

section \<open>Properties\<close>

text \<open>
  the replay guard accepts exactly the strict left-to-right maxima of the nonces it is shown:
  it never lets a stale or repeated nonce through and never refuses a fresh one.
\<close>

theorem guard_accepts_strict_maxima:
  "snd (feed guard_accept guard_new ns) = strict_maxima unat None ns"
  using nonce_guard.feed_strict_maxima [of guard_new ns] by (simp add: guard_new_def)

text \<open>
  sender and receiver fit: a guard lets every nonce through that a transport stamps on its
  envelopes, for the first \<open>2 ^ 64 - 1\<close> of them.
\<close>

theorem sender_nonces_accepted:
  assumes "n < 2 ^ 64"
  shows "snd (feed guard_accept guard_new (take_nonces n (ws_new base sid ticket role)))
    = take_nonces n (ws_new base sid ticket role)"
proof -
  let ?w = "ws_new base sid ticket role"
  have "map unat (take_nonces n ?w) = [1 ..< n + 1]"
    using take_nonces_eq [of ?w n] assms by (simp add: ws_new_def Let_def)
  then have "sorted_wrt (<) (map unat (take_nonces n ?w))" by (simp only: sorted_wrt_upt)
  then have "strict_maxima unat None (take_nonces n ?w) = take_nonces n ?w"
    by (intro strict_maxima_increasing) auto
  then show ?thesis using nonce_guard.feed_strict_maxima [of guard_new] by (simp add: guard_new_def)
qed

theorem sender_nonces_accepted_witness:
  "snd (feed guard_accept guard_new (take_nonces 3 (ws_new ''wss://h/ws'' ''s'' ''t'' ''agent''))) = [1, 2, 3]"
  using sender_nonces_accepted [of 3 "''wss://h/ws''" "''s''" "''t''" "''agent''"]
  by (simp add: numeral_3_eq_3 next_nonce_def ws_new_def)

text \<open>
  on a stream of control frames and decodable text frames, calling \<open>recv\<close> once per envelope
  and once more returns the envelopes in order, skipping the control frames, then reports the end
  of the stream and leaves the transport disconnected.
\<close>

theorem recv_delivers_in_order:
  assumes "ws_connect dial w = (w', Ok ())" "dial (ws_url w) = Ok es" "list_all (healthy_event from_str) es"
  shows "\<exists>w''. recv_times from_str from_slice (Suc (length (envelopes from_str es))) w' =
      (w'', map (\<lambda>e. Ok (Some e)) (envelopes from_str es) @ [Ok None]) \<and> \<not> ws_connected w''"
proof -
  have "ws_read w' = Some es" using assms(1,2) by (auto simp: ws_connect_def)
  from recv_times_healthy [OF this assms(3) refl] show ?thesis by simp
qed

definition sample_envelope :: signal_envelope where
  "sample_envelope = envelope_new (Some 7) ''s'' 1 Heartbeat"

definition sample_decode :: "string \<Rightarrow> (signal_envelope, string) result" where
  "sample_decode t = (if t = ''hb'' then Ok sample_envelope else Err ''bad'')"

theorem recv_delivers_in_order_witness:
  "\<exists>w''. recv_times sample_decode sample_decode 3
       (fst (ws_connect (\<lambda>u. Ok [Ping, Text ''hb'', Text ''hb'', Pong]) (ws_new ''ws://h'' ''s'' ''t'' ''agent'')))
     = (w'', [Ok (Some sample_envelope), Ok (Some sample_envelope), Ok None]) \<and> \<not> ws_connected w''"
proof -
  let ?es = "[Ping, Text ''hb'', Text ''hb'', Pong]" and ?w = "ws_new ''ws://h'' ''s'' ''t'' ''agent''"
  have "ws_connect (\<lambda>u. Ok ?es) ?w = (fst (ws_connect (\<lambda>u. Ok ?es) ?w), Ok ())"
    by (simp add: ws_connect_def)
  from recv_delivers_in_order [OF this refl, of sample_decode sample_decode] show ?thesis
    by (simp add: sample_decode_def numeral_3_eq_3)
qed

text \<open>
  the transport itself does no replay protection and does not look at its connection flag when
  sending: the same text frame arriving twice is delivered twice, and after the stream has ended an
  envelope is still handed to the sink.
\<close>

theorem transport_does_not_refuse:
  assumes "from_str t = Ok env" "to_json out = Ok text" "sink text = None"
    and "ws_read w = Some [Text t, Text t]" "ws_write w = Some sent"
  shows "\<exists>w1. recv_times from_str from_slice 3 w = (w1, [Ok (Some env), Ok (Some env), Ok None])
    \<and> \<not> ws_connected w1 \<and> snd (ws_send to_json sink w1 out) = Ok ()
    \<and> ws_write (fst (ws_send to_json sink w1 out)) = Some (sent @ [text])"
proof -
  have "recv_times from_str from_slice 3 w =
      (w\<lparr>ws_read := Some [], ws_connected := False\<rparr>, [Ok (Some env), Ok (Some env), Ok None])"
    using recv_times_healthy [OF assms(4), of from_str "[env, env]" from_slice] assms(1)
    by (simp add: numeral_3_eq_3)
  with assms show ?thesis by (simp add: ws_send_def)
qed

theorem transport_does_not_refuse_witness:
  "\<exists>w1. recv_times sample_decode sample_decode 3
      ((ws_new ''ws://h'' ''s'' ''t'' ''agent'')\<lparr>ws_read := Some [Text ''hb'', Text ''hb''], ws_write := Some []\<rparr>)
      = (w1, [Ok (Some sample_envelope), Ok (Some sample_envelope), Ok None])
    \<and> \<not> ws_connected w1 \<and> snd (ws_send (\<lambda>_. Ok ''hb'') (\<lambda>_. None) w1 sample_envelope) = Ok ()
    \<and> ws_write (fst (ws_send (\<lambda>_. Ok ''hb'') (\<lambda>_. None) w1 sample_envelope)) = Some ([] @ [''hb''])"
  by (rule transport_does_not_refuse [where t = "''hb''"]) (simp_all add: sample_decode_def)

end
