(* ===== verification/Runs.thy ===== *)
theory Runs
  imports Prelude
begin

text \<open>
  Runs of the agent's state machines. Each is driven by a list of labels (signaling events, turns of the tasks of a
  session) and emits something on the way (actions, envelopes). The locale \<open>labelled_run\<close> is the interface of such a
  machine; the rules for invariants are proved once, in it. An invariant may speak of what has been emitted so far and
  of a trace, a ghost that an observer \<open>watch\<close> collects from the label and the state before each step.
\<close>

fun trace :: "('x \<Rightarrow> 's \<Rightarrow> 's \<times> 'e list) \<Rightarrow> ('x \<Rightarrow> 's \<Rightarrow> 'g list) \<Rightarrow> 'x list \<Rightarrow> 's \<Rightarrow> 'g list" where
  "trace step watch [] s = []"
| "trace step watch (x # xs) s = watch x s @ (case step x s of (s1, _) \<Rightarrow> trace step watch xs s1)"

locale labelled_run =
  fixes step :: "'x \<Rightarrow> 's \<Rightarrow> 's \<times> 'e list"
    and run :: "'x list \<Rightarrow> 's \<Rightarrow> 's \<times> 'e list"
  assumes run_Nil: "run [] s = (s, [])"
    and run_Cons: "run (x # xs) s = (case step x s of (s1, o1) \<Rightarrow> case run xs s1 of (s2, o2) \<Rightarrow> (s2, o1 @ o2))"
begin

text \<open>The rule all others follow from.\<close>

lemma run_watched:
  assumes pres: "\<And>gs sent s x t out. I gs sent s \<Longrightarrow> step x s = (t, out) \<Longrightarrow> I (gs @ watch x s) (sent @ out) t"
  shows "I gs sent s \<Longrightarrow> run xs s = (t, out) \<Longrightarrow> I (gs @ trace step watch xs s) (sent @ out) t"
proof (induction xs arbitrary: gs sent s out)
  case Nil
  then show ?case by (simp add: run_Nil)
next
  case (Cons x xs)
  obtain s1 o1 where st: "step x s = (s1, o1)" by force
  obtain o2 where rn: "run xs s1 = (t, o2)" "out = o1 @ o2"
    using Cons.prems(2) st by (auto simp: run_Cons split: prod.splits)
  from Cons.IH [OF pres [OF Cons.prems(1) st] rn(1)] st rn(2) show ?case by simp
qed

text \<open>An invariant of the state and of what was emitted.\<close>

lemma run_invariant:
  assumes "\<And>sent s x t out. I sent s \<Longrightarrow> step x s = (t, out) \<Longrightarrow> I (sent @ out) t"
    and "I sent s" and "run xs s = (t, out)"
  shows "I (sent @ out) t"
  using run_watched [where I = "\<lambda>_. I" and watch = "\<lambda>_ _. []" and gs = "[]", OF _ assms(2,3)] assms(1) by blast

text \<open>The two forms that are used most: of a run from a fresh machine, and of the state alone.\<close>

lemma run_emits:
  assumes "run xs s = (t, out)" and "I [] s"
    and "\<And>sent u x v new. I sent u \<Longrightarrow> step x u = (v, new) \<Longrightarrow> I (sent @ new) v"
  shows "I out t"
  using run_invariant [where I = I and sent = "[]", OF assms(3,2,1)] by simp

lemma run_preserves:
  assumes "run xs s = (t, out)" and "P s" and "\<And>u x v new. P u \<Longrightarrow> step x u = (v, new) \<Longrightarrow> P v"
  shows "P t"
  by (rule run_emits [where I = "\<lambda>_. P", OF assms])

text \<open>A state that no label moves, and runs one after the other.\<close>

lemma run_quiet:
  assumes "\<And>x. step x s = (s, [])"
  shows "run xs s = (s, [])"
  by (induction xs) (simp_all add: run_Nil run_Cons assms)

lemma run_append:
  "run (xs @ ys) s = (case run xs s of (s1, o1) \<Rightarrow> case run ys s1 of (s2, o2) \<Rightarrow> (s2, o1 @ o2))"
  by (induction xs arbitrary: s) (simp_all add: run_Nil run_Cons split: prod.splits)

end

end
