(* ===== verification/Negotiation.thy ===== *)
theory Negotiation
  imports Signaling Runs
begin

text \<open>
  The WebRTC negotiation state machine (\<open>crates/transport/src/negotiation.rs\<close>): the record is the struct,
  each handler is one definition, \<open>on_signal\<close> dispatches. Runs over arbitrary events give the safety
  properties of one endpoint; the relation \<open>hs_step\<close> composes a controller and an agent over the
  relay for the properties of the handshake.
\<close>

section \<open>The machine\<close>

datatype negotiation_role = Controller | Agent

definition is_offerer :: "negotiation_role \<Rightarrow> bool" where
  "is_offerer r = (case r of Controller \<Rightarrow> True | Agent \<Rightarrow> False)"

datatype phase = WaitingForPeer | ReadyToNegotiate | Offered | Connecting | Connected | Closed

datatype negotiation_action =
    NoAction
  | CreateOffer
  | CreateAnswer string
  | ApplyAnswer string
  | AddIceCandidate string u16
  | Close

record negotiation_state =
  neg_role :: negotiation_role
  neg_phase :: phase
  neg_peer_present :: bool

definition negotiation_new :: "negotiation_role \<Rightarrow> negotiation_state" where
  "negotiation_new r = \<lparr>neg_role = r, neg_phase = WaitingForPeer, neg_peer_present = False\<rparr>"

definition on_connected :: "negotiation_state \<Rightarrow> negotiation_state" where
  "on_connected s = (if neg_phase s \<noteq> Closed then s\<lparr>neg_phase := Connected\<rparr> else s)"

definition neg_close :: "negotiation_state \<Rightarrow> negotiation_state \<times> negotiation_action" where
  "neg_close s = (if neg_phase s = Closed then (s, NoAction)
     else (s\<lparr>neg_phase := Closed, neg_peer_present := False\<rparr>, Close))"

definition on_peer_joined :: "negotiation_state \<Rightarrow> negotiation_state \<times> negotiation_action" where
  "on_peer_joined s = (if neg_phase s = Closed then (s, NoAction)
     else let s1 = s\<lparr>neg_peer_present := True\<rparr> in
       if neg_phase s1 = WaitingForPeer
       then let s2 = s1\<lparr>neg_phase := ReadyToNegotiate\<rparr> in
         if is_offerer (neg_role s2) then (s2\<lparr>neg_phase := Offered\<rparr>, CreateOffer) else (s2, NoAction)
       else (s1, NoAction))"

definition on_offer :: "negotiation_state \<Rightarrow> string \<Rightarrow> negotiation_state \<times> negotiation_action" where
  "on_offer s sdp = (if is_offerer (neg_role s) \<or> neg_phase s = Closed then (s, NoAction)
     else (s\<lparr>neg_phase := Connecting\<rparr>, CreateAnswer sdp))"

definition on_answer :: "negotiation_state \<Rightarrow> string \<Rightarrow> negotiation_state \<times> negotiation_action" where
  "on_answer s sdp = (if \<not> is_offerer (neg_role s) \<or> neg_phase s \<noteq> Offered then (s, NoAction)
     else (s\<lparr>neg_phase := Connecting\<rparr>, ApplyAnswer sdp))"

definition on_ice :: "negotiation_state \<Rightarrow> string \<Rightarrow> u16 \<Rightarrow> negotiation_state \<times> negotiation_action" where
  "on_ice s candidate idx = (case neg_phase s of
       Closed \<Rightarrow> (s, NoAction)
     | WaitingForPeer \<Rightarrow> (s, NoAction)
     | _ \<Rightarrow> (s, AddIceCandidate candidate idx))"

fun on_signal :: "negotiation_state \<Rightarrow> signal_payload \<Rightarrow> negotiation_state \<times> negotiation_action" where
  "on_signal s (PeerJoined _) = on_peer_joined s"
| "on_signal s (PeerLeft _) = neg_close s"
| "on_signal s Bye = neg_close s"
| "on_signal s (Offer sdp) = on_offer s sdp"
| "on_signal s (Answer sdp) = on_answer s sdp"
| "on_signal s (IceCandidate c i) = on_ice s c i"
| "on_signal s Heartbeat = (s, NoAction)"

section \<open>Runs\<close>

text \<open>Everything the runtime can do to the machine.\<close>

datatype neg_event = Signal signal_payload | IceConnected | ForceClose

fun neg_step :: "negotiation_state \<Rightarrow> neg_event \<Rightarrow> negotiation_state \<times> negotiation_action" where
  "neg_step s (Signal p) = on_signal s p"
| "neg_step s IceConnected = (on_connected s, NoAction)"
| "neg_step s ForceClose = neg_close s"

fun neg_run :: "negotiation_state \<Rightarrow> neg_event list \<Rightarrow> negotiation_state \<times> negotiation_action list" where
  "neg_run s [] = (s, [])"
| "neg_run s (e # es) = (let (s1, a) = neg_step s e; (s2, as) = neg_run s1 es in (s2, a # as))"

lemmas neg_defs = on_connected_def neg_close_def on_peer_joined_def on_offer_def on_answer_def
  on_ice_def is_offerer_def

text \<open>The invariant ties phase, role and presence together.\<close>

definition neg_ok :: "negotiation_state \<Rightarrow> bool" where
  "neg_ok s \<longleftrightarrow> (neg_phase s = ReadyToNegotiate \<longrightarrow> neg_role s = Agent \<and> neg_peer_present s)
     \<and> (neg_phase s = Offered \<longrightarrow> neg_role s = Controller \<and> neg_peer_present s)
     \<and> (neg_phase s \<in> {WaitingForPeer, Closed} \<longrightarrow> \<not> neg_peer_present s)"

lemma neg_ok_new: "neg_ok (negotiation_new r)"
  by (simp add: neg_ok_def negotiation_new_def)

lemma neg_step_ok:
  assumes "neg_ok s" "neg_step s e = (t, a)"
  shows "neg_ok t \<and> neg_role t = neg_role s"
proof (cases e)
  case (Signal p)
  with assms show ?thesis
    by (cases p; cases "neg_role s"; cases "neg_phase s") (auto simp: neg_ok_def neg_defs Let_def)
qed (use assms in \<open>auto simp: neg_ok_def neg_defs split: if_splits\<close>)

interpretation negotiation: labelled_run "\<lambda>e s. case neg_step s e of (t, a) \<Rightarrow> (t, [a])" "\<lambda>es s. neg_run s es"
  by unfold_locales (simp_all split: prod.splits)

lemma neg_run_ok: "neg_ok s \<Longrightarrow> neg_run s es = (t, as) \<Longrightarrow> neg_ok t \<and> neg_role t = neg_role s"
  by (rule negotiation.run_preserves [where P = "\<lambda>u. neg_ok u \<and> neg_role u = neg_role s"])
    (auto dest: neg_step_ok split: prod.splits)

text \<open>Once closed, always closed, and silent.\<close>

lemma neg_step_closed: "neg_phase s = Closed \<Longrightarrow> neg_step s e = (t, a) \<Longrightarrow> t = s \<and> a = NoAction"
proof (cases e)
  case (Signal p)
  then show "neg_phase s = Closed \<Longrightarrow> neg_step s e = (t, a) \<Longrightarrow> ?thesis"
    by (cases p) (auto simp: neg_defs split: negotiation_role.splits)
qed (auto simp: neg_defs)

lemma neg_run_closed: "neg_phase s = Closed \<Longrightarrow> neg_run s es = (s, replicate (length es) NoAction)"
proof (induction es)
  case (Cons e es)
  obtain t a where st: "neg_step s e = (t, a)" by force
  from neg_step_closed [OF Cons.prems st] Cons show ?case by (simp add: st)
qed simp

text \<open>The action tells what the step did to the phase.\<close>

lemma neg_step_actions:
  assumes "neg_step s e = (t, a)"
  shows "(a = CreateOffer \<longrightarrow> neg_role s = Controller \<and> neg_phase s = WaitingForPeer \<and> neg_phase t = Offered)
    \<and> (\<forall>x. a = ApplyAnswer x \<longrightarrow> neg_role s = Controller \<and> neg_phase s = Offered \<and> neg_phase t = Connecting)
    \<and> (\<forall>x. a = CreateAnswer x \<longrightarrow> neg_role s = Agent \<and> neg_phase s \<noteq> Closed \<and> neg_phase t = Connecting)
    \<and> (\<forall>x i. a = AddIceCandidate x i \<longrightarrow> t = s \<and> neg_phase s \<notin> {WaitingForPeer, Closed})
    \<and> (a = Close \<longrightarrow> neg_phase s \<noteq> Closed \<and> neg_phase t = Closed)"
proof (cases e)
  case (Signal p)
  with assms show ?thesis
    by (cases p; cases "neg_role s"; cases "neg_phase s") (auto simp: neg_defs Let_def)
qed (use assms in \<open>auto simp: neg_defs split: if_splits\<close>)

text \<open>What only the other role may ask for.\<close>

definition keeps_role :: "negotiation_role \<Rightarrow> negotiation_action \<Rightarrow> bool" where
  "keeps_role r a \<longleftrightarrow> (r = Controller \<longrightarrow> (\<forall>x. a \<noteq> CreateAnswer x)) \<and> (r = Agent \<longrightarrow> a \<noteq> CreateOffer \<and> (\<forall>x. a \<noteq> ApplyAnswer x))"

lemma neg_step_keeps_role: "neg_step s e = (t, a) \<Longrightarrow> keeps_role (neg_role s) a"
  using neg_step_actions [of s e t a] by (auto simp: keeps_role_def)

text \<open>The phases in the order the offerer passes them; it never goes back.\<close>

fun phase_rank :: "phase \<Rightarrow> nat" where
  "phase_rank WaitingForPeer = 0"
| "phase_rank ReadyToNegotiate = 1"
| "phase_rank Offered = 2"
| "phase_rank Connecting = 3"
| "phase_rank Connected = 4"
| "phase_rank Closed = 5"

lemma phase_rank_inject: "phase_rank p = phase_rank q \<longleftrightarrow> p = q"
  by (cases p; cases q) auto

instantiation phase :: linorder
begin

definition less_eq_phase :: "phase \<Rightarrow> phase \<Rightarrow> bool" where "p \<le> q \<longleftrightarrow> phase_rank p \<le> phase_rank q"
definition less_phase :: "phase \<Rightarrow> phase \<Rightarrow> bool" where "p < q \<longleftrightarrow> phase_rank p < phase_rank q"

instance
  by intro_classes (auto simp: less_eq_phase_def less_phase_def phase_rank_inject)

end

lemmas phase_order = less_eq_phase_def less_phase_def

lemma neg_step_advances:
  "neg_role s = Controller \<Longrightarrow> neg_step s e = (t, a) \<Longrightarrow> neg_phase s \<le> neg_phase t"
proof (cases e)
  case (Signal p)
  then show "neg_role s = Controller \<Longrightarrow> neg_step s e = (t, a) \<Longrightarrow> ?thesis"
    by (cases p; cases "neg_phase s") (auto simp: neg_defs phase_order Let_def)
qed (cases "neg_phase s"; auto simp: neg_defs phase_order)+

lemma past_the_wait: "p \<noteq> WaitingForPeer \<longleftrightarrow> WaitingForPeer < p"
  by (cases p) (simp_all add: phase_order)

text \<open>The controller's offer: none after the wait is over; its answer: none after it was applied.\<close>

definition is_apply :: "negotiation_action \<Rightarrow> bool" where
  "is_apply a = (case a of ApplyAnswer _ \<Rightarrow> True | _ \<Rightarrow> False)"

lemma is_apply_iff: "is_apply a \<longleftrightarrow> (\<exists>x. a = ApplyAnswer x)"
  by (cases a) (auto simp: is_apply_def)

text \<open>What a controller has asked for, in order, against its phase.\<close>

definition asked_once :: "negotiation_action list \<Rightarrow> negotiation_state \<Rightarrow> bool" where
  "asked_once as s \<longleftrightarrow> neg_ok s \<and> neg_role s = Controller
     \<and> count_list as CreateOffer \<le> 1 \<and> length (filter is_apply as) \<le> 1
     \<and> (neg_phase s = WaitingForPeer \<longrightarrow> CreateOffer \<notin> set as)
     \<and> (neg_phase s \<le> Offered \<longrightarrow> \<not> list_ex is_apply as)
     \<and> (neg_phase s = Offered \<longrightarrow> CreateOffer \<in> set as)
     \<and> (\<forall>pre a post. as = pre @ a # post \<and> is_apply a \<longrightarrow> CreateOffer \<in> set pre)"

lemma becomes_offered:
  "neg_step s e = (t, a) \<Longrightarrow> neg_phase t = Offered \<Longrightarrow> neg_phase s = Offered \<or> a = CreateOffer"
proof (cases e)
  case (Signal p)
  then show "neg_step s e = (t, a) \<Longrightarrow> neg_phase t = Offered \<Longrightarrow> ?thesis"
    by (cases p; cases "neg_phase s") (auto simp: neg_defs Let_def split: if_splits)
qed (auto simp: neg_defs split: if_splits)

lemma asked_in_order_snoc:
  assumes "\<forall>pre a post. as = pre @ a # post \<and> is_apply a \<longrightarrow> CreateOffer \<in> set pre"
    and "is_apply b \<Longrightarrow> CreateOffer \<in> set as"
  shows "\<forall>pre a post. as @ [b] = pre @ a # post \<and> is_apply a \<longrightarrow> CreateOffer \<in> set pre"
proof (intro allI impI)
  fix pre a post assume h: "as @ [b] = pre @ a # post \<and> is_apply a"
  show "CreateOffer \<in> set pre"
    using h assms by (cases post rule: rev_cases) auto
qed

lemma asked_once_step:
  assumes inv: "asked_once as s" and st: "neg_step s e = (t, a)"
  shows "asked_once (as @ [a]) t"
proof -
  have s: "neg_ok s" "neg_role s = Controller" using inv by (auto simp: asked_once_def)
  note ok = neg_step_ok [OF s(1) st] and acts = neg_step_actions [OF st]
    and adv = neg_step_advances [OF s(2) st] and off = becomes_offered [OF st]
  have ord: "\<forall>pre b post. as @ [a] = pre @ b # post \<and> is_apply b \<longrightarrow> CreateOffer \<in> set pre"
    by (rule asked_in_order_snoc) (use inv acts in \<open>auto simp: asked_once_def is_apply_iff\<close>)
  consider (offer) "a = CreateOffer" | (applied) x where "a = ApplyAnswer x"
    | (other) "a \<noteq> CreateOffer" "\<not> is_apply a" by (auto simp: is_apply_iff)
  then show ?thesis
  proof cases
    case offer
    then have "neg_phase s = WaitingForPeer" "neg_phase t = Offered" using acts by auto
    with inv offer ok s ord show ?thesis by (auto simp: asked_once_def is_apply_def phase_order count_list_0_iff filter_empty_conv list_ex_iff)
  next
    case applied
    then have "neg_phase s = Offered" "neg_phase t = Connecting" using acts by auto
    with inv applied ok s ord show ?thesis by (auto simp: asked_once_def is_apply_def phase_order filter_empty_conv list_ex_iff)
  next
    case other
    have "neg_phase t = WaitingForPeer \<Longrightarrow> neg_phase s = WaitingForPeer" using adv by (cases "neg_phase s") (auto simp: phase_order)
    moreover have "neg_phase t \<le> Offered \<Longrightarrow> neg_phase s \<le> Offered" using adv by simp
    ultimately show ?thesis using inv other ok s ord off unfolding asked_once_def by auto
  qed
qed

lemma neg_run_asked_once:
  assumes "neg_run (negotiation_new Controller) es = (t, as)"
  shows "asked_once as t"
proof (rule negotiation.run_emits [OF assms])
  show "asked_once [] (negotiation_new Controller)"
    using neg_ok_new [of Controller] by (simp add: asked_once_def negotiation_new_def)
qed (auto dest: asked_once_step split: prod.splits)

section \<open>The handshake of two endpoints\<close>

text \<open>
  Both endpoints and the two directions of the relay. \<open>offered\<close> and \<open>applied\<close> record the offer the
  controller made and the answer it applied; \<open>answer_for\<close> is what the agent's peer connection answers
  to an offer.
\<close>

record handshake =
  ctl :: negotiation_state
  agt :: negotiation_state
  to_agt :: "signal_payload list"
  to_ctl :: "signal_payload list"
  offered :: "string option"
  applied :: "string option"

definition handshake_init :: handshake where
  "handshake_init = \<lparr>ctl = negotiation_new Controller, agt = negotiation_new Agent,
     to_agt = [], to_ctl = [], offered = None, applied = None\<rparr>"

text \<open>Executing the action an endpoint's machine asks for.\<close>

definition ctl_act :: "string \<Rightarrow> handshake \<Rightarrow> negotiation_state \<times> negotiation_action \<Rightarrow> handshake" where
  "ctl_act sdp h r = (let h' = h\<lparr>ctl := fst r\<rparr> in
     case snd r of
       CreateOffer \<Rightarrow> h'\<lparr>to_agt := to_agt h' @ [Offer sdp], offered := Some sdp\<rparr>
     | ApplyAnswer a \<Rightarrow> h'\<lparr>applied := Some a\<rparr>
     | _ \<Rightarrow> h')"

definition agt_act :: "(string \<Rightarrow> string) \<Rightarrow> handshake \<Rightarrow> negotiation_state \<times> negotiation_action \<Rightarrow> handshake" where
  "agt_act answer_for h r = (let h' = h\<lparr>agt := fst r\<rparr> in
     case snd r of
       CreateAnswer x \<Rightarrow> h'\<lparr>to_ctl := to_ctl h' @ [Answer (answer_for x)]\<rparr>
     | _ \<Rightarrow> h')"

definition server_event :: "signal_payload \<Rightarrow> bool" where
  "server_event p = (case p of PeerJoined _ \<Rightarrow> True | PeerLeft _ \<Rightarrow> True | Heartbeat \<Rightarrow> True
     | IceCandidate _ _ \<Rightarrow> True | Bye \<Rightarrow> True | _ \<Rightarrow> False)"

inductive hs_step :: "(string \<Rightarrow> string) \<Rightarrow> handshake \<Rightarrow> handshake \<Rightarrow> bool" for answer_for where
  ctl_server: "server_event p \<Longrightarrow> hs_step answer_for h (ctl_act sdp h (on_signal (ctl h) p))"
| agt_server: "server_event p \<Longrightarrow> hs_step answer_for h (agt_act answer_for h (on_signal (agt h) p))"
| ctl_recv: "to_ctl h = p # rest \<Longrightarrow>
    hs_step answer_for h (ctl_act sdp (h\<lparr>to_ctl := rest\<rparr>) (on_signal (ctl h) p))"
| agt_recv: "to_agt h = p # rest \<Longrightarrow>
    hs_step answer_for h (agt_act answer_for (h\<lparr>to_agt := rest\<rparr>) (on_signal (agt h) p))"
| ctl_ice: "hs_step answer_for h (h\<lparr>ctl := on_connected (ctl h)\<rparr>)"
| agt_ice: "hs_step answer_for h (h\<lparr>agt := on_connected (agt h)\<rparr>)"

inductive hs_reach :: "(string \<Rightarrow> string) \<Rightarrow> handshake \<Rightarrow> bool" for answer_for where
  hs_start: "hs_reach answer_for handshake_init"
| hs_next: "hs_reach answer_for h \<Longrightarrow> hs_step answer_for h h' \<Longrightarrow> hs_reach answer_for h'"

text \<open>The inductive invariant of the composition.\<close>

definition hs_inv :: "(string \<Rightarrow> string) \<Rightarrow> handshake \<Rightarrow> bool" where
  "hs_inv answer_for h \<longleftrightarrow> neg_ok (ctl h) \<and> neg_ok (agt h)
     \<and> neg_role (ctl h) = Controller \<and> neg_role (agt h) = Agent
     \<and> (\<forall>p \<in> set (to_agt h). \<exists>x. p = Offer x \<and> offered h = Some x)
     \<and> (\<forall>p \<in> set (to_ctl h). \<exists>x. p = Answer (answer_for x) \<and> offered h = Some x)
     \<and> (\<forall>a. applied h = Some a \<longrightarrow> (\<exists>x. offered h = Some x \<and> a = answer_for x))
     \<and> (neg_phase (ctl h) = WaitingForPeer \<longrightarrow> offered h = None)"

lemma hs_inv_init: "hs_inv answer_for handshake_init"
  using neg_ok_new by (simp add: hs_inv_def handshake_init_def negotiation_new_def)

lemma on_signal_neg_step: "on_signal s p = neg_step s (Signal p)"
  by simp

lemma ctl_signal_inv:
  assumes "neg_ok c" "neg_role c = Controller" "on_signal c p = (c', a)"
  shows "neg_ok c' \<and> neg_role c' = Controller \<and> (neg_phase c' = WaitingForPeer \<longrightarrow> neg_phase c = WaitingForPeer)
    \<and> (a = CreateOffer \<longrightarrow> neg_phase c = WaitingForPeer \<and> neg_phase c' \<noteq> WaitingForPeer)
    \<and> (\<forall>x. a = ApplyAnswer x \<longrightarrow> p = Answer x)"
proof -
  have st: "neg_step c (Signal p) = (c', a)" using assms(3) by simp
  have "neg_phase c' = WaitingForPeer \<Longrightarrow> neg_phase c = WaitingForPeer"
    using neg_step_advances [OF assms(2) st] by (cases "neg_phase c") (auto simp: phase_order)
  moreover have "a = ApplyAnswer x \<Longrightarrow> p = Answer x" for x
    using assms(3) by (cases p) (auto simp: neg_defs Let_def split: if_splits phase.splits)
  ultimately show ?thesis using neg_step_ok [OF assms(1) st] neg_step_actions [OF st] assms(2) by auto
qed

lemma ctl_act_inv:
  assumes "hs_inv answer_for h" "on_signal (ctl h) p = r"
    and "\<forall>x. p = Answer x \<longrightarrow> (\<exists>y. offered h = Some y \<and> x = answer_for y)"
  shows "hs_inv answer_for (ctl_act sdp h r)"
proof -
  obtain c' a where r: "r = (c', a)" by force
  have ok: "neg_ok (ctl h)" "neg_role (ctl h) = Controller" using assms(1) by (auto simp: hs_inv_def)
  note c = ctl_signal_inv [OF ok, of p c' a] assms(2) r
  have free: "a = CreateOffer \<Longrightarrow> to_agt h = [] \<and> to_ctl h = [] \<and> applied h = None"
    using c assms(1) by (cases "to_agt h"; cases "to_ctl h"; cases "applied h") (auto simp: hs_inv_def)
  show ?thesis
    using c assms(1,3) free by (cases a) (auto simp: hs_inv_def ctl_act_def Let_def)
qed

lemma agt_act_inv:
  assumes "hs_inv answer_for h" "on_signal (agt h) p = r" "\<forall>x. p = Offer x \<longrightarrow> offered h = Some x"
  shows "hs_inv answer_for (agt_act answer_for h r)"
proof -
  obtain c' a where r: "r = (c', a)" by force
  have st: "neg_step (agt h) (Signal p) = (c', a)" using assms(2) r by simp
  have "neg_ok (agt h)" "neg_role (agt h) = Agent" using assms(1) by (auto simp: hs_inv_def)
  with neg_step_ok [OF _ st] have ok: "neg_ok c'" "neg_role c' = Agent" by auto
  have "a = CreateAnswer x \<Longrightarrow> p = Offer x" for x
    using assms(2) r by (cases p) (auto simp: neg_defs Let_def split: if_splits phase.splits)
  with ok assms(1,3) r show ?thesis
    by (cases a) (auto simp: hs_inv_def agt_act_def Let_def)
qed

lemma hs_step_inv: "hs_step answer_for h h' \<Longrightarrow> hs_inv answer_for h \<Longrightarrow> hs_inv answer_for h'"
proof (induction rule: hs_step.induct)
  case (ctl_server p h sdp)
  then show ?case by (intro ctl_act_inv [OF _ refl]) (auto simp: server_event_def)
next
  case (agt_server p h)
  then show ?case by (intro agt_act_inv [OF _ refl]) (auto simp: server_event_def)
next
  case (ctl_recv h p rest sdp)
  then have "hs_inv answer_for (h\<lparr>to_ctl := rest\<rparr>)" by (auto simp: hs_inv_def)
  then show ?case using ctl_recv by (intro ctl_act_inv) (auto simp: hs_inv_def)
next
  case (agt_recv h p rest)
  then have "hs_inv answer_for (h\<lparr>to_agt := rest\<rparr>)" by (auto simp: hs_inv_def)
  then show ?case using agt_recv by (intro agt_act_inv) (auto simp: hs_inv_def)
qed (auto simp: hs_inv_def neg_ok_def on_connected_def)

lemma hs_reach_inv: "hs_reach answer_for h \<Longrightarrow> hs_inv answer_for h"
  by (induction rule: hs_reach.induct) (auto intro: hs_inv_init hs_step_inv)

text \<open>An unanswered offer is always in transit, unless the agent has closed.\<close>

definition hs_live :: "handshake \<Rightarrow> bool" where
  "hs_live h \<longleftrightarrow> (neg_phase (ctl h) = Offered \<and> neg_phase (agt h) \<noteq> Closed \<longrightarrow> to_agt h \<noteq> [] \<or> to_ctl h \<noteq> [])"

lemma agt_answers_offer:
  assumes "neg_role g = Agent"
  shows "on_offer g x = (if neg_phase g = Closed then (g, NoAction)
    else (g\<lparr>neg_phase := Connecting\<rparr>, CreateAnswer x))"
  using assms by (simp add: neg_defs)

lemma ctl_takes_answer:
  assumes "neg_role c = Controller"
  shows "on_answer c x = (if neg_phase c = Offered
    then (c\<lparr>neg_phase := Connecting\<rparr>, ApplyAnswer x) else (c, NoAction))"
  using assms by (simp add: neg_defs)

lemma ctl_server_live:
  assumes "server_event p" "neg_role c = Controller" "on_signal c p = (c', a)" "neg_phase c' = Offered"
  shows "a = CreateOffer \<or> neg_phase c = Offered \<and> (\<forall>x. a \<noteq> ApplyAnswer x)"
  using assms by (cases p; cases "neg_phase c") (auto simp: server_event_def neg_defs Let_def)

lemma agt_server_live:
  assumes "on_signal g p = (g', a)" "neg_phase g' \<noteq> Closed"
  shows "neg_phase g \<noteq> Closed"
  using neg_step_closed [of g "Signal p" g' a] assms by auto

lemma hs_step_live: "hs_step answer_for h h' \<Longrightarrow> hs_inv answer_for h \<Longrightarrow> hs_live h \<Longrightarrow> hs_live h'"
proof (induction rule: hs_step.induct)
  case (ctl_server p h sdp)
  obtain c' a where sg: "on_signal (ctl h) p = (c', a)" by force
  have "neg_role (ctl h) = Controller" using ctl_server.prems(1) by (simp add: hs_inv_def)
  from ctl_server_live [OF ctl_server.hyps this sg] ctl_server.prems(2) show ?case
    by (cases a) (auto simp: hs_live_def ctl_act_def sg Let_def)
next
  case (agt_server p h)
  obtain g' a where sg: "on_signal (agt h) p = (g', a)" by force
  from agt_server_live [OF sg] agt_server.prems(2) show ?case
    by (cases a) (auto simp: hs_live_def agt_act_def sg Let_def)
next
  case (ctl_recv h p rest sdp)
  then obtain x where "p = Answer (answer_for x)" "neg_role (ctl h) = Controller"
    by (auto simp: hs_inv_def)
  with ctl_recv show ?case by (auto simp: hs_live_def ctl_act_def ctl_takes_answer Let_def)
next
  case (agt_recv h p rest)
  then obtain x where "p = Offer x" "neg_role (agt h) = Agent"
    by (auto simp: hs_inv_def)
  with agt_recv show ?case by (auto simp: hs_live_def agt_act_def agt_answers_offer Let_def)
qed (auto simp: hs_live_def on_connected_def split: if_splits)

lemma hs_reach_live: "hs_reach answer_for h \<Longrightarrow> hs_live h"
proof (induction rule: hs_reach.induct)
  case hs_start
  show ?case by (simp add: hs_live_def handshake_init_def negotiation_new_def)
qed (auto intro: hs_step_live hs_reach_inv)

section \<open>Deliveries\<close>

text \<open>The steps that take a description from the relay, and nothing else.\<close>

inductive hs_deliver :: "(string \<Rightarrow> string) \<Rightarrow> handshake \<Rightarrow> handshake \<Rightarrow> bool" for answer_for where
  deliver_ctl: "to_ctl h = p # rest \<Longrightarrow>
    hs_deliver answer_for h (ctl_act sdp (h\<lparr>to_ctl := rest\<rparr>) (on_signal (ctl h) p))"
| deliver_agt: "to_agt h = p # rest \<Longrightarrow>
    hs_deliver answer_for h (agt_act answer_for (h\<lparr>to_agt := rest\<rparr>) (on_signal (agt h) p))"

inductive_cases hs_deliverE [consumes 1, case_names ctl agt]: "hs_deliver answer_for h h'"
inductive_cases hs_stepE [consumes 1, case_names ctl_server agt_server ctl_recv agt_recv ctl_ice agt_ice]: "hs_step answer_for h h'"

lemma hs_deliver_step: "hs_deliver answer_for h h' \<Longrightarrow> hs_step answer_for h h'"
  by (elim hs_deliverE) (auto intro: ctl_recv agt_recv)

text \<open>What a delivery costs: an offer may still cause an answer, an answer causes nothing.\<close>

definition in_transit :: "handshake \<Rightarrow> nat" where
  "in_transit h = length (to_agt h) + length (to_ctl h)"

definition pending_work :: "handshake \<Rightarrow> nat" where
  "pending_work h = 2 * length (to_agt h) + length (to_ctl h)"

lemma hs_deliver_work:
  assumes "hs_inv answer_for h" and "hs_deliver answer_for h h'"
  shows "pending_work h' < pending_work h"
  using assms(2)
proof (cases rule: hs_deliverE)
  case (ctl p rest sdp)
  then obtain x where "p = Answer (answer_for x)" "neg_role (ctl h) = Controller" using assms(1) by (auto simp: hs_inv_def)
  with ctl show ?thesis by (auto simp: pending_work_def ctl_act_def ctl_takes_answer Let_def)
next
  case (agt p rest)
  then obtain x where "p = Offer x" "neg_role (agt h) = Agent" using assms(1) by (auto simp: hs_inv_def)
  with agt show ?thesis by (auto simp: pending_work_def agt_act_def agt_answers_offer Let_def)
qed

lemma ctl_act_transit:
  assumes "hs_inv answer_for h" and "on_signal (ctl h) p = r"
  shows "in_transit (ctl_act sdp h r) \<le> max 1 (in_transit h)"
proof -
  obtain c' a where r: "r = (c', a)" by force
  have ok: "neg_ok (ctl h)" "neg_role (ctl h) = Controller" using assms(1) by (auto simp: hs_inv_def)
  have "a = CreateOffer \<Longrightarrow> to_agt h = [] \<and> to_ctl h = []"
    using ctl_signal_inv [OF ok, of p c' a] assms r by (cases "to_agt h"; cases "to_ctl h") (auto simp: hs_inv_def)
  then show ?thesis using r by (cases a) (auto simp: in_transit_def ctl_act_def Let_def)
qed

lemma hs_step_transit:
  assumes "hs_step answer_for h h'" and "hs_inv answer_for h" and "in_transit h \<le> 1"
  shows "in_transit h' \<le> 1"
  using assms(1)
proof (cases rule: hs_stepE)
  case (ctl_server p sdp)
  then show ?thesis using ctl_act_transit [OF assms(2) refl, of sdp p] assms(3) by simp
next
  case (agt_server p)
  obtain g' a where sg: "on_signal (agt h) p = (g', a)" by force
  have "a = CreateAnswer x \<Longrightarrow> False" for x
    using sg agt_server(2) by (cases p) (auto simp: server_event_def neg_defs Let_def split: if_splits phase.splits)
  then show ?thesis using agt_server sg assms(3) by (cases a) (auto simp: in_transit_def agt_act_def Let_def)
next
  case (ctl_recv p rest sdp)
  then have "in_transit (ctl_act sdp (h\<lparr>to_ctl := rest\<rparr>) (on_signal (ctl (h\<lparr>to_ctl := rest\<rparr>)) p)) \<le> max 1 (in_transit (h\<lparr>to_ctl := rest\<rparr>))"
    using assms(2) by (intro ctl_act_transit [OF _ refl]) (auto simp: hs_inv_def)
  with ctl_recv assms(3) show ?thesis by (simp add: in_transit_def)
next
  case (agt_recv p rest)
  then obtain x where "p = Offer x" "neg_role (agt h) = Agent" using assms(2) by (auto simp: hs_inv_def)
  with agt_recv assms(3) show ?thesis by (auto simp: in_transit_def agt_act_def agt_answers_offer Let_def)
qed (use assms(3) in \<open>auto simp: in_transit_def\<close>)

lemma hs_reach_transit: "hs_reach answer_for h \<Longrightarrow> in_transit h \<le> 1"
proof (induction rule: hs_reach.induct)
  case hs_start
  show ?case by (simp add: in_transit_def handshake_init_def)
next
  case (hs_next h h')
  show ?case by (rule hs_step_transit [OF hs_next.hyps(2) hs_reach_inv [OF hs_next.hyps(1)] hs_next.IH])
qed

lemma deliveries_bounded:
  "(hs_deliver answer_for ^^ n) h h' \<Longrightarrow> hs_inv answer_for h \<Longrightarrow> hs_inv answer_for h' \<and> n + pending_work h' \<le> pending_work h"
proof (induction n arbitrary: h')
  case (Suc n)
  then obtain g where g: "(hs_deliver answer_for ^^ n) h g" "hs_deliver answer_for g h'" by auto
  from Suc.IH [OF g(1) Suc.prems(2)] hs_deliver_work [of answer_for g h'] hs_step_inv [OF hs_deliver_step [OF g(2)]] g(2)
  show ?case by auto
qed simp

lemma deliveries_end:
  "hs_inv answer_for h \<Longrightarrow> \<exists>h'. (hs_deliver answer_for)\<^sup>*\<^sup>* h h' \<and> in_transit h' = 0"
proof (induction "pending_work h" arbitrary: h rule: less_induct)
  case less
  show ?case
  proof (cases "\<exists>g. hs_deliver answer_for h g")
    case True
    then obtain g where g: "hs_deliver answer_for h g" by blast
    from less.hyps [OF hs_deliver_work [OF less.prems g] hs_step_inv [OF hs_deliver_step [OF g] less.prems]] g
    show ?thesis by (meson converse_rtranclp_into_rtranclp)
  next
    case False
    then have "to_agt h = [] \<and> to_ctl h = []"
      by (cases "to_agt h"; cases "to_ctl h") (auto intro: deliver_ctl deliver_agt)
    then show ?thesis by (intro exI [of _ h]) (simp add: in_transit_def)
  qed
qed

section \<open>Properties\<close>

text \<open>
  over any sequence of events a controller offers at most once and applies an answer at most
  once, and only after it has offered; a late or second answer is ignored.
\<close>

theorem controller_offers_once:
  assumes "neg_run (negotiation_new Controller) es = (t, as)"
  shows "count_list as CreateOffer \<le> 1 \<and> length (filter is_apply as) \<le> 1
    \<and> (\<forall>pre a post. as = pre @ a # post \<and> is_apply a \<longrightarrow> CreateOffer \<in> set pre)"
  using neg_run_asked_once [OF assms] unfolding asked_once_def by blast

theorem controller_offers_once_witness:
  "neg_run (negotiation_new Controller) [Signal (Answer ''x''), Signal (PeerJoined ''agent''),
       Signal (PeerJoined ''agent''), Signal (Answer ''y''), Signal (Answer ''z'')]
     = (\<lparr>neg_role = Controller, neg_phase = Connecting, neg_peer_present = True\<rparr>,
        [NoAction, CreateOffer, NoAction, ApplyAnswer ''y'', NoAction])
   \<and> count_list [NoAction, CreateOffer, NoAction, ApplyAnswer ''y'', NoAction] CreateOffer \<le> 1"
proof -
  have r: "neg_run (negotiation_new Controller) [Signal (Answer ''x''), Signal (PeerJoined ''agent''),
       Signal (PeerJoined ''agent''), Signal (Answer ''y''), Signal (Answer ''z'')]
     = (\<lparr>neg_role = Controller, neg_phase = Connecting, neg_peer_present = True\<rparr>,
        [NoAction, CreateOffer, NoAction, ApplyAnswer ''y'', NoAction])"
    by (simp add: negotiation_new_def neg_defs)
  with controller_offers_once [OF r] show ?thesis by blast
qed

text \<open>
  the roles never mix: whatever it is sent, a controller never answers an offer, and an agent
  never offers or applies an answer; both keep the phase invariant.
\<close>

theorem roles_never_mix:
  assumes "neg_run (negotiation_new r) es = (t, as)"
  shows "(\<forall>a. a \<in> set as \<longrightarrow> (r = Controller \<longrightarrow> (\<forall>x. a \<noteq> CreateAnswer x))
    \<and> (r = Agent \<longrightarrow> a \<noteq> CreateOffer \<and> (\<forall>x. a \<noteq> ApplyAnswer x))) \<and> neg_ok t"
proof -
  have "(\<lambda>as u. neg_ok u \<and> neg_role u = r \<and> (\<forall>a \<in> set as. keeps_role r a)) as t"
  proof (rule negotiation.run_emits [OF assms])
    show "neg_ok (negotiation_new r) \<and> neg_role (negotiation_new r) = r \<and> (\<forall>a \<in> set []. keeps_role r a)"
      using neg_ok_new by (simp add: negotiation_new_def)
  next
    fix sent u e v new
    assume "neg_ok u \<and> neg_role u = r \<and> (\<forall>a \<in> set sent. keeps_role r a)"
      and "(case neg_step u e of (t, a) \<Rightarrow> (t, [a])) = (v, new)"
    then show "neg_ok v \<and> neg_role v = r \<and> (\<forall>a \<in> set (sent @ new). keeps_role r a)"
      using neg_step_ok neg_step_keeps_role by (auto split: prod.splits)
  qed
  then show ?thesis by (auto simp: keeps_role_def)
qed

theorem roles_never_mix_witness:
  "neg_ok (fst (neg_run (negotiation_new Agent) [Signal (Answer ''x''), Signal (Offer ''o'')]))
   \<and> snd (neg_run (negotiation_new Agent) [Signal (Answer ''x''), Signal (Offer ''o'')]) = [NoAction, CreateAnswer ''o'']"
proof -
  have r: "neg_run (negotiation_new Agent) [Signal (Answer ''x''), Signal (Offer ''o'')]
    = (\<lparr>neg_role = Agent, neg_phase = Connecting, neg_peer_present = False\<rparr>, [NoAction, CreateAnswer ''o''])"
    by (simp add: negotiation_new_def neg_defs)
  with roles_never_mix [OF r] show ?thesis by simp
qed

text \<open>
  teardown is final and idempotent: a \<open>Bye\<close>, the peer leaving or a forced close asks for one
  \<open>Close\<close> unless the machine was closed already, and nothing that arrives afterwards causes an action.
\<close>

theorem teardown_is_final:
  "\<exists>t a. neg_run s ((if forced then ForceClose else Signal (if left then PeerLeft r else Bye)) # es)
      = (t, a # replicate (length es) NoAction)
    \<and> neg_phase t = Closed \<and> (a = Close \<longleftrightarrow> neg_phase s \<noteq> Closed)"
proof -
  let ?e = "if forced then ForceClose else Signal (if left then PeerLeft r else Bye)"
  have st: "neg_step s ?e = neg_close s" by auto
  obtain t a where t: "neg_close s = (t, a)" by force
  then have c: "neg_phase t = Closed" "a = Close \<longleftrightarrow> neg_phase s \<noteq> Closed"
    by (auto simp: neg_close_def split: if_splits)
  from neg_run_closed [OF c(1)] c(2) c(1) show ?thesis by (simp only: neg_run.simps st t) auto
qed

text \<open>
  C16: in the composition over the relay, with the servers' presence messages, ICE candidates and
  teardowns interleaved in any way, the only answer a controller ever applies is the agent's answer
  to the offer this controller made.
\<close>

theorem applied_answer_is_for_the_offer:
  assumes "hs_reach answer_for h" "applied h = Some a"
  shows "\<exists>x. offered h = Some x \<and> a = answer_for x"
  using hs_reach_inv [OF assms(1)] assms(2) by (simp add: hs_inv_def)


text \<open>A run: both presence messages, then the offer and the answer.\<close>

definition hs_offered :: handshake where
  "hs_offered = ctl_act ''o'' handshake_init (on_signal (ctl handshake_init) (PeerJoined ''agent''))"

lemma hs_offered_reach: "hs_reach answer_for hs_offered"
  unfolding hs_offered_def
  by (rule hs_next [OF hs_start]) (rule ctl_server, simp add: server_event_def)

lemma hs_offered_eq: "hs_offered = \<lparr>ctl = \<lparr>neg_role = Controller, neg_phase = Offered, neg_peer_present = True\<rparr>,
    agt = negotiation_new Agent, to_agt = [Offer ''o''], to_ctl = [], offered = Some ''o'', applied = None\<rparr>"
  by (simp add: hs_offered_def ctl_act_def handshake_init_def negotiation_new_def neg_defs Let_def)


text \<open>
  C15: the exchange of descriptions always comes to an end: in every reachable state at most one offer or answer is in
  transit, whatever is delivered takes at most two deliveries, and delivering empties the relay.
\<close>

theorem handshake_quiesces:
  assumes "hs_reach answer_for h"
  shows "in_transit h \<le> 1 \<and> (\<forall>n h'. (hs_deliver answer_for ^^ n) h h' \<longrightarrow> n \<le> 2)
    \<and> (\<exists>h'. (hs_deliver answer_for)\<^sup>*\<^sup>* h h' \<and> in_transit h' = 0)"
proof (intro conjI allI impI)
  note inv = hs_reach_inv [OF assms]
  show t: "in_transit h \<le> 1" by (rule hs_reach_transit [OF assms])
  show "\<exists>h'. (hs_deliver answer_for)\<^sup>*\<^sup>* h h' \<and> in_transit h' = 0" by (rule deliveries_end [OF inv])
  show "n \<le> 2" if "(hs_deliver answer_for ^^ n) h h'" for n h'
    using deliveries_bounded [OF that inv] t by (auto simp: pending_work_def in_transit_def)
qed

theorem handshake_quiesces_witness:
  "in_transit hs_offered = 1 \<and> (\<exists>h'. (hs_deliver (\<lambda>o'. o' @ ''!''))\<^sup>*\<^sup>* hs_offered h' \<and> in_transit h' = 0)"
  using handshake_quiesces [OF hs_offered_reach] by (simp add: hs_offered_eq in_transit_def)

definition hs_done :: handshake where
  "hs_done = hs_offered\<lparr>ctl := \<lparr>neg_role = Controller, neg_phase = Connecting, neg_peer_present = True\<rparr>,
     agt := \<lparr>neg_role = Agent, neg_phase = Connecting, neg_peer_present = False\<rparr>,
     to_agt := [], applied := Some ''o!''\<rparr>"

lemma hs_done_reach: "hs_reach (\<lambda>o'. o' @ ''!'') hs_done"
proof -
  let ?f = "\<lambda>o'. o' @ ''!''"
  let ?g = "agt_act ?f (hs_offered\<lparr>to_agt := []\<rparr>) (on_signal (agt hs_offered) (Offer ''o''))"
  have q: "to_agt hs_offered = Offer ''o'' # []" by (simp add: hs_offered_eq)
  have g: "hs_reach ?f ?g" by (rule hs_next [OF hs_offered_reach hs_step.agt_recv [OF q]])
  have q2: "to_ctl ?g = Answer ''o!'' # []"
    by (simp add: hs_offered_eq agt_act_def negotiation_new_def neg_defs Let_def)
  have "ctl_act [] (?g\<lparr>to_ctl := []\<rparr>) (on_signal (ctl ?g) (Answer ''o!'')) = hs_done"
    by (simp add: hs_done_def hs_offered_eq agt_act_def ctl_act_def negotiation_new_def neg_defs Let_def)
  with hs_next [OF g hs_step.ctl_recv [OF q2, of ?f "[]"]] show ?thesis by simp
qed

theorem applied_answer_is_for_the_offer_witness:
  "\<exists>x. offered hs_done = Some x \<and> ''o!'' = x @ ''!''"
  by (rule applied_answer_is_for_the_offer [OF hs_done_reach]) (simp add: hs_done_def)

end
