(* ===== verification/Agent_Core.thy ===== *)
theory Agent_Core
  imports Agent_Error
begin

text \<open>
  The agent runtime (\<open>crates/core\<close>): its configuration (\<open>config.rs\<close>), the \<open>Subsystem\<close> trait with the health
  model (\<open>subsystem.rs\<close>), and the \<open>Agent\<close> that starts, stops and observes its subsystems (\<open>lib.rs\<close>). A subsystem
  is a record of functions on the state \<open>'w\<close> of the process. The locale \<open>subsystem_family\<close> states the contract
  of the trait for the subsystems of an agent; the agent's guarantees are proved from it.
\<close>

section \<open>Configuration\<close>

datatype codec = Vp9 | H264 | H265

record agent_config =
  device_id :: string
  backend_url :: string
  api_url :: string
  codec :: codec
  target_fps :: u32
  max_height :: u32
  autostart :: bool
  heartbeat_secs :: u64

definition default_api_url :: string where "default_api_url = ''http://localhost:8080''"
definition default_fps :: u32 where "default_fps = 30"
definition default_max_height :: u32 where "default_max_height = 1080"
definition default_heartbeat_secs :: u64 where "default_heartbeat_secs = 15"

definition agent_config_default :: agent_config where
  "agent_config_default = \<lparr> device_id = [], backend_url = [], api_url = default_api_url, codec = Vp9,
     target_fps = default_fps, max_height = default_max_height, autostart = False,
     heartbeat_secs = default_heartbeat_secs \<rparr>"

definition validate_config :: "agent_config \<Rightarrow> (unit, string) result" where
  "validate_config c =
    (if trim (device_id c) = [] then Err ''device_id must not be empty''
     else if \<not> starts_with ''wss://'' (backend_url c) \<and> \<not> starts_with ''ws://'' (backend_url c)
       then Err ''backend_url must be a ws:// or wss:// URL''
     else if target_fps c = 0 \<or> target_fps c > 120 then Err ''target_fps must be in 1..=120''
     else Ok ())"

lemma validate_config_Ok:
  "validate_config c = Ok () \<longleftrightarrow> trim (device_id c) \<noteq> []
     \<and> (starts_with ''wss://'' (backend_url c) \<or> starts_with ''ws://'' (backend_url c))
     \<and> 0 < target_fps c \<and> target_fps c \<le> 120"
  by (auto simp: validate_config_def word_gt_0)

section \<open>Subsystems\<close>

datatype health_status = Healthy | Degraded | Stopped

record 'w subsystem =
  sub_name :: string
  sub_start :: "'w \<Rightarrow> 'w \<times> unit agent_result"
  sub_stop :: "'w \<Rightarrow> 'w \<times> unit agent_result"
  sub_health :: "'w \<Rightarrow> health_status"

section \<open>The agent\<close>

record 'w agent =
  config :: agent_config
  subsystems :: "'w subsystem list"

definition agent_new :: "agent_config \<Rightarrow> 'w subsystem list \<Rightarrow> 'w agent" where
  "agent_new c ss = \<lparr> config = c, subsystems = ss \<rparr>"

definition agent_device_id :: "'w agent \<Rightarrow> string" where
  "agent_device_id a = device_id (config a)"

text \<open>Stopping subsystems one after the other, whatever each answers.\<close>

fun stop_each :: "'w subsystem list \<Rightarrow> 'w \<Rightarrow> 'w" where
  "stop_each [] w = w"
| "stop_each (s # ss) w = stop_each ss (fst (sub_stop s w))"

fun start_each :: "'w subsystem list \<Rightarrow> 'w subsystem list \<Rightarrow> 'w \<Rightarrow> 'w \<times> unit agent_result" where
  "start_each started [] w = (w, Ok ())"
| "start_each started (s # ss) w =
    (case sub_start s w of
       (w', Inr _) \<Rightarrow> start_each (started @ [s]) ss w'
     | (w', Inl e) \<Rightarrow> (stop_each (rev started) w', Err e))"

definition agent_start :: "'w agent \<Rightarrow> 'w \<Rightarrow> 'w \<times> unit agent_result" where
  "agent_start a w = start_each [] (subsystems a) w"

definition agent_stop :: "'w agent \<Rightarrow> 'w \<Rightarrow> 'w \<times> unit agent_result" where
  "agent_stop a w = (stop_each (rev (subsystems a)) w, Ok ())"

fun health_each :: "'w subsystem list \<Rightarrow> 'w \<Rightarrow> health_status" where
  "health_each [] w = Healthy"
| "health_each (s # ss) w = (if sub_health s w \<noteq> Healthy then Degraded else health_each ss w)"

definition agent_health :: "'w agent \<Rightarrow> 'w \<Rightarrow> health_status" where
  "agent_health a w = health_each (subsystems a) w"

lemma stop_each_append: "stop_each (xs @ ys) w = stop_each ys (stop_each xs w)"
  by (induction xs arbitrary: w) auto

lemma health_each_Healthy: "health_each ss w = Healthy \<longleftrightarrow> (\<forall>s \<in> set ss. sub_health s w = Healthy)"
  by (induction ss) auto

section \<open>The contract of the trait\<close>

text \<open>
  The contract of one subsystem: a successful start makes it run, a failed one leaves it as it was, a stop ends
  it whatever it answers, and its health tells. The trait asks for idempotent operations: starting a running
  subsystem does nothing, and neither does stopping twice.
\<close>

locale lifecycle =
  fixes sub :: "'w subsystem" and running :: "'w \<Rightarrow> bool"
  assumes start_running: "sub_start sub w = (w', Ok ()) \<Longrightarrow> running w'"
    and start_failed: "sub_start sub w = (w', Err e) \<Longrightarrow> running w' = running w"
    and stop_stops: "\<not> running (fst (sub_stop sub w))"
    and health_running: "sub_health sub w = Healthy \<longleftrightarrow> running w"

locale idempotent_lifecycle = lifecycle +
  assumes start_again: "running w \<Longrightarrow> sub_start sub w = (w, Ok ())"
    and stop_again: "sub_stop sub (fst (sub_stop sub w)) = (fst (sub_stop sub w), Ok ())"
begin

lemma start_twice: "sub_start sub w = (w', Ok ()) \<Longrightarrow> sub_start sub w' = (w', Ok ())"
  by (rule start_again) (rule start_running)

lemma restart_healthy:
  "sub_start sub (fst (sub_stop sub w)) = (w', Ok ()) \<Longrightarrow> sub_health sub w' = Healthy"
  by (simp add: health_running start_running)

end

text \<open>
  The subsystems of an agent together. \<open>up i\<close> says that the \<open>i\<close>th subsystem runs: each follows the contract
  above with respect to \<open>up i\<close>, and no subsystem touches another.
\<close>

locale subsystem_family =
  fixes subs :: "'w subsystem list"
    and up :: "nat \<Rightarrow> 'w \<Rightarrow> bool"
  assumes start_up: "i < length subs \<Longrightarrow> sub_start (subs ! i) w = (w', Ok ()) \<Longrightarrow> up i w'"
    and start_fail: "i < length subs \<Longrightarrow> sub_start (subs ! i) w = (w', Err e) \<Longrightarrow> up i w' = up i w"
    and start_frame: "i < length subs \<Longrightarrow> j < length subs \<Longrightarrow> j \<noteq> i \<Longrightarrow> up j (fst (sub_start (subs ! i) w)) = up j w"
    and stop_down: "i < length subs \<Longrightarrow> \<not> up i (fst (sub_stop (subs ! i) w))"
    and stop_frame: "i < length subs \<Longrightarrow> j < length subs \<Longrightarrow> j \<noteq> i \<Longrightarrow> up j (fst (sub_stop (subs ! i) w)) = up j w"
    and health_up: "i < length subs \<Longrightarrow> sub_health (subs ! i) w = Healthy \<longleftrightarrow> up i w"
begin

lemma stop_each_indices:
  "\<forall>i \<in> set is. i < length subs \<Longrightarrow> j < length subs \<Longrightarrow>
   up j (stop_each (map ((!) subs) is) w) \<longleftrightarrow> j \<notin> set is \<and> up j w"
proof (induction "is" arbitrary: w)
  case (Cons i "is")
  then show ?case using stop_down [of i w] stop_frame [of i j w] by (cases "j = i") auto
qed simp

lemma map_nth_take: "n \<le> length subs \<Longrightarrow> map ((!) subs) [0..<n] = take n subs"
  by (rule nth_equalityI) auto

text \<open>Stopping brings every subsystem down.\<close>

lemma stop_all_down:
  assumes "j < length subs"
  shows "\<not> up j (stop_each (rev subs) w)"
proof -
  have "rev subs = map ((!) subs) (rev [0..<length subs])"
    using map_nth_take [of "length subs"] by (metis order_refl rev_map take_all)
  with stop_each_indices [of "rev [0..<length subs]" j w] assms show ?thesis by auto
qed

lemma start_each_from:
  assumes "n \<le> length subs" and "\<forall>i < n. up i w"
    and "start_each (take n subs) (drop n subs) w = (w', r)" and "j < length subs"
  shows "(r = Ok () \<longrightarrow> up j w') \<and> (\<forall>e. r = Err e \<longrightarrow> up j w' \<longrightarrow> n \<le> j \<and> up j w)"
  using assms
proof (induction "length subs - n" arbitrary: n w)
  case 0
  then show ?case by auto
next
  case (Suc k)
  then have n: "n < length subs" by simp
  then have d: "drop n subs = subs ! n # drop (Suc n) subs" by (simp add: Cons_nth_drop_Suc)
  have t: "take n subs @ [subs ! n] = take (Suc n) subs" using n by (simp add: take_Suc_conv_app_nth)
  obtain w1 x where x: "sub_start (subs ! n) w = (w1, x)" by force
  have fr: "i < length subs \<Longrightarrow> i \<noteq> n \<Longrightarrow> up i w1 = up i w" for i
    using start_frame [OF n, of i w] x by simp
  show ?case
  proof (cases x)
    case (Inr u)
    with x have up1: "\<forall>i < Suc n. up i w1"
      using Suc.prems(2) fr start_up [OF n] n by (auto simp: less_Suc_eq)
    have run: "start_each (take (Suc n) subs) (drop (Suc n) subs) w1 = (w', r)"
      using Suc.prems(3) x Inr by (simp add: d t)
    have "(r = Ok () \<longrightarrow> up j w') \<and> (\<forall>e. r = Err e \<longrightarrow> up j w' \<longrightarrow> Suc n \<le> j \<and> up j w1)"
      using Suc.hyps(1) [of "Suc n" w1] Suc.hyps(2) up1 run Suc.prems(4) n by auto
    then show ?thesis using fr [of j] Suc.prems(4) by auto
  next
    case (Inl e)
    with x Suc.prems(3) have w': "w' = stop_each (rev (take n subs)) w1" "r = Err e" by (simp_all add: d)
    have "rev (take n subs) = map ((!) subs) (rev [0..<n])"
      using map_nth_take [of n] n by (metis less_imp_le rev_map)
    then have "up j w' \<longleftrightarrow> n \<le> j \<and> up j w1"
      using stop_each_indices [of "rev [0..<n]" j w1] n w' Suc.prems(4) by auto
    then show ?thesis using w' fr [of j] start_fail [OF n, of w w1 e] x Inl Suc.prems(4) by auto
  qed
qed

text \<open>A successful start brings everything up; a failed one leaves nothing up that was not up before.\<close>

lemma start_all:
  assumes "start_each [] subs w = (w', r)" and "j < length subs"
  shows "(r = Ok () \<longrightarrow> up j w') \<and> (\<forall>e. r = Err e \<longrightarrow> up j w' \<longrightarrow> up j w)"
  using start_each_from [of 0 w w' r j] assms by simp

lemma health_all: "health_each subs w = Healthy \<longleftrightarrow> (\<forall>i < length subs. up i w)"
  by (auto simp: health_each_Healthy all_set_conv_all_nth health_up)

end

section \<open>What the agent does to its subsystems\<close>

text \<open>
  A subsystem that also logs the calls it gets: \<open>(i, True)\<close> for a start of the \<open>i\<close>th, \<open>(i, False)\<close> for a stop.
\<close>

definition logging :: "nat \<Rightarrow> 'w subsystem \<Rightarrow> ((nat \<times> bool) list \<times> 'w) subsystem" where
  "logging i s = \<lparr> sub_name = sub_name s,
     sub_start = (\<lambda>(l, w). case sub_start s w of (w', r) \<Rightarrow> ((l @ [(i, True)], w'), r)),
     sub_stop = (\<lambda>(l, w). case sub_stop s w of (w', r) \<Rightarrow> ((l @ [(i, False)], w'), r)),
     sub_health = (\<lambda>(l, w). sub_health s w) \<rparr>"

definition logged :: "'w subsystem list \<Rightarrow> ((nat \<times> bool) list \<times> 'w) subsystem list" where
  "logged ss = map (\<lambda>i. logging i (ss ! i)) [0..<length ss]"

definition log_map :: "bool \<Rightarrow> nat list \<Rightarrow> (nat \<times> bool) list" where
  "log_map b is = map (\<lambda>i. (i, b)) is"

lemma stop_each_log:
  "fst (stop_each (map (\<lambda>i. logging i (ss ! i)) is) (l, w)) = l @ log_map False is"
proof (induction "is" arbitrary: l w)
  case (Cons i "is")
  obtain w1 r where "sub_stop (ss ! i) w = (w1, r)" by force
  with Cons [of "l @ [(i, False)]" w1] show ?case by (simp add: logging_def log_map_def)
qed (simp add: log_map_def)

lemma start_each_log:
  assumes "start_each (map (\<lambda>i. logging i (ss ! i)) [0..<n]) (map (\<lambda>i. logging i (ss ! i)) [n..<n + k]) (l, w) = ((l', w'), r)"
  shows "(r = Ok () \<longrightarrow> l' = l @ log_map True [n..<n + k])
    \<and> (\<forall>e. r = Err e \<longrightarrow> (\<exists>m < k. l' = l @ log_map True [n..<Suc (n + m)] @ log_map False (rev [0..<n + m])))"
  using assms
proof (induction k arbitrary: n l w)
  case 0
  then show ?case by (auto simp: log_map_def)
next
  case (Suc k)
  have u: "[n..<n + Suc k] = n # [Suc n..<Suc n + k]" by (simp add: upt_conv_Cons)
  obtain w1 x where x: "sub_start (ss ! n) w = (w1, x)" by force
  show ?case
  proof (cases x)
    case (Inr v)
    have "start_each (map (\<lambda>i. logging i (ss ! i)) [0..<Suc n]) (map (\<lambda>i. logging i (ss ! i)) [Suc n..<Suc n + k])
        (l @ [(n, True)], w1) = ((l', w'), r)"
      using Suc.prems x Inr unfolding u by (simp add: logging_def)
    from Suc.IH [OF this] have
      ok: "r = Ok () \<longrightarrow> l' = (l @ [(n, True)]) @ log_map True [Suc n..<Suc n + k]" and
      err: "\<forall>e. r = Err e \<longrightarrow> (\<exists>m < k. l' = (l @ [(n, True)]) @ log_map True [Suc n..<Suc (Suc n + m)]
          @ log_map False (rev [0..<Suc n + m]))" by auto
    have c: "log_map True [n..<Suc (n + m)] = (n, True) # log_map True [Suc n..<Suc (n + m)]" for m
      by (simp add: log_map_def upt_conv_Cons del: upt_Suc)
    have "\<exists>m < Suc k. l' = l @ log_map True [n..<Suc (n + m)] @ log_map False (rev [0..<n + m])" if "r = Err e" for e
    proof -
      from err that obtain m where m: "m < k" "l' = (l @ [(n, True)]) @ log_map True [Suc n..<Suc (Suc n + m)]
          @ log_map False (rev [0..<Suc n + m])" by blast
      then show ?thesis using c [of "Suc m"] by (intro exI [of _ "Suc m"]) (simp del: upt_Suc)
    qed
    with ok show ?thesis unfolding u by (simp add: log_map_def)
  next
    case (Inl e)
    have "((l', w'), r) = (stop_each (rev (map (\<lambda>i. logging i (ss ! i)) [0..<n])) (l @ [(n, True)], w1), Err e)"
      using Suc.prems x Inl unfolding u by (simp add: logging_def)
    then have "l' = fst (stop_each (map (\<lambda>i. logging i (ss ! i)) (rev [0..<n])) (l @ [(n, True)], w1))" and "r = Err e"
      by (simp_all add: rev_map) (metis fst_conv)
    then have "l' = (l @ [(n, True)]) @ log_map False (rev [0..<n])" "r = Err e" by (simp_all add: stop_each_log)
    then show ?thesis by (intro conjI impI allI exI [of _ 0]) (auto simp: log_map_def)
  qed
qed

text \<open>
  C33: The agent starts its subsystems in order. If all start, those are the only calls it makes; if one fails,
  the ones started before it, and no other, are stopped, in reverse order, before the failure is returned.
  Stopping the agent stops every subsystem once, in reverse order, and never fails.
\<close>

theorem agent_start_rolls_back:
  "(agent_start (agent_new c (logged ss)) ([], w) = ((l, w'), Ok ()) \<longrightarrow> l = log_map True [0..<length ss])
   \<and> (agent_start (agent_new c (logged ss)) ([], w) = ((l, w'), Err e) \<longrightarrow>
        (\<exists>m < length ss. l = log_map True [0..<Suc m] @ log_map False (rev [0..<m])))
   \<and> fst (fst (agent_stop (agent_new c (logged ss)) ([], w))) = log_map False (rev [0..<length ss])
   \<and> snd (agent_stop (agent_new c (logged ss)) ([], w)) = Ok ()"
proof -
  have "\<And>r. agent_start (agent_new c (logged ss)) ([], w) = ((l, w'), r) \<Longrightarrow>
      (r = Ok () \<longrightarrow> l = log_map True [0..<length ss])
      \<and> (\<forall>e. r = Err e \<longrightarrow> (\<exists>m < length ss. l = log_map True [0..<Suc m] @ log_map False (rev [0..<m])))"
    using start_each_log [of ss 0 "length ss" "[]" w l w'] by (simp add: agent_start_def agent_new_def logged_def)
  moreover have "fst (stop_each (rev (logged ss)) ([], w)) = log_map False (rev [0..<length ss])"
    using stop_each_log [of ss "rev [0..<length ss]" "[]" w] by (simp add: logged_def rev_map)
  ultimately show ?thesis by (auto simp: agent_stop_def agent_new_def)
qed

text \<open>Two subsystems of which the second refuses to start.\<close>

definition steady :: "string \<Rightarrow> unit subsystem" where
  "steady n = \<lparr> sub_name = n, sub_start = (\<lambda>w. (w, Ok ())), sub_stop = (\<lambda>w. (w, Ok ())), sub_health = (\<lambda>w. Healthy) \<rparr>"

definition failing :: "string \<Rightarrow> unit subsystem" where
  "failing n = (steady n)\<lparr> sub_start := (\<lambda>w. (w, Err (subsystem_error n ''forced failure''))) \<rparr>"

theorem agent_start_rolls_back_witness:
  "\<exists>m < 2. [(0 :: nat, True), (1, True), (0, False)] = log_map True [0..<Suc m] @ log_map False (rev [0..<m])"
proof -
  have "agent_start (agent_new agent_config_default (logged [steady ''ok'', failing ''bad''])) ([], ())
      = (([(0, True), (1, True), (0, False)], ()), Err (subsystem_error ''bad'' ''forced failure''))"
    by (simp add: agent_start_def agent_new_def logged_def logging_def steady_def failing_def upt_rec)
  then have "\<exists>m < length [steady ''ok'', failing ''bad''].
      [(0 :: nat, True), (1, True), (0, False)] = log_map True [0..<Suc m] @ log_map False (rev [0..<m])"
    using agent_start_rolls_back [of agent_config_default "[steady ''ok'', failing ''bad'']" "()"] by blast
  moreover have "length [steady ''ok'', failing ''bad''] = 2" by simp
  ultimately show ?thesis by metis
qed

end
