(* ===== verification/Capture.thy ===== *)
theory Capture
  imports Frame Agent_Core Runs
begin

text \<open>
  Screen capture (\<open>crates/capture\<close>): the capturer interface with its no-op implementation (\<open>lib.rs\<close>) and the
  native one over the \<open>xcap\<close> library, which is a parameter (\<open>native.rs\<close>); and the capture loop that drives a
  capturer and publishes downscaled frames (\<open>pipeline.rs\<close>). The agent's wiring of a capturer with its loop
  satisfies the contract \<open>subsystem_family\<close>.
\<close>

section \<open>Capturers\<close>

record 'w capturer =
  cap_subsystem :: "'w subsystem"
  cap_monitors :: "'w \<Rightarrow> 'w \<times> monitor list agent_result"
  cap_capture :: "'w \<Rightarrow> string \<Rightarrow> 'w \<times> frame agent_result"

text \<open>The no-op capturer; its state is the running flag.\<close>

definition noop_subsystem :: "bool subsystem" where
  "noop_subsystem = \<lparr> sub_name = ''capture'', sub_start = (\<lambda>r. (True, Ok ())), sub_stop = (\<lambda>r. (False, Ok ())),
     sub_health = (\<lambda>r. if r then Healthy else Stopped) \<rparr>"

definition noop_monitors :: "bool \<Rightarrow> bool \<times> monitor list agent_result" where
  "noop_monitors r = (r, Ok [\<lparr> monitor_id = ''0'', monitor_name = ''synthetic'', monitor_width = 1920,
     monitor_height = 1080, primary = True \<rparr>])"

definition noop_capture :: "bool \<Rightarrow> string \<Rightarrow> bool \<times> frame agent_result" where
  "noop_capture r i = (r, Ok \<lparr> frame_width = 1920, frame_height = 1080, timestamp_us = 0,
     frame_data = replicate (1920 * 1080 * 4) 0 \<rparr>)"

definition noop_capturer :: "bool capturer" where
  "noop_capturer = \<lparr> cap_subsystem = noop_subsystem, cap_monitors = noop_monitors, cap_capture = noop_capture \<rparr>"

section \<open>The native capturer\<close>

record ximage =
  ximg_width :: u32
  ximg_height :: u32
  ximg_raw :: bytes

record xmonitor =
  xm_id :: "(u32, string) result"
  xm_name :: "(string, string) result"
  xm_width :: "(u32, string) result"
  xm_height :: "(u32, string) result"
  xm_is_primary :: "(bool, string) result"
  xm_capture_image :: "(ximage, string) result"

record 'o xcap_api =
  xcap_all :: "'o \<Rightarrow> 'o \<times> (xmonitor list, string) result"
  elapsed_micros :: "'o \<Rightarrow> nat"

record 'o xcap_capturer =
  xc_running :: bool
  xc_os :: 'o

definition map_err :: "string \<Rightarrow> ('a, string) result \<Rightarrow> 'a agent_result" where
  "map_err context r = (case r of Inl e \<Rightarrow> Err (subsystem_error ''capture'' (context @ '': '' @ e)) | Inr x \<Rightarrow> Ok x)"

definition describe :: "xmonitor \<Rightarrow> monitor agent_result" where
  "describe m =
    bind_result (map_err ''monitor id'' (xm_id m)) (\<lambda>i.
    bind_result (map_err ''monitor name'' (xm_name m)) (\<lambda>n.
    bind_result (map_err ''monitor width'' (xm_width m)) (\<lambda>w.
    bind_result (map_err ''monitor height'' (xm_height m)) (\<lambda>h.
    bind_result (map_err ''monitor primary'' (xm_is_primary m)) (\<lambda>p.
      Ok \<lparr> monitor_id = decimal (unat i), monitor_name = n, monitor_width = w, monitor_height = h, primary = p \<rparr>)))))"

fun collect_results :: "('a, 'e) result list \<Rightarrow> ('a list, 'e) result" where
  "collect_results [] = Ok []"
| "collect_results (r # rs) = bind_result r (\<lambda>x. bind_result (collect_results rs) (\<lambda>xs. Ok (x # xs)))"

definition xcap_monitors :: "'o xcap_api \<Rightarrow> 'o xcap_capturer \<Rightarrow> 'o xcap_capturer \<times> monitor list agent_result" where
  "xcap_monitors api c = (case xcap_all api (xc_os c) of (os', r) \<Rightarrow>
     (c\<lparr> xc_os := os' \<rparr>, bind_result (map_err ''enumerate monitors'' r) (\<lambda>ms. collect_results (map describe ms))))"

definition xcap_start :: "'o xcap_api \<Rightarrow> 'o xcap_capturer \<Rightarrow> 'o xcap_capturer \<times> unit agent_result" where
  "xcap_start api c = (case xcap_monitors api c of
     (c', Inl e) \<Rightarrow> (c', Err e)
   | (c', Inr ms) \<Rightarrow>
       if ms = [] then (c', Err (subsystem_error ''capture'' ''no monitors found (is screen-recording permission granted?)''))
       else (c'\<lparr> xc_running := True \<rparr>, Ok ()))"

definition xcap_stop :: "'o xcap_capturer \<Rightarrow> 'o xcap_capturer \<times> unit agent_result" where
  "xcap_stop c = (c\<lparr> xc_running := False \<rparr>, Ok ())"

definition xcap_health :: "'o xcap_capturer \<Rightarrow> health_status" where
  "xcap_health c = (if xc_running c then Healthy else Stopped)"

text \<open>The conversion in place: the first and third byte of every complete pixel change places.\<close>

fun swap_red_blue :: "bytes \<Rightarrow> bytes" where
  "swap_red_blue (r # g # b # a # rest) = b # g # r # a # swap_red_blue rest"
| "swap_red_blue rest = rest"

definition has_id :: "string \<Rightarrow> xmonitor \<Rightarrow> bool" where
  "has_id target m = (case xm_id m of Inr i \<Rightarrow> decimal (unat i) = target | Inl _ \<Rightarrow> False)"

definition xcap_capture :: "'o xcap_api \<Rightarrow> 'o xcap_capturer \<Rightarrow> string \<Rightarrow> 'o xcap_capturer \<times> frame agent_result" where
  "xcap_capture api c target =
    (let ts = word_of_nat (elapsed_micros api (xc_os c)) in
     case xcap_all api (xc_os c) of (os', r) \<Rightarrow>
       (c\<lparr> xc_os := os' \<rparr>,
        bind_result (map_err ''enumerate monitors'' r) (\<lambda>ms.
        bind_result (ok_or (find (has_id target) ms)
          (subsystem_error ''capture'' (''monitor '' @ [CHR 39] @ target @ [CHR 39] @ '' not found''))) (\<lambda>m.
        bind_result (map_err ''capture image'' (xm_capture_image m)) (\<lambda>img.
          Ok \<lparr> frame_width = ximg_width img, frame_height = ximg_height img, timestamp_us = ts,
               frame_data = swap_red_blue (ximg_raw img) \<rparr>)))))"

definition xcap_subsystem :: "'o xcap_api \<Rightarrow> 'o xcap_capturer subsystem" where
  "xcap_subsystem api = \<lparr> sub_name = ''capture'', sub_start = xcap_start api, sub_stop = xcap_stop, sub_health = xcap_health \<rparr>"

definition xcap_capturer_of :: "'o xcap_api \<Rightarrow> 'o xcap_capturer capturer" where
  "xcap_capturer_of api = \<lparr> cap_subsystem = xcap_subsystem api, cap_monitors = xcap_monitors api,
     cap_capture = xcap_capture api \<rparr>"

section \<open>The capture loop\<close>

record capture_settings =
  set_monitor_id :: "string option"
  set_target_fps :: u32
  set_max_height :: u32

definition capture_settings_default :: capture_settings where
  "capture_settings_default = \<lparr> set_monitor_id = None, set_target_fps = 30, set_max_height = 1080 \<rparr>"

text \<open>The spawned task: the monitor it captures and whether it still runs.\<close>

record loop_task =
  task_monitor :: string
  task_alive :: bool

record capture_loop =
  cl_settings :: capture_settings
  cl_latest :: "frame option"
  cl_frames :: u64
  cl_running :: bool
  cl_task :: "loop_task option"

definition loop_new :: "capture_settings \<Rightarrow> capture_loop" where
  "loop_new s = \<lparr> cl_settings = s, cl_latest = None, cl_frames = 0, cl_running = False, cl_task = None \<rparr>"

text \<open>The frame period in seconds, before its conversion to a duration.\<close>

definition period_secs :: "capture_loop \<Rightarrow> fl" where
  "period_secs l = f_div f64 (Fin 1) (Fin (of_nat (unat (max (set_target_fps (cl_settings l)) 1))))"

definition resolve_monitor :: "'w capturer \<Rightarrow> 'w \<Rightarrow> capture_loop \<Rightarrow> 'w \<times> string agent_result" where
  "resolve_monitor cap w l = (case set_monitor_id (cl_settings l) of
     Some i \<Rightarrow> (w, Ok i)
   | None \<Rightarrow> (case cap_monitors cap w of
       (w', Inl e) \<Rightarrow> (w', Err e)
     | (w', Inr ms) \<Rightarrow>
         (w', ok_or (map_option monitor_id
                (case find primary ms of Some m \<Rightarrow> Some m | None \<Rightarrow> (case ms of [] \<Rightarrow> None | m # _ \<Rightarrow> Some m)))
              (subsystem_error ''capture'' ''no monitors available''))))"

definition loop_start :: "'w capturer \<Rightarrow> 'w \<times> capture_loop \<Rightarrow> ('w \<times> capture_loop) \<times> unit agent_result" where
  "loop_start cap = (\<lambda>(w, l).
    if cl_running l then ((w, l), Ok ())
    else (case resolve_monitor cap w (l\<lparr> cl_running := True \<rparr>) of
       (w', Inl e) \<Rightarrow> ((w', l\<lparr> cl_running := False \<rparr>), Err e)
     | (w', Inr i) \<Rightarrow> ((w', l\<lparr> cl_running := True, cl_task := Some \<lparr> task_monitor = i, task_alive = True \<rparr> \<rparr>), Ok ())))"

definition loop_stop :: "'w \<times> capture_loop \<Rightarrow> ('w \<times> capture_loop) \<times> unit agent_result" where
  "loop_stop = (\<lambda>(w, l). ((w, l\<lparr> cl_running := False, cl_task := None \<rparr>), Ok ()))"

definition loop_health :: "capture_loop \<Rightarrow> health_status" where
  "loop_health l = (if cl_running l then Healthy else Stopped)"

text \<open>One round of the task; a panic in the scaling ends the task and nothing else.\<close>

definition loop_tick :: "'w capturer \<Rightarrow> 'w \<times> capture_loop \<Rightarrow> 'w \<times> capture_loop" where
  "loop_tick cap = (\<lambda>(w, l). (case cl_task l of
     None \<Rightarrow> (w, l)
   | Some t \<Rightarrow>
      if \<not> task_alive t then (w, l)
      else if \<not> cl_running l then (w, l\<lparr> cl_task := Some (t\<lparr> task_alive := False \<rparr>) \<rparr>)
      else (case cap_capture cap w (task_monitor t) of
         (w', Inl e) \<Rightarrow> (w', l)
       | (w', Inr f) \<Rightarrow> (case downscale_to_max_height f (set_max_height (cl_settings l)) of
           None \<Rightarrow> (w', l\<lparr> cl_task := Some (t\<lparr> task_alive := False \<rparr>) \<rparr>)
         | Some out \<Rightarrow> (w', l\<lparr> cl_frames := cl_frames l + 1, cl_latest := Some out \<rparr>)))))"

section \<open>The wiring of the agent\<close>

text \<open>The two subsystems of the agent, in the order it starts them: the capturer and the loop that drives it.\<close>

definition capturer_part :: "'w capturer \<Rightarrow> ('w \<times> capture_loop) subsystem" where
  "capturer_part cap = \<lparr> sub_name = sub_name (cap_subsystem cap),
     sub_start = (\<lambda>(w, l). case sub_start (cap_subsystem cap) w of (w', r) \<Rightarrow> ((w', l), r)),
     sub_stop = (\<lambda>(w, l). case sub_stop (cap_subsystem cap) w of (w', r) \<Rightarrow> ((w', l), r)),
     sub_health = (\<lambda>(w, l). sub_health (cap_subsystem cap) w) \<rparr>"

definition loop_part :: "'w capturer \<Rightarrow> ('w \<times> capture_loop) subsystem" where
  "loop_part cap = \<lparr> sub_name = ''capture-pipeline'', sub_start = loop_start cap, sub_stop = loop_stop,
     sub_health = (\<lambda>(w, l). loop_health l) \<rparr>"

definition agent_subsystems :: "'w capturer \<Rightarrow> ('w \<times> capture_loop) subsystem list" where
  "agent_subsystems cap = [capturer_part cap, loop_part cap]"

definition part_up :: "('w \<Rightarrow> bool) \<Rightarrow> nat \<Rightarrow> 'w \<times> capture_loop \<Rightarrow> bool" where
  "part_up running i = (\<lambda>(w, l). if i = 0 then running w else cl_running l)"

text \<open>What the wiring asks of a capturer.\<close>

locale capturer_laws = lifecycle "cap_subsystem cap" running for cap :: "'w capturer" and running :: "'w \<Rightarrow> bool" +
  assumes cap_monitors_running: "running (fst (cap_monitors cap w)) = running w"
begin

lemma resolve_monitor_running: "resolve_monitor cap w l = (w', r) \<Longrightarrow> running w' = running w"
  using cap_monitors_running [of w]
  by (auto simp: resolve_monitor_def split: option.splits prod.splits sum.splits)

lemma loop_start_effect:
  "loop_start cap (w, l) = ((w', l'), r) \<Longrightarrow>
   running w' = running w \<and> (r = Ok () \<longrightarrow> cl_running l') \<and> (\<forall>e. r = Err e \<longrightarrow> \<not> cl_running l' \<and> \<not> cl_running l)"
  using resolve_monitor_running [of w "l\<lparr> cl_running := True \<rparr>"]
  by (auto simp: loop_start_def split: if_splits prod.splits sum.splits)

end

sublocale capturer_laws \<subseteq> parts: subsystem_family "agent_subsystems cap" "part_up running"
proof unfold_locales
  fix i j :: nat and w w' :: "'w \<times> capture_loop" and e
  assume i: "i < length (agent_subsystems cap)"
  obtain u l where w: "w = (u, l)" by force
  obtain u' l' where w': "w' = (u', l')" by force
  have alt: "i = 0 \<and> agent_subsystems cap ! i = capturer_part cap
      \<or> i = 1 \<and> agent_subsystems cap ! i = loop_part cap"
    using i by (auto simp: agent_subsystems_def less_Suc_eq)
  show "part_up running i w'" if "sub_start (agent_subsystems cap ! i) w = (w', Ok ())"
    using alt that start_running [of u] loop_start_effect [of u l]
    by (elim disjE) (auto simp: w' part_up_def capturer_part_def loop_part_def w split: prod.splits)
  show "part_up running i w' = part_up running i w" if "sub_start (agent_subsystems cap ! i) w = (w', Err e)"
    using alt that start_failed [of u] loop_start_effect [of u l]
    by (elim disjE) (auto simp: w' part_up_def capturer_part_def loop_part_def w split: prod.splits)
  show "\<not> part_up running i (fst (sub_stop (agent_subsystems cap ! i) w))"
    using alt stop_stops [of u]
    by (elim disjE) (auto simp: part_up_def capturer_part_def loop_part_def loop_stop_def w split: prod.splits)
  show "sub_health (agent_subsystems cap ! i) w = Healthy \<longleftrightarrow> part_up running i w"
    using alt health_running [of u]
    by (elim disjE) (auto simp: part_up_def capturer_part_def loop_part_def loop_health_def w split: if_splits)
  assume j: "j < length (agent_subsystems cap)" "j \<noteq> i"
  show "part_up running j (fst (sub_start (agent_subsystems cap ! i) w)) = part_up running j w"
  proof -
    obtain u1 l1 r1 where ls: "loop_start cap (u, l) = ((u1, l1), r1)" by (metis prod.exhaust)
    show ?thesis
      using alt j loop_start_effect [OF ls]
      by (elim disjE) (auto simp: part_up_def capturer_part_def loop_part_def w agent_subsystems_def ls split: prod.splits)
  qed
  show "part_up running j (fst (sub_stop (agent_subsystems cap ! i) w)) = part_up running j w"
    using alt j
    by (elim disjE) (auto simp: part_up_def capturer_part_def loop_part_def loop_stop_def w agent_subsystems_def split: prod.splits)
qed

interpretation noop_cap: capturer_laws noop_capturer "\<lambda>r. r"
  by unfold_locales (auto simp: noop_capturer_def noop_subsystem_def noop_monitors_def)

interpretation xcap_cap: capturer_laws "xcap_capturer_of api" xc_running for api :: "'o xcap_api"
  by unfold_locales
    (auto simp: xcap_capturer_of_def xcap_subsystem_def xcap_start_def xcap_stop_def xcap_health_def xcap_monitors_def
      split: prod.splits sum.splits if_splits)

text \<open>The no-op capturer and the capture loop are also idempotent, as the trait asks.\<close>

interpretation noop_idem: idempotent_lifecycle noop_subsystem "\<lambda>r. r"
  by unfold_locales (auto simp: noop_subsystem_def)

interpretation loop_idem: idempotent_lifecycle "loop_part cap" "\<lambda>(w, l). cl_running l" for cap :: "'w capturer"
  by unfold_locales
    (auto simp: loop_part_def loop_start_def loop_stop_def loop_health_def split: prod.splits sum.splits if_splits)

section \<open>Properties of the wiring\<close>

text \<open>
  The agent over the native capturer, whatever the display library answers. A successful start leaves the
  capturer and the capture loop running and the agent healthy; a failed start leaves nothing running that did
  not run before; stopping leaves both stopped; and the agent is healthy exactly when both run.
\<close>

theorem agent_lifecycle:
  fixes api :: "'o xcap_api"
  assumes "a = agent_new c (agent_subsystems (xcap_capturer_of api))" and "agent_start a (w, l) = ((w', l'), r)"
  shows "(r = Ok () \<longrightarrow> xc_running w' \<and> cl_running l' \<and> agent_health a (w', l') = Healthy)
    \<and> (is_ok r \<or> (xc_running w' \<longrightarrow> xc_running w) \<and> (cl_running l' \<longrightarrow> cl_running l))
    \<and> (\<exists>w2 l2. agent_stop a (w', l') = ((w2, l2), Ok ()) \<and> \<not> xc_running w2 \<and> \<not> cl_running l2)
    \<and> (agent_health a (w', l') = Healthy \<longleftrightarrow> xc_running w' \<and> cl_running l')"
proof -
  let ?subs = "agent_subsystems (xcap_capturer_of api)"
  have len: "length ?subs = 2" by (simp add: agent_subsystems_def)
  have start: "start_each [] ?subs (w, l) = ((w', l'), r)"
    using assms by (simp add: agent_start_def agent_new_def)
  have up: "part_up xc_running 0 (v, k) = xc_running v" "part_up xc_running 1 (v, k) = cl_running k" for v :: "'o xcap_capturer" and k
    by (simp_all add: part_up_def)
  note s0 = xcap_cap.parts.start_all [OF start, of 0, unfolded len up]
  note s1 = xcap_cap.parts.start_all [OF start, of 1, unfolded len up]
  have ok: "r = Ok () \<longrightarrow> xc_running w' \<and> cl_running l'" using s0 s1 by simp
  have err: "is_ok r \<or> (xc_running w' \<longrightarrow> xc_running w) \<and> (cl_running l' \<longrightarrow> cl_running l)"
    using s0 s1 by (cases r) auto
  obtain w2 l2 where st: "stop_each (rev ?subs) (w', l') = (w2, l2)" by force
  have down: "\<not> xc_running w2" "\<not> cl_running l2"
    using xcap_cap.parts.stop_all_down [of 0 api "(w', l')", unfolded len st up]
      xcap_cap.parts.stop_all_down [of 1 api "(w', l')", unfolded len st up] by simp_all
  have health: "agent_health a (w', l') = Healthy \<longleftrightarrow> xc_running w' \<and> cl_running l'"
    using xcap_cap.parts.health_all [of api "(w', l')", unfolded len] assms(1) up
    by (auto simp: agent_health_def agent_new_def less_2_cases_iff)
  from ok err st down health show ?thesis
    using assms(1) by (auto simp: agent_stop_def agent_new_def)
qed

definition sample_monitor :: xmonitor where
  "sample_monitor = \<lparr> xm_id = Ok 1, xm_name = Ok ''main'', xm_width = Ok 2, xm_height = Ok 2, xm_is_primary = Ok True,
     xm_capture_image = Ok \<lparr> ximg_width = 1, ximg_height = 1, ximg_raw = [1, 2, 3, 255] \<rparr> \<rparr>"

definition sample_xcap :: "unit xcap_api" where
  "sample_xcap = \<lparr> xcap_all = (\<lambda>os. (os, Ok [sample_monitor])), elapsed_micros = (\<lambda>os. 0) \<rparr>"

theorem agent_lifecycle_witness:
  "\<exists>w' l'. agent_start (agent_new agent_config_default (agent_subsystems (xcap_capturer_of sample_xcap)))
      (\<lparr> xc_running = False, xc_os = () \<rparr>, loop_new capture_settings_default) = ((w', l'), Ok ())
    \<and> xc_running w' \<and> cl_running l'"
proof -
  let ?a = "agent_new agent_config_default (agent_subsystems (xcap_capturer_of sample_xcap))"
  obtain w' l' r where s: "agent_start ?a (\<lparr> xc_running = False, xc_os = () \<rparr>, loop_new capture_settings_default) = ((w', l'), r)"
    by (metis prod.exhaust)
  then have "r = Ok ()"
    by (auto simp: agent_start_def agent_new_def agent_subsystems_def capturer_part_def loop_part_def xcap_capturer_of_def
        xcap_subsystem_def xcap_start_def xcap_monitors_def sample_xcap_def sample_monitor_def describe_def map_err_def
        loop_start_def resolve_monitor_def loop_new_def capture_settings_default_def)
  with agent_lifecycle [OF refl s] s show ?thesis by blast
qed

section \<open>Frames of the native capturer\<close>

lemma length_swap_red_blue [simp]: "length (swap_red_blue xs) = length xs"
  by (induction xs rule: swap_red_blue.induct) auto

lemma swap_red_blue_twice: "swap_red_blue (swap_red_blue xs) = xs"
  by (induction xs rule: swap_red_blue.induct) auto

lemma collect_results_Ok: "collect_results rs = Ok xs \<longleftrightarrow> rs = map Inr xs"
proof (induction rs arbitrary: xs)
  case (Cons r rs)
  then show ?case by (cases r; cases xs) (auto simp: bind_result_Ok_iff)
qed auto

lemma describe_id:
  "describe m = Ok d \<Longrightarrow> has_id (monitor_id d) m"
  by (auto simp: describe_def has_id_def bind_result_Ok_iff map_err_def split: sum.splits)

text \<open>
  Every monitor the native capturer lists can be captured: as long as the display library enumerates the same
  monitors, capturing by a listed id finds a monitor with that id, and the result is the image of that monitor
  with red and blue exchanged (so exchanging them again gives the library's bytes back), or the error of that
  image; a complete image gives a valid frame.
\<close>

theorem listed_monitors_can_be_captured:
  assumes "xcap_all api os = (os, Ok ms)" and "xcap_monitors api c = (c', Ok ds)" and "xc_os c = os" and "d \<in> set ds"
  shows "\<exists>m \<in> set ms. has_id (monitor_id d) m \<and>
    snd (xcap_capture api c (monitor_id d)) =
      (case xm_capture_image m of
         Inl e \<Rightarrow> Err (subsystem_error ''capture'' (''capture image: '' @ e))
       | Inr img \<Rightarrow> Ok \<lparr> frame_width = ximg_width img, frame_height = ximg_height img,
                     timestamp_us = word_of_nat (elapsed_micros api os), frame_data = swap_red_blue (ximg_raw img) \<rparr>)
    \<and> (\<forall>f img. snd (xcap_capture api c (monitor_id d)) = Ok f \<longrightarrow> xm_capture_image m = Ok img \<longrightarrow>
         swap_red_blue (frame_data f) = ximg_raw img
         \<and> (length (ximg_raw img) = unat (ximg_width img) * unat (ximg_height img) * 4 \<longrightarrow> is_valid f))"
proof -
  have "collect_results (map describe ms) = Ok ds"
    using assms(1-3) by (auto simp: xcap_monitors_def map_err_def)
  then have eq: "map describe ms = map Inr ds" by (simp add: collect_results_Ok)
  then obtain m0 where "m0 \<in> set ms" "describe m0 = Ok d"
    using assms(4) by (metis (mono_tags) imageE imageI list.set_map)
  then have "\<exists>m \<in> set ms. has_id (monitor_id d) m" using describe_id by blast
  then obtain m where f: "find (has_id (monitor_id d)) ms = Some m"
    by (cases "find (has_id (monitor_id d)) ms") (auto simp: find_None_iff)
  then have m: "m \<in> set ms" "has_id (monitor_id d) m" by (auto simp: find_Some_iff)
  have cap: "snd (xcap_capture api c (monitor_id d)) =
      (case xm_capture_image m of
         Inl e \<Rightarrow> Err (subsystem_error ''capture'' (''capture image: '' @ e))
       | Inr img \<Rightarrow> Ok \<lparr> frame_width = ximg_width img, frame_height = ximg_height img,
                     timestamp_us = word_of_nat (elapsed_micros api os), frame_data = swap_red_blue (ximg_raw img) \<rparr>)"
    using assms(1,3) f by (auto simp: xcap_capture_def map_err_def Let_def split: sum.split)
  show ?thesis
    using m unfolding cap
    by (auto simp: swap_red_blue_twice is_valid_def expected_len_def pixel_count_def intro!: bexI [of _ m])
qed

theorem listed_monitors_can_be_captured_witness:
  "is_ok (snd (xcap_capture sample_xcap \<lparr> xc_running = False, xc_os = () \<rparr> ''1''))"
proof -
  let ?c = "\<lparr> xc_running = False, xc_os = () \<rparr>"
  let ?d = "\<lparr> monitor_id = ''1'', monitor_name = ''main'', monitor_width = 2, monitor_height = 2, primary = True \<rparr>"
  have a: "xcap_all sample_xcap () = ((), Ok [sample_monitor])" by (simp add: sample_xcap_def)
  have "decimal 1 = ''1''" by code_simp
  then have m: "xcap_monitors sample_xcap ?c = (?c, Ok [?d])"
    by (simp add: xcap_monitors_def sample_xcap_def map_err_def sample_monitor_def describe_def)
  have "\<exists>m \<in> set [sample_monitor]. snd (xcap_capture sample_xcap ?c ''1'') =
      (case xm_capture_image m of
         Inl e \<Rightarrow> Err (subsystem_error ''capture'' (''capture image: '' @ e))
       | Inr img \<Rightarrow> Ok \<lparr> frame_width = ximg_width img, frame_height = ximg_height img,
                     timestamp_us = word_of_nat (elapsed_micros sample_xcap ()), frame_data = swap_red_blue (ximg_raw img) \<rparr>)"
    using listed_monitors_can_be_captured [OF a m, of ?d] by auto
  then show ?thesis by (simp add: sample_monitor_def)
qed

section \<open>Properties of the loop\<close>

text \<open>What the capturer answers in \<open>n\<close> successive captures.\<close>

fun captures :: "'w capturer \<Rightarrow> string \<Rightarrow> 'w \<Rightarrow> nat \<Rightarrow> 'w \<times> frame agent_result list" where
  "captures cap i w 0 = (w, [])"
| "captures cap i w (Suc n) = (case captures cap i w n of (w', rs) \<Rightarrow>
     case cap_capture cap w' i of (w'', r) \<Rightarrow> (w'', rs @ [r]))"

fun ticks :: "'w capturer \<Rightarrow> 'w \<times> capture_loop \<Rightarrow> nat \<Rightarrow> 'w \<times> capture_loop" where
  "ticks cap s 0 = s"
| "ticks cap s (Suc n) = loop_tick cap (ticks cap s n)"

definition good_frames :: "frame agent_result list \<Rightarrow> frame list" where
  "good_frames rs = concat (map (\<lambda>r. case r of Inl _ \<Rightarrow> [] | Inr f \<Rightarrow> [f]) rs)"

definition proper_frame :: "frame \<Rightarrow> bool" where
  "proper_frame f \<longleftrightarrow> is_valid f \<and> frame_width f \<noteq> 0 \<and> frame_height f \<noteq> 0"

lemma good_frames_append: "good_frames (xs @ ys) = good_frames xs @ good_frames ys"
  by (simp add: good_frames_def)

lemma loop_tick_proper:
  assumes "cl_task l = Some t" "task_alive t" "cl_running l" "cap_capture cap w (task_monitor t) = (w', r)"
    and "\<forall>f \<in> set (good_frames [r]). proper_frame f"
  shows "\<exists>l'. loop_tick cap (w, l) = (w', l') \<and> cl_task l' = Some t \<and> cl_running l'
    \<and> cl_settings l' = cl_settings l \<and> cl_frames l' = cl_frames l + of_nat (length (good_frames [r]))
    \<and> (case r of Inl e \<Rightarrow> cl_latest l' = cl_latest l
        | Inr f \<Rightarrow> cl_latest l' = downscale_to_max_height f (set_max_height (cl_settings l)) \<and> cl_latest l' \<noteq> None)"
proof (cases r)
  case (Inl e)
  with assms show ?thesis by (simp add: loop_tick_def good_frames_def)
next
  case (Inr f)
  with assms(5) have "proper_frame f" by (simp add: good_frames_def)
  then obtain g where "downscale_to_max_height f (set_max_height (cl_settings l)) = Some g"
    using downscale_proper unfolding proper_frame_def by blast
  with assms Inr show ?thesis by (simp add: loop_tick_def good_frames_def)
qed

lemma ticks_proper:
  assumes "cl_task l = Some t" "task_alive t" "cl_running l"
    and "captures cap (task_monitor t) w n = (w', rs)" and "\<forall>f \<in> set (good_frames rs). proper_frame f"
  shows "\<exists>l'. ticks cap (w, l) n = (w', l') \<and> cl_task l' = Some t \<and> cl_running l'
    \<and> cl_settings l' = cl_settings l \<and> cl_frames l' = cl_frames l + of_nat (length (good_frames rs))
    \<and> (if good_frames rs = [] then cl_latest l' = cl_latest l
        else cl_latest l' = downscale_to_max_height (last (good_frames rs)) (set_max_height (cl_settings l)))"
  using assms(4,5)
proof (induction n arbitrary: w' rs)
  case 0
  then show ?case using assms by (simp add: good_frames_def)
next
  case (Suc n)
  obtain w1 rs1 where c: "captures cap (task_monitor t) w n = (w1, rs1)" by force
  obtain r where r: "cap_capture cap w1 (task_monitor t) = (w', r)" "rs = rs1 @ [r]"
    using Suc.prems(1) c by (auto split: prod.splits)
  then have p: "\<forall>f \<in> set (good_frames rs1). proper_frame f" "\<forall>f \<in> set (good_frames [r]). proper_frame f"
    using Suc.prems(2) by (auto simp: good_frames_append)
  obtain l1 where l1: "ticks cap (w, l) n = (w1, l1)" "cl_task l1 = Some t" "cl_running l1"
      "cl_settings l1 = cl_settings l" "cl_frames l1 = cl_frames l + of_nat (length (good_frames rs1))"
      "if good_frames rs1 = [] then cl_latest l1 = cl_latest l
        else cl_latest l1 = downscale_to_max_height (last (good_frames rs1)) (set_max_height (cl_settings l))"
    using Suc.IH [OF c p(1)] by blast
  obtain l2 where l2: "loop_tick cap (w1, l1) = (w', l2)" "cl_task l2 = Some t" "cl_running l2"
      "cl_settings l2 = cl_settings l1" "cl_frames l2 = cl_frames l1 + of_nat (length (good_frames [r]))"
      "case r of Inl e \<Rightarrow> cl_latest l2 = cl_latest l1
        | Inr f \<Rightarrow> cl_latest l2 = downscale_to_max_height f (set_max_height (cl_settings l1)) \<and> cl_latest l2 \<noteq> None"
    using loop_tick_proper [OF l1(2) assms(2) l1(3) r(1) p(2)] by blast
  have "if good_frames rs = [] then cl_latest l2 = cl_latest l
        else cl_latest l2 = downscale_to_max_height (last (good_frames rs)) (set_max_height (cl_settings l))"
    using l1(4,6) l2(6) r(2) by (cases r) (auto simp: good_frames_append good_frames_def)
  with l1 l2 r(2) show ?case by (simp add: good_frames_append algebra_simps)
qed

text \<open>
  C30: After a successful start the loop runs one task on one monitor. As long as the captured frames are well
  formed, \<open>n\<close> rounds capture \<open>n\<close> times; failed captures are skipped without ending the task; the frame counter
  grows by the number of captured frames; and the published frame is the last captured one, downscaled: a valid
  frame no higher than the configured maximum (or two).
\<close>

theorem capture_loop_publishes:
  assumes "loop_start cap (w, l) = ((w1, l1), Ok ())" and "\<not> cl_running l"
    and "cl_task l1 = Some t" and "captures cap (task_monitor t) w1 n = (w2, rs)"
    and "\<forall>f \<in> set (good_frames rs). proper_frame f"
  shows "\<exists>l2. ticks cap (w1, l1) n = (w2, l2) \<and> cl_task l2 = Some t \<and> task_alive t \<and> loop_health l2 = Healthy
    \<and> cl_frames l2 = cl_frames l + of_nat (length (good_frames rs))
    \<and> (good_frames rs = [] \<longrightarrow> cl_latest l2 = cl_latest l)
    \<and> (good_frames rs \<noteq> [] \<longrightarrow> (\<exists>g. cl_latest l2 = Some g
          \<and> downscale_to_max_height (last (good_frames rs)) (set_max_height (cl_settings l)) = Some g
          \<and> is_valid g \<and> unat (frame_height g) \<le> max (unat (set_max_height (cl_settings l))) 2))"
proof -
  have l1: "cl_running l1" "task_alive t" "cl_settings l1 = cl_settings l" "cl_frames l1 = cl_frames l"
      "cl_latest l1 = cl_latest l"
    using assms(1-3) by (auto simp: loop_start_def split: prod.splits sum.splits)
  obtain l2 where l2: "ticks cap (w1, l1) n = (w2, l2)" "cl_task l2 = Some t" "cl_running l2"
      "cl_frames l2 = cl_frames l + of_nat (length (good_frames rs))"
      "if good_frames rs = [] then cl_latest l2 = cl_latest l
        else cl_latest l2 = downscale_to_max_height (last (good_frames rs)) (set_max_height (cl_settings l))"
    using ticks_proper [OF assms(3) l1(2,1) assms(4,5)] l1(3-5) by auto
  have "\<exists>g. cl_latest l2 = Some g
          \<and> downscale_to_max_height (last (good_frames rs)) (set_max_height (cl_settings l)) = Some g
          \<and> is_valid g \<and> unat (frame_height g) \<le> max (unat (set_max_height (cl_settings l))) 2"
    if "good_frames rs \<noteq> []"
  proof -
    have "proper_frame (last (good_frames rs))" using that assms(5) by simp
    then obtain g where "downscale_to_max_height (last (good_frames rs)) (set_max_height (cl_settings l)) = Some g"
        "is_valid g" "unat (frame_height g) \<le> max (unat (set_max_height (cl_settings l))) 2"
      using downscale_proper unfolding proper_frame_def by blast
    with l2(5) that show ?thesis by auto
  qed
  with l2 l1(2) show ?thesis by (auto simp: loop_health_def)
qed

theorem capture_loop_publishes_witness:
  "\<exists>l2. ticks (xcap_capturer_of sample_xcap) (\<lparr> xc_running = False, xc_os = () \<rparr>,
      (loop_new capture_settings_default)\<lparr> cl_running := True, cl_task := Some \<lparr> task_monitor = ''1'', task_alive = True \<rparr> \<rparr>) 1
      = (\<lparr> xc_running = False, xc_os = () \<rparr>, l2) \<and> cl_frames l2 = 1"
proof -
  let ?cap = "xcap_capturer_of sample_xcap" and ?c = "\<lparr> xc_running = False, xc_os = () \<rparr>"
  let ?l = "loop_new capture_settings_default" and ?t = "\<lparr> task_monitor = ''1'', task_alive = True \<rparr>"
  let ?f = "\<lparr> frame_width = 1, frame_height = 1, timestamp_us = 0, frame_data = [3, 2, 1, 255] \<rparr>"
  have d: "decimal 1 = ''1''" by code_simp
  have start: "loop_start ?cap (?c, ?l) = ((?c, ?l\<lparr> cl_running := True, cl_task := Some ?t \<rparr>), Ok ())"
    by (simp add: loop_start_def resolve_monitor_def loop_new_def capture_settings_default_def xcap_capturer_of_def
        xcap_monitors_def sample_xcap_def map_err_def sample_monitor_def describe_def d [unfolded One_nat_def])
  have cap: "captures ?cap (task_monitor ?t) ?c 1 = (?c, [Ok ?f])"
    by (simp add: xcap_capturer_of_def xcap_capture_def sample_xcap_def map_err_def sample_monitor_def has_id_def d [unfolded One_nat_def])
  have ok: "\<forall>f \<in> set (good_frames [Ok ?f]). proper_frame f"
    by (simp add: good_frames_def proper_frame_def is_valid_def expected_len_def pixel_count_def)
  have n: "\<not> cl_running ?l" "cl_frames ?l = 0" by (simp_all add: loop_new_def)
  from capture_loop_publishes [OF start n(1) _ cap ok] n(2) show ?thesis by (auto simp: good_frames_def)
qed

section \<open>What a capture loop can publish\<close>

text \<open>Everything that can happen to a loop, in any order.\<close>

datatype loop_op = StartLoop | StopLoop | TickLoop

definition loop_step :: "'w capturer \<Rightarrow> loop_op \<Rightarrow> 'w \<times> capture_loop \<Rightarrow> 'w \<times> capture_loop" where
  "loop_step cap x s = (case x of StartLoop \<Rightarrow> fst (loop_start cap s) | StopLoop \<Rightarrow> fst (loop_stop s) | TickLoop \<Rightarrow> loop_tick cap s)"

definition loop_run :: "'w capturer \<Rightarrow> loop_op list \<Rightarrow> 'w \<times> capture_loop \<Rightarrow> 'w \<times> capture_loop" where
  "loop_run cap xs s = fold (loop_step cap) xs s"

interpretation loops: labelled_run "\<lambda>x s. (loop_step cap x s, [] :: unit list)" "\<lambda>xs s. (loop_run cap xs s, [])" for cap :: "'w capturer"
  by unfold_locales (simp_all add: loop_run_def)

definition publishes_well_formed :: "u32 \<Rightarrow> 'w \<times> capture_loop \<Rightarrow> bool" where
  "publishes_well_formed m s \<longleftrightarrow> set_max_height (cl_settings (snd s)) = m
     \<and> (\<forall>g. cl_latest (snd s) = Some g \<longrightarrow> well_formed g \<and> unat (frame_height g) \<le> max (unat m) 2)"

lemma loop_step_well_formed:
  assumes "\<forall>w i w' f. cap_capture cap w i = (w', Ok f) \<longrightarrow> is_valid f" and "publishes_well_formed m s"
  shows "publishes_well_formed m (loop_step cap x s)"
proof -
  obtain w l where s: "s = (w, l)" by force
  show ?thesis
  proof (cases x)
    case StartLoop
    then show ?thesis using assms(2) s
      by (auto simp: loop_step_def loop_start_def publishes_well_formed_def split: prod.splits sum.splits)
  next
    case StopLoop
    then show ?thesis using assms(2) s by (auto simp: loop_step_def loop_stop_def publishes_well_formed_def)
  next
    case TickLoop
    have "well_formed g \<and> unat (frame_height g) \<le> max (unat m) 2"
      if "cap_capture cap w i = (w', Ok f)" "downscale_to_max_height f m = Some g" for i w' f g
      using downscaled_well_formed [OF _ that(2)] assms(1) that(1) by blast
    then show ?thesis using TickLoop assms(2) s
      by (auto simp: loop_step_def loop_tick_def publishes_well_formed_def split: option.splits prod.splits sum.splits)
  qed
qed

lemma loop_run_well_formed:
  assumes "\<forall>w i w' f. cap_capture cap w i = (w', Ok f) \<longrightarrow> is_valid f"
  shows "publishes_well_formed (set_max_height st) (loop_run cap xs (w, loop_new st))"
proof (rule loops.run_preserves [OF refl])
  show "publishes_well_formed (set_max_height st) (w, loop_new st)" by (simp add: publishes_well_formed_def loop_new_def)
qed (metis Pair_inject loop_step_well_formed [OF assms])

text \<open>
  A captured frame without pixels ends the capture task in the scaling routine, and nothing notices: the loop
  keeps reporting itself healthy, publishes nothing any more, and starting it again does nothing.
\<close>

theorem degenerate_frame_ends_task:
  assumes "cl_task l = Some t" and "task_alive t" and "cl_running l"
    and "cap_capture cap w (task_monitor t) = (w', Ok f)"
    and "frame_width f = 0" and "frame_height f = 0" and "frame_data f = []"
  shows "\<exists>l'. loop_tick cap (w, l) = (w', l') \<and> loop_health l' = Healthy
    \<and> (\<forall>n. ticks cap (w', l') n = (w', l')) \<and> loop_start cap (w', l') = ((w', l'), Ok ())"
proof -
  have "fit_dimensions 0 0 m = (2, 2)" for m by (simp add: fit_dimensions_def)
  moreover have "max 2 1 = (2 :: u32)" by (simp add: max_def word_le_nat_alt)
  ultimately have "downscale_to_max_height f m = None" for m
    using assms(5-7)
    by (simp add: downscale_to_max_height_def scale_bgra_nearest_def Let_def copy_pixel_def upt_rec [of 0 2])
  then have t: "loop_tick cap (w, l) = (w', l\<lparr> cl_task := Some (t\<lparr> task_alive := False \<rparr>) \<rparr>)"
    using assms by (simp add: loop_tick_def)
  let ?l = "l\<lparr> cl_task := Some (t\<lparr> task_alive := False \<rparr>) \<rparr>"
  have "ticks cap (w', ?l) n = (w', ?l)" for n by (induction n) (simp_all add: loop_tick_def)
  with t assms(3) show ?thesis by (auto simp: loop_health_def loop_start_def)
qed

definition empty_capturer :: "unit capturer" where
  "empty_capturer = \<lparr> cap_subsystem = steady ''capture'', cap_monitors = (\<lambda>w. (w, Ok [])),
     cap_capture = (\<lambda>w i. (w, Ok \<lparr> frame_width = 0, frame_height = 0, timestamp_us = 0, frame_data = [] \<rparr>)) \<rparr>"

theorem degenerate_frame_ends_task_witness:
  "\<exists>l'. loop_tick empty_capturer ((), (loop_new capture_settings_default)\<lparr> cl_running := True,
      cl_task := Some \<lparr> task_monitor = ''0'', task_alive = True \<rparr> \<rparr>) = ((), l') \<and> loop_health l' = Healthy"
  using degenerate_frame_ends_task [of "(loop_new capture_settings_default)\<lparr> cl_running := True,
      cl_task := Some \<lparr> task_monitor = ''0'', task_alive = True \<rparr> \<rparr>" "\<lparr> task_monitor = ''0'', task_alive = True \<rparr>"
      empty_capturer "()" "()" "\<lparr> frame_width = 0, frame_height = 0, timestamp_us = 0, frame_data = [] \<rparr>"]
  by (auto simp: empty_capturer_def)

end
