(* ===== verification/Input.thy ===== *)
theory Input
  imports Ieee Agent_Core
begin

text \<open>
  Input events and their routing (\<open>crates/input\<close>): the event model and the no-op injector (\<open>lib.rs\<close>), the pure
  coordinate and key mapping (\<open>mapping.rs\<close>), the clipboards (\<open>clipboard.rs\<close>) and the router of control frames
  (\<open>router.rs\<close>). The JSON decoder and the clipboard library are parameters; the router is modelled over any
  injector and clipboard.
\<close>

section \<open>Events\<close>

record modifiers =
  ctrl :: bool
  alt :: bool
  shift :: bool
  meta :: bool

datatype mouse_button = Left | Right | Middle

datatype input_event =
    MouseMove fl fl
  | MouseButton mouse_button bool modifiers
  | Scroll fl fl
  | Key u32 bool modifiers
  | ClipboardText string

section \<open>Mapping\<close>

definition saturating_dec :: "u32 \<Rightarrow> nat" where
  "saturating_dec w = unat w - 1"

definition normalized_to_pixel :: "fl \<Rightarrow> fl \<Rightarrow> u32 \<Rightarrow> u32 \<Rightarrow> int \<times> int" where
  "normalized_to_pixel x y w h =
    (let cx = f_clamp x (Fin 0) (Fin 1); cy = f_clamp y (Fin 0) (Fin 1);
         max_x = Fin (of_nat (saturating_dec w)); max_y = Fin (of_nat (saturating_dec h))
     in (as_i32 (f_round (f_mul f64 cx max_x)), as_i32 (f_round (f_mul f64 cy max_y))))"

datatype named_key =
    Enter | Escape | Backspace | Tab | Space | CapsLock | Delete | Home | End | PageUp | PageDown
  | ArrowRight | ArrowLeft | ArrowDown | ArrowUp | FKey u8

datatype physical_key = CharKey char | Named named_key

definition hid_key :: "nat \<Rightarrow> physical_key option" where
  "hid_key c =
    (if 0x04 \<le> c \<and> c \<le> 0x1D then Some (CharKey (char_of (97 + (c - 0x04))))
     else if 0x1E \<le> c \<and> c \<le> 0x26 then Some (CharKey (char_of (49 + (c - 0x1E))))
     else if c = 0x27 then Some (CharKey CHR ''0'')
     else if c = 0x28 then Some (Named Enter)
     else if c = 0x29 then Some (Named Escape)
     else if c = 0x2A then Some (Named Backspace)
     else if c = 0x2B then Some (Named Tab)
     else if c = 0x2C then Some (Named Space)
     else if c = 0x2D then Some (CharKey CHR ''-'')
     else if c = 0x2E then Some (CharKey CHR ''='')
     else if c = 0x2F then Some (CharKey CHR ''['')
     else if c = 0x30 then Some (CharKey CHR '']'')
     else if c = 0x31 then Some (CharKey CHR 92)
     else if c = 0x33 then Some (CharKey CHR '';'')
     else if c = 0x34 then Some (CharKey CHR 39)
     else if c = 0x35 then Some (CharKey CHR 96)
     else if c = 0x36 then Some (CharKey CHR '','')
     else if c = 0x37 then Some (CharKey CHR ''.'')
     else if c = 0x38 then Some (CharKey CHR ''/'')
     else if c = 0x39 then Some (Named CapsLock)
     else if 0x3A \<le> c \<and> c \<le> 0x45 then Some (Named (FKey (word_of_nat (c - 0x3A + 1))))
     else if c = 0x4C then Some (Named Delete)
     else if c = 0x4A then Some (Named Home)
     else if c = 0x4D then Some (Named End)
     else if c = 0x4B then Some (Named PageUp)
     else if c = 0x4E then Some (Named PageDown)
     else if c = 0x4F then Some (Named ArrowRight)
     else if c = 0x50 then Some (Named ArrowLeft)
     else if c = 0x51 then Some (Named ArrowDown)
     else if c = 0x52 then Some (Named ArrowUp)
     else None)"

definition map_hid_key :: "u32 \<Rightarrow> physical_key option" where
  "map_hid_key code = hid_key (unat code)"

text \<open>The usage codes that are mapped.\<close>

definition hid_codes :: "nat list" where
  "hid_codes = [0x04..<0x32] @ [0x33..<0x46] @ [0x4A..<0x53]"

section \<open>The no-op injector\<close>

definition in_unit_range :: "fl \<Rightarrow> bool" where
  "in_unit_range v \<longleftrightarrow> f_le (Fin 0) v \<and> f_le v (Fin 1)"

definition noop_inject :: "u64 \<Rightarrow> input_event \<Rightarrow> u64 \<times> unit agent_result" where
  "noop_inject n ev = (case ev of
     MouseMove x y \<Rightarrow>
       if \<not> in_unit_range x \<or> \<not> in_unit_range y
       then (n, Err (subsystem_error ''input'' ''mouse coordinates out of normalized range''))
       else (n + 1, Ok ())
   | _ \<Rightarrow> (n + 1, Ok ()))"

text \<open>The no-op injector as a subsystem: starting and stopping do nothing, and it is always healthy.\<close>

definition noop_injector_subsystem :: "u64 subsystem" where
  "noop_injector_subsystem = \<lparr> sub_name = ''input'', sub_start = (\<lambda>n. (n, Ok ())), sub_stop = (\<lambda>n. (n, Ok ())),
     sub_health = (\<lambda>n. Healthy) \<rparr>"

section \<open>Clipboards\<close>

text \<open>The contract of a clipboard: what was set is what is read.\<close>

locale clipboard =
  fixes get_text :: "'c \<Rightarrow> 'c \<times> string option agent_result"
    and set_text :: "'c \<Rightarrow> string \<Rightarrow> 'c \<times> unit agent_result"
  assumes get_set: "set_text c t = (c', Ok ()) \<Longrightarrow> snd (get_text c') = Ok (Some t)"

definition noop_get_text :: "string option \<Rightarrow> string option \<times> string option agent_result" where
  "noop_get_text c = (c, Ok c)"

definition noop_set_text :: "string option \<Rightarrow> string \<Rightarrow> string option \<times> unit agent_result" where
  "noop_set_text c t = (Some t, Ok ())"

context clipboard
begin

text \<open>After a sequence of texts of which the last could be set, that one is read.\<close>

lemma last_text_read:
  assumes "ts \<noteq> []" and "\<And>c. snd (set_text c (last ts)) = Ok ()"
  shows "snd (get_text (foldl (\<lambda>c t. fst (set_text c t)) c ts)) = Ok (Some (last ts))"
  using assms(1)
proof (cases ts rule: rev_cases)
  case (snoc us t)
  let ?c = "foldl (\<lambda>c t. fst (set_text c t)) c us"
  have "set_text ?c t = (fst (set_text ?c t), Ok ())"
    using assms(2) [of ?c] snoc by (metis last_snoc prod.collapse)
  then show ?thesis using get_set snoc by simp
qed simp

end

interpretation noop_clipboard: clipboard noop_get_text noop_set_text
  by unfold_locales (simp add: noop_get_text_def noop_set_text_def)

text \<open>The clipboard of the operating system, over the \<open>arboard\<close> library.\<close>

datatype clip_read = Content string | ContentNotAvailable | ReadError string

record 'o arboard_api =
  ab_open :: "'o \<Rightarrow> 'o \<times> (unit, string) result"
  ab_get :: "'o \<Rightarrow> 'o \<times> clip_read"
  ab_set :: "'o \<Rightarrow> string \<Rightarrow> 'o \<times> (unit, string) result"

definition arboard_get_text :: "'o arboard_api \<Rightarrow> 'o \<Rightarrow> 'o \<times> string option agent_result" where
  "arboard_get_text api w = (case ab_open api w of
     (w', Inl e) \<Rightarrow> (w', Err (subsystem_error ''clipboard'' (''open: '' @ e)))
   | (w', Inr _) \<Rightarrow> (case ab_get api w' of
       (w'', Content t) \<Rightarrow> (w'', Ok (Some t))
     | (w'', ContentNotAvailable) \<Rightarrow> (w'', Ok None)
     | (w'', ReadError e) \<Rightarrow> (w'', Err (subsystem_error ''clipboard'' (''read: '' @ e)))))"

definition arboard_set_text :: "'o arboard_api \<Rightarrow> 'o \<Rightarrow> string \<Rightarrow> 'o \<times> unit agent_result" where
  "arboard_set_text api w t = (case ab_open api w of
     (w', Inl e) \<Rightarrow> (w', Err (subsystem_error ''clipboard'' (''open: '' @ e)))
   | (w', Inr _) \<Rightarrow> (case ab_set api w' t of
       (w'', Inl e) \<Rightarrow> (w'', Err (subsystem_error ''clipboard'' (''write: '' @ e)))
     | (w'', Inr _) \<Rightarrow> (w'', Ok ())))"

section \<open>The router\<close>

datatype frame_outcome = Dispatched | Rejected

record ('i, 'c) input_router =
  injector :: 'i
  clip :: 'c
  frames_dispatched :: u64
  frames_rejected :: u64

record ('i, 'c) router_env =
  inject :: "'i \<Rightarrow> input_event \<Rightarrow> 'i \<times> unit agent_result"
  clip_set :: "'c \<Rightarrow> string \<Rightarrow> 'c \<times> unit agent_result"

definition router_new :: "'i \<Rightarrow> 'c \<Rightarrow> ('i, 'c) input_router" where
  "router_new i c = \<lparr> injector = i, clip = c, frames_dispatched = 0, frames_rejected = 0 \<rparr>"

definition dispatch :: "('i, 'c) router_env \<Rightarrow> ('i, 'c) input_router \<Rightarrow> input_event \<Rightarrow> ('i, 'c) input_router" where
  "dispatch env r ev =
    (let r1 = (case ev of ClipboardText t \<Rightarrow> r\<lparr> clip := fst (clip_set env (clip r) t) \<rparr> | _ \<Rightarrow> r)
     in r1\<lparr> injector := fst (inject env (injector r1) ev) \<rparr>)"

definition router_handle_frame :: "('i, 'c) router_env \<Rightarrow> (string \<Rightarrow> (input_event, string) result)
    \<Rightarrow> ('i, 'c) input_router \<Rightarrow> string \<Rightarrow> ('i, 'c) input_router \<times> frame_outcome" where
  "router_handle_frame env parse r frame = (case parse frame of
     Inl e \<Rightarrow> (r\<lparr> frames_rejected := frames_rejected r + 1 \<rparr>, Rejected)
   | Inr ev \<Rightarrow> (let r' = dispatch env r ev in (r'\<lparr> frames_dispatched := frames_dispatched r' + 1 \<rparr>, Dispatched)))"

fun router_run :: "('i, 'c) router_env \<Rightarrow> (string \<Rightarrow> (input_event, string) result)
    \<Rightarrow> ('i, 'c) input_router \<Rightarrow> string list \<Rightarrow> ('i, 'c) input_router \<times> frame_outcome list" where
  "router_run env parse r [] = (r, [])"
| "router_run env parse r (f # fs) = (case router_handle_frame env parse r f of (r', out) \<Rightarrow>
     case router_run env parse r' fs of (r'', outs) \<Rightarrow> (r'', out # outs))"

section \<open>Properties of the mapping\<close>

lemma clamp_unit_cases: "f_clamp x (Fin 0) (Fin 1) = NaN \<or> (\<exists>v. f_clamp x (Fin 0) (Fin 1) = Fin v \<and> 0 \<le> v \<and> v \<le> 1)"
  by (cases x) (auto simp: f_clamp_def Let_def)

lemma scaled_axis:
  assumes "0 \<le> v" "v \<le> 1" "n < 2 ^ 32"
  shows "0 \<le> as_i32 (f_round (f_mul f64 (Fin v) (Fin (of_nat n))))
    \<and> as_i32 (f_round (f_mul f64 (Fin v) (Fin (of_nat n)))) \<le> int n"
proof -
  have b: "0 \<le> v * of_nat n" "v * of_nat n \<le> (of_nat n :: rat)"
    using assms(1,2) by (auto intro: mult_left_le_one_le)
  have "n \<le> 4294967296" using assms(3) by simp
  then have "(of_nat n :: rat) \<le> of_nat 4294967296" by (simp only: of_nat_le_iff)
  moreover have "(of_nat 4294967296 :: rat) \<le> fmax f64" by (simp add: f64_def)
  ultimately have big: "(of_nat n :: rat) \<le> fmax f64" by (rule order_trans)
  obtain r where r: "fround f64 (v * of_nat n) = Fin r" "0 \<le> r" "r \<le> of_nat n"
    using fround_bounds [OF b representable_u32 [OF assms(3)] _ big] by auto
  have "0 \<le> round_away r" using r(2) by (rule round_away_nonneg)
  moreover have "round_away r \<le> int n" using r(3) by (intro round_away_le) auto
  ultimately show ?thesis using r(1) by (simp add: min_def max_def)
qed

lemma pixel_axis:
  "0 \<le> as_i32 (f_round (f_mul f64 (f_clamp x (Fin 0) (Fin 1)) (Fin (of_nat (saturating_dec w)))))
   \<and> as_i32 (f_round (f_mul f64 (f_clamp x (Fin 0) (Fin 1)) (Fin (of_nat (saturating_dec w))))) \<le> int (unat w - 1)"
proof -
  have "unat w < 2 ^ 32" using unsigned_less [of w] by simp
  then have n: "saturating_dec w < 2 ^ 32" by (simp add: saturating_dec_def)
  from clamp_unit_cases [of x] show ?thesis
  proof
    assume "f_clamp x (Fin 0) (Fin 1) = NaN"
    then show ?thesis by simp
  next
    assume "\<exists>v. f_clamp x (Fin 0) (Fin 1) = Fin v \<and> 0 \<le> v \<and> v \<le> 1"
    then show ?thesis using scaled_axis [OF _ _ n] by (auto simp: saturating_dec_def)
  qed
qed

lemma f_mul_1: "n < 2 ^ 32 \<Longrightarrow> f_mul f64 (Fin 1) (Fin (of_nat n)) = Fin (of_nat n)"
proof -
  assume n: "n < 2 ^ 32"
  then have "n \<le> 4294967296" by simp
  then have "(of_nat n :: rat) \<le> of_nat 4294967296" by (simp only: of_nat_le_iff)
  moreover have "(of_nat 4294967296 :: rat) \<le> fmax f64" by (simp add: f64_def)
  ultimately have big: "(of_nat n :: rat) \<le> fmax f64" by (rule order_trans)
  show ?thesis using fround_representable [OF representable_u32 [OF n] _ _ big] by simp
qed

text \<open>
  Whatever coordinates a pointer event carries (out of range, infinite, not a number), the pixel it maps to
  lies on the display; the corners of the unit square map to the corners of a display of up to two thousand
  million pixels per side, and coordinates beyond them act like the nearest edge.
\<close>

theorem pixels_stay_on_display:
  "(case normalized_to_pixel x y w h of (px, py) \<Rightarrow>
      0 \<le> px \<and> px \<le> int (unat w - 1) \<and> 0 \<le> py \<and> py \<le> int (unat h - 1))
   \<and> normalized_to_pixel (Fin 0) (Fin 0) w h = (0, 0)
   \<and> (unat w \<le> 2 ^ 31 \<longrightarrow> unat h \<le> 2 ^ 31 \<longrightarrow>
        normalized_to_pixel (Fin 1) (Fin 1) w h = (int (unat w - 1), int (unat h - 1)))
   \<and> (1 \<le> a \<longrightarrow> b \<le> 0 \<longrightarrow> normalized_to_pixel (Fin a) (Fin b) w h = normalized_to_pixel (Fin 1) (Fin 0) w h)"
proof -
  have 1: "case normalized_to_pixel x y w h of (px, py) \<Rightarrow>
      0 \<le> px \<and> px \<le> int (unat w - 1) \<and> 0 \<le> py \<and> py \<le> int (unat h - 1)"
    using pixel_axis [of x w] pixel_axis [of y h] by (simp add: normalized_to_pixel_def Let_def)
  have c: "f_clamp (Fin 0) (Fin 0) (Fin 1) = Fin 0" "f_clamp (Fin 1) (Fin 0) (Fin 1) = Fin 1"
    by (simp_all add: f_clamp_def Let_def)
  have "0 \<le> fmax f64" by (simp add: f64_def)
  then have "fround f64 0 = Fin 0" using fround_representable [of f64 0] by simp
  then have 2: "normalized_to_pixel (Fin 0) (Fin 0) w h = (0, 0)"
    by (simp add: normalized_to_pixel_def Let_def c round_away_def trunc_rat_def floor_eq_iff)
  have axis: "as_i32 (f_round (f_mul f64 (Fin 1) (Fin (of_nat (saturating_dec v))))) = int (unat v - 1)"
    if "unat v \<le> 2 ^ 31" for v :: u32
  proof -
    have n: "saturating_dec v < 2 ^ 32" "saturating_dec v \<le> 2 ^ 31 - 1" using that by (auto simp: saturating_dec_def)
    have "round_away (of_nat (saturating_dec v)) = int (saturating_dec v)"
      by (simp add: round_away_def) (simp add: floor_eq_iff)
    then have "as_i32 (f_round (f_mul f64 (Fin 1) (Fin (of_nat (saturating_dec v)))))
        = max (- (2 ^ 31)) (min (2 ^ 31 - 1) (int (saturating_dec v)))"
      unfolding f_mul_1 [OF n(1)] using trunc_rat_of_int [of "int (saturating_dec v)"] by simp
    also have "\<dots> = int (saturating_dec v)" using n(2) by (simp add: min_def max_def)
    finally show ?thesis by (simp add: saturating_dec_def)
  qed
  have 3: "unat w \<le> 2 ^ 31 \<longrightarrow> unat h \<le> 2 ^ 31 \<longrightarrow>
        normalized_to_pixel (Fin 1) (Fin 1) w h = (int (unat w - 1), int (unat h - 1))"
    using axis [of w] axis [of h] by (simp add: normalized_to_pixel_def Let_def c)
  have "1 \<le> a \<Longrightarrow> f_clamp (Fin a) (Fin 0) (Fin 1) = Fin 1" "b \<le> 0 \<Longrightarrow> f_clamp (Fin b) (Fin 0) (Fin 1) = Fin 0"
    by (auto simp: f_clamp_def Let_def)
  then have 4: "1 \<le> a \<longrightarrow> b \<le> 0 \<longrightarrow> normalized_to_pixel (Fin a) (Fin b) w h = normalized_to_pixel (Fin 1) (Fin 0) w h"
    by (simp add: normalized_to_pixel_def Let_def c)
  from 1 2 3 4 show ?thesis by blast
qed

theorem pixels_stay_on_display_witness: "normalized_to_pixel (Fin 1) (Fin 1) 1920 1080 = (1919, 1079)"
  using pixels_stay_on_display [where w = 1920 and h = 1080] by simp

text \<open>
  The key table maps exactly the letters, digits, punctuation, function and navigation keys of the USB HID
  keyboard page, and no two codes to the same key; the function keys are F1 to F12.
\<close>

theorem hid_keys_distinct:
  "(map_hid_key a \<noteq> None \<longleftrightarrow> unat a \<in> set hid_codes)
   \<and> (map_hid_key a = Some k \<longrightarrow> map_hid_key b = Some k \<longrightarrow> a = b)
   \<and> (map_hid_key a = Some (Named (FKey n)) \<longrightarrow> 1 \<le> unat n \<and> unat n \<le> 12)"
proof -
  have "list_all (\<lambda>c. Option.is_none (hid_key c) \<noteq> (c \<in> set hid_codes)) [0..<0x53]" by code_simp
  then have small: "\<forall>c \<in> set [0..<0x53]. Option.is_none (hid_key c) \<noteq> (c \<in> set hid_codes)"
    unfolding list_all_iff .
  have dom: "hid_key c \<noteq> None \<longleftrightarrow> c \<in> set hid_codes" for c
  proof (cases "c < 0x53")
    case True
    with small show ?thesis by (auto simp: Option.is_none_def)
  next
    case False
    then have "hid_key c = None" by (simp add: hid_key_def)
    moreover have "c \<notin> set hid_codes" using False by (simp add: hid_codes_def del: upt_conv_Cons)
    ultimately show ?thesis by simp
  qed
  have "distinct (map hid_key hid_codes)" by code_simp
  then have inj: "hid_key c = hid_key d \<Longrightarrow> c \<in> set hid_codes \<Longrightarrow> d \<in> set hid_codes \<Longrightarrow> c = d" for c d
    by (auto simp: distinct_map inj_on_def)
  have "map_hid_key a = Some k \<Longrightarrow> map_hid_key b = Some k \<Longrightarrow> a = b"
    using dom [of "unat a"] dom [of "unat b"] inj [of "unat a" "unat b"] by (simp add: map_hid_key_def word_unat_eq_iff)
  moreover have "1 \<le> unat n \<and> unat n \<le> 12" if "map_hid_key a = Some (Named (FKey n))"
  proof -
    from that have "0x3A \<le> unat a \<and> unat a \<le> 0x45 \<and> n = word_of_nat (unat a - 0x3A + 1)"
      by (auto simp: map_hid_key_def hid_key_def split: if_splits)
    then show ?thesis by (auto simp: unat_of_nat simp del: of_nat_add of_nat_diff of_nat_Suc)
  qed
  ultimately show ?thesis using dom [of "unat a"] by (auto simp: map_hid_key_def)
qed

theorem hid_keys_distinct_witness: "{a. map_hid_key a = Some (CharKey CHR ''a'')} = {0x04}"
proof -
  have "map_hid_key 0x04 = Some (CharKey CHR ''a'')" by (simp add: map_hid_key_def hid_key_def) code_simp
  moreover from this have "a = 0x04" if "map_hid_key a = Some (CharKey CHR ''a'')" for a
    using that hid_keys_distinct [of a "CharKey CHR ''a''" "0x04"] by simp
  ultimately show ?thesis by blast
qed

section \<open>Properties of the router\<close>

definition decoded :: "(string \<Rightarrow> (input_event, string) result) \<Rightarrow> string list \<Rightarrow> input_event list" where
  "decoded parse fs = concat (map (\<lambda>f. case parse f of Inl _ \<Rightarrow> [] | Inr ev \<Rightarrow> [ev]) fs)"

definition clip_texts :: "input_event list \<Rightarrow> string list" where
  "clip_texts evs = concat (map (\<lambda>ev. case ev of ClipboardText t \<Rightarrow> [t] | _ \<Rightarrow> []) evs)"

lemma router_step:
  "router_handle_frame env parse r f = (r', out) \<Longrightarrow>
   out = (if is_ok (parse f) then Dispatched else Rejected)
   \<and> frames_dispatched r' = frames_dispatched r + (if is_ok (parse f) then 1 else 0)
   \<and> frames_rejected r' = frames_rejected r + (if is_ok (parse f) then 0 else 1)
   \<and> injector r' = foldl (\<lambda>i ev. fst (inject env i ev)) (injector r) (decoded parse [f])
   \<and> clip r' = foldl (\<lambda>c t. fst (clip_set env c t)) (clip r) (clip_texts (decoded parse [f]))"
  by (auto simp: router_handle_frame_def dispatch_def Let_def decoded_def clip_texts_def
      split: sum.splits input_event.splits)

text \<open>
  Every control frame is accounted for and none disturbs the session: a frame that does not decode is
  rejected and touches neither injector nor clipboard; every other frame counts as dispatched, even when the
  injection fails; the injector is given exactly the decoded events, in order, and the clipboard exactly the
  texts among them.
\<close>

theorem router_accounts:
  assumes "router_run env parse r fs = (r', outs)"
  shows "outs = map (\<lambda>f. if is_ok (parse f) then Dispatched else Rejected) fs
    \<and> frames_dispatched r' = frames_dispatched r + of_nat (length (decoded parse fs))
    \<and> frames_dispatched r' + frames_rejected r' = frames_dispatched r + frames_rejected r + of_nat (length fs)
    \<and> injector r' = foldl (\<lambda>i ev. fst (inject env i ev)) (injector r) (decoded parse fs)
    \<and> clip r' = foldl (\<lambda>c t. fst (clip_set env c t)) (clip r) (clip_texts (decoded parse fs))"
  using assms
proof (induction fs arbitrary: r r' outs)
  case Nil
  then show ?case by (simp add: decoded_def clip_texts_def)
next
  case (Cons f fs)
  obtain r1 out where 1: "router_handle_frame env parse r f = (r1, out)" by force
  obtain r2 outs2 where 2: "router_run env parse r1 fs = (r2, outs2)" by force
  have e: "r' = r2" "outs = out # outs2" using Cons.prems 1 2 by simp_all
  have d: "decoded parse (f # fs) = decoded parse [f] @ decoded parse fs" by (simp add: decoded_def)
  have t: "clip_texts (xs @ ys) = clip_texts xs @ clip_texts ys" for xs ys by (simp add: clip_texts_def)
  have l: "length (decoded parse [f]) = (if is_ok (parse f) then 1 else 0)" by (simp add: decoded_def is_ok_def split: sum.split)
  from router_step [OF 1] Cons.IH [OF 2] show ?case
    unfolding e d t by (cases "is_ok (parse f)") (auto simp: l)
qed

theorem router_accounts_witness:
  "\<exists>r' outs. router_run \<lparr> inject = noop_inject, clip_set = noop_set_text \<rparr> (\<lambda>f. Err ''bad'') (router_new 0 None) [''nope'']
     = (r', outs) \<and> outs = [Rejected] \<and> injector r' = 0"
proof -
  let ?env = "\<lparr> inject = noop_inject, clip_set = noop_set_text \<rparr>"
  obtain r' outs where r: "router_run ?env (\<lambda>f. Err ''bad'') (router_new 0 None) [''nope''] = (r', outs)" by force
  from router_accounts [OF r] r show ?thesis by (auto simp: router_new_def decoded_def)
qed

text \<open>
  With the in-memory clipboard, after any frames that decode to at least one clipboard text the clipboard
  reads back the last of these texts, whatever other events, malformed frames and injection failures there were.
\<close>

theorem clipboard_holds_last_text:
  assumes "router_run env parse r fs = (r', outs)" and "clip_set env = noop_set_text"
    and "clip_texts (decoded parse fs) \<noteq> []"
  shows "snd (noop_get_text (clip r')) = Ok (Some (List.last (clip_texts (decoded parse fs))))"
proof -
  have "clip r' = foldl (\<lambda>c t. fst (noop_set_text c t)) (clip r) (clip_texts (decoded parse fs))"
    using assms(1)
  proof (induction fs arbitrary: r r' outs)
    case Nil
    then show ?case by (simp add: decoded_def clip_texts_def)
  next
    case (Cons f fs)
    obtain r1 out where 1: "router_handle_frame env parse r f = (r1, out)" by force
    obtain r2 outs2 where 2: "router_run env parse r1 fs = (r2, outs2)" by force
    have "decoded parse (f # fs) = decoded parse [f] @ decoded parse fs" by (simp add: decoded_def)
    with router_step [OF 1] Cons.IH [OF 2] Cons.prems 1 2 show ?case by (simp add: clip_texts_def assms(2))
  qed
  then show ?thesis
    using noop_clipboard.last_text_read [OF assms(3)] by (simp add: noop_set_text_def)
qed

theorem clipboard_holds_last_text_witness:
  "\<exists>r' outs. router_run \<lparr> inject = noop_inject, clip_set = noop_set_text \<rparr> (\<lambda>f. Ok (ClipboardText f)) (router_new 0 None) [''hello'']
     = (r', outs) \<and> snd (noop_get_text (clip r')) = Ok (Some ''hello'')"
proof -
  let ?env = "\<lparr> inject = noop_inject, clip_set = noop_set_text \<rparr>"
  obtain r' outs where r: "router_run ?env (\<lambda>f. Ok (ClipboardText f)) (router_new 0 None) [''hello''] = (r', outs)" by force
  from clipboard_holds_last_text [OF r] r show ?thesis by (simp add: decoded_def clip_texts_def)
qed

end
