(* ===== verification/Dev_Model.thy ===== *)
theory Dev_Model
  imports Rust_Str
begin

text \<open>
  Data of the developer-tools engine (\<open>crates/devtools/src/model.rs\<close> and \<open>error.rs\<close>): the closed wire model
  of developer actions, the registered workspaces and hosts, the shell-free command a request is
  planned into, and the engine's error type with its rendering.
\<close>

section \<open>Errors\<close>

datatype dev_error =
    UnknownWorkspace string
  | UnknownHost string
  | UnknownShortcut string string
  | Unsupported string
  | Invalid string string
  | Execution string

type_synonym 'a dev_result = "('a, dev_error) result"

definition dev_invalid :: "string \<Rightarrow> string \<Rightarrow> dev_error" where
  "dev_invalid kind reason = Invalid kind reason"

abbreviation quote :: string where "quote \<equiv> [CHR 39]"

fun dev_error_display :: "dev_error \<Rightarrow> string" where
  "dev_error_display (UnknownWorkspace i) = ''unknown workspace: '' @ i"
| "dev_error_display (UnknownHost i) = ''unknown ssh host: '' @ i"
| "dev_error_display (UnknownShortcut tool s) = ''unknown shortcut '' @ quote @ s @ quote @ '' for '' @ tool"
| "dev_error_display (Unsupported w) = ''action not supported on this platform: '' @ w"
| "dev_error_display (Invalid kind reason) = ''invalid '' @ kind @ '': '' @ reason"
| "dev_error_display (Execution m) = ''execution failed: '' @ m"

section \<open>The wire model\<close>

datatype editor = VsCode | Cursor | Claude

datatype terminal = Warp | AppleTerminal | ITerm | PowerShell | WindowsTerminal

datatype tool = Git | Docker | Kubectl | Helm

text \<open>The \<open>Debug\<close> names the error messages quote.\<close>

fun terminal_debug :: "terminal \<Rightarrow> string" where
  "terminal_debug Warp = ''Warp''"
| "terminal_debug AppleTerminal = ''AppleTerminal''"
| "terminal_debug ITerm = ''ITerm''"
| "terminal_debug PowerShell = ''PowerShell''"
| "terminal_debug WindowsTerminal = ''WindowsTerminal''"

fun tool_debug :: "tool \<Rightarrow> string" where
  "tool_debug Git = ''Git''"
| "tool_debug Docker = ''Docker''"
| "tool_debug Kubectl = ''Kubectl''"
| "tool_debug Helm = ''Helm''"

datatype dev_action_kind =
    LaunchEditor editor "string option"
  | OpenTerminal terminal "string option"
  | RunShortcut tool string "string option"
  | SshConnect string terminal

record dev_action_request =
  request_id :: string
  request_kind :: dev_action_kind

datatype dev_action_status = StatusOk | StatusError

record dev_action_result =
  result_id :: string
  status :: dev_action_status
  message :: string
  result_output :: string

definition result_ok :: "string \<Rightarrow> string \<Rightarrow> dev_action_result" where
  "result_ok i m = \<lparr> result_id = i, status = StatusOk, message = m, result_output = [] \<rparr>"

definition result_ok_output :: "string \<Rightarrow> string \<Rightarrow> dev_action_result" where
  "result_ok_output i out = \<lparr> result_id = i, status = StatusOk, message = [], result_output = out \<rparr>"

definition result_error :: "string \<Rightarrow> string \<Rightarrow> dev_action_result" where
  "result_error i m = \<lparr> result_id = i, status = StatusError, message = m, result_output = [] \<rparr>"

section \<open>Commands\<close>

record command_spec =
  program :: string
  args :: "string list"
  cwd :: "string option"
  capture_output :: bool

definition command_launch :: "string \<Rightarrow> string list \<Rightarrow> command_spec" where
  "command_launch p xs = \<lparr> program = p, args = xs, cwd = None, capture_output = False \<rparr>"

definition command_captured :: "string \<Rightarrow> string list \<Rightarrow> string option \<Rightarrow> command_spec" where
  "command_captured p xs dir = \<lparr> program = p, args = xs, cwd = dir, capture_output = True \<rparr>"

definition with_cwd :: "command_spec \<Rightarrow> string option \<Rightarrow> command_spec" where
  "with_cwd spec dir = spec\<lparr> cwd := dir \<rparr>"

lemma command_simps [simp]:
  "program (command_launch p xs) = p" "args (command_launch p xs) = xs" "cwd (command_launch p xs) = None"
  "\<not> capture_output (command_launch p xs)"
  "program (command_captured p xs d) = p" "args (command_captured p xs d) = xs" "cwd (command_captured p xs d) = d"
  "capture_output (command_captured p xs d)"
  "program (with_cwd c d) = program c" "args (with_cwd c d) = args c" "cwd (with_cwd c d) = d"
  "capture_output (with_cwd c d) = capture_output c"
  by (simp_all add: command_launch_def command_captured_def with_cwd_def)

section \<open>Registered resources\<close>

record workspace =
  ws_id :: string
  ws_name :: string
  ws_path :: string

record ssh_host =
  host_id :: string
  host_label :: string
  host_user :: string
  host_host :: string
  host_port :: u16

definition default_ssh_port :: u16 where
  "default_ssh_port = 22"

definition destination :: "ssh_host \<Rightarrow> string" where
  "destination h = host_user h @ ''@'' @ host_host h"

end
