(* ===== verification/Dev_Registry.thy ===== *)
theory Dev_Registry
  imports Dev_Model
begin

text \<open>
  The registries of user-approved workspaces and SSH hosts (\<open>crates/devtools/src/registry.rs\<close>). Their common
  contract is the locale \<open>keyed_registry\<close>: a registry refines a map from ids to validated entries. Both
  registries are instances of it, and the loaders \<open>from_items\<close> are characterised through it.
\<close>

section \<open>The contract\<close>

datatype 'v registry_op = Upsert 'v | Remove string

text \<open>
  One administrative operation; a rejected \<open>upsert\<close> leaves the registry as it is. The abstract registry is a
  map from ids to entries.
\<close>

fun apply_op :: "('r \<Rightarrow> 'v \<Rightarrow> ('r, 'e) result) \<Rightarrow> ('r \<Rightarrow> string \<Rightarrow> 'r \<times> bool) \<Rightarrow> 'r \<Rightarrow> 'v registry_op \<Rightarrow> 'r" where
  "apply_op ups rem r (Upsert v) = (case ups r v of Inl _ \<Rightarrow> r | Inr r' \<Rightarrow> r')"
| "apply_op ups rem r (Remove k) = fst (rem r k)"

fun spec_op :: "('v \<Rightarrow> (unit, 'e) result) \<Rightarrow> ('v \<Rightarrow> string) \<Rightarrow> (string \<rightharpoonup> 'v) \<Rightarrow> 'v registry_op \<Rightarrow> (string \<rightharpoonup> 'v)" where
  "spec_op valid key m (Upsert v) = (if valid v = Ok () then m(key v \<mapsto> v) else m)"
| "spec_op valid key m (Remove k) = m(k := None)"

text \<open>Loading a list of items by inserting them one at a time, stopping at the first error.\<close>

fun load_items :: "('r \<Rightarrow> 'v \<Rightarrow> ('r, 'e) result) \<Rightarrow> 'r \<Rightarrow> 'v list \<Rightarrow> ('r, 'e) result" where
  "load_items ups r [] = Ok r"
| "load_items ups r (v # vs) = bind_result (ups r v) (\<lambda>r'. load_items ups r' vs)"

locale keyed_registry =
  fixes empty_reg :: 'r
    and get :: "'r \<Rightarrow> string \<Rightarrow> 'v option"
    and upsert :: "'r \<Rightarrow> 'v \<Rightarrow> ('r, 'e) result"
    and remove :: "'r \<Rightarrow> string \<Rightarrow> 'r \<times> bool"
    and validate :: "'v \<Rightarrow> (unit, 'e) result"
    and key :: "'v \<Rightarrow> string"
  assumes get_empty: "get empty_reg k = None"
    and upsert_invalid: "validate v = Err e \<Longrightarrow> upsert r v = Err e"
    and upsert_valid: "validate v = Ok () \<Longrightarrow> \<exists>r'. upsert r v = Ok r'"
    and get_upsert: "upsert r v = Ok r' \<Longrightarrow> get r' k = (if k = key v then Some v else get r k)"
    and get_remove: "get (fst (remove r j)) k = (if k = j then None else get r k)"
    and remove_existed: "snd (remove r k) \<longleftrightarrow> get r k \<noteq> None"
begin

lemma upsert_Ok_iff: "(\<exists>r'. upsert r v = Ok r') \<longleftrightarrow> validate v = Ok ()"
  by (cases "validate v") (use upsert_invalid [of v _ r] upsert_valid [of v r] in auto)

lemma upsert_Err_iff: "upsert r v = Err e \<longleftrightarrow> validate v = Err e"
proof (cases "validate v")
  case (Inl e')
  then show ?thesis using upsert_invalid [OF Inl, of r] by simp
next
  case (Inr u)
  then show ?thesis using upsert_valid [of v r] by auto
qed

lemma refines_step: "get (apply_op upsert remove r opn) = spec_op validate key (get r) opn"
proof (cases opn)
  case (Upsert v)
  show ?thesis
  proof (cases "validate v")
    case (Inl e)
    with Upsert upsert_invalid [OF Inl] show ?thesis by simp
  next
    case (Inr u)
    then obtain r' where "upsert r v = Ok r'" using upsert_valid [of v r] by auto
    with Upsert Inr show ?thesis using get_upsert [of r v r'] by (auto simp: fun_eq_iff)
  qed
next
  case (Remove k)
  then show ?thesis by (auto simp: get_remove fun_eq_iff)
qed

lemma refines: "get (foldl (apply_op upsert remove) r ops) = foldl (spec_op validate key) (get r) ops"
proof (induction ops arbitrary: r)
  case (Cons opn ops)
  show ?case using Cons [of "apply_op upsert remove r opn"] by (simp add: refines_step)
qed simp

lemma spec_valid:
  "(\<And>k v. m k = Some v \<Longrightarrow> key v = k \<and> validate v = Ok ()) \<Longrightarrow> foldl (spec_op validate key) m ops k = Some v
     \<Longrightarrow> key v = k \<and> validate v = Ok ()"
proof (induction ops arbitrary: m)
  case (Cons opn ops)
  show ?case
  proof (rule Cons.IH)
    show "foldl (spec_op validate key) (spec_op validate key m opn) ops k = Some v" using Cons.prems(2) by simp
    show "key w = j \<and> validate w = Ok ()" if "spec_op validate key m opn j = Some w" for j w
      using that Cons.prems(1) [of j w] by (cases opn) (auto split: if_splits)
  qed
qed simp

text \<open>Whatever was done to a registry, an entry it hands out is validated and carries the id asked for.\<close>

lemma history_valid: "get (foldl (apply_op upsert remove) empty_reg ops) k = Some v \<Longrightarrow> key v = k \<and> validate v = Ok ()"
  unfolding refines by (erule spec_valid [rotated]) (simp add: get_empty)

lemma load_Ok:
  "load_items upsert r vs = Ok r' \<Longrightarrow> (\<forall>v \<in> set vs. validate v = Ok ()) \<and> r' = foldl (apply_op upsert remove) r (map Upsert vs)"
proof (induction vs arbitrary: r)
  case (Cons v vs)
  then obtain r1 where r1: "upsert r v = Ok r1" "load_items upsert r1 vs = Ok r'" by (auto simp: bind_result_Ok_iff)
  then have "validate v = Ok ()" using upsert_Ok_iff [of r v] by auto
  with Cons.IH [OF r1(2)] r1(1) show ?case by simp
qed simp

lemma load_valid: "\<forall>v \<in> set vs. validate v = Ok () \<Longrightarrow> \<exists>r'. load_items upsert r vs = Ok r'"
proof (induction vs arbitrary: r)
  case (Cons v vs)
  then obtain r1 where "upsert r v = Ok r1" using upsert_valid [of v r] by auto
  with Cons show ?case by simp
qed simp

text \<open>A load fails exactly with the error of its first invalid item.\<close>

lemma load_Err:
  "load_items upsert r vs = Err e \<longleftrightarrow> (\<exists>v. find (\<lambda>v. validate v \<noteq> Ok ()) vs = Some v \<and> validate v = Err e)"
proof (induction vs arbitrary: r)
  case (Cons v vs)
  show ?case
  proof (cases "validate v")
    case (Inl e')
    then show ?thesis using upsert_invalid [OF Inl, of r] by simp
  next
    case (Inr u)
    then obtain r1 where "upsert r v = Ok r1" using upsert_valid [of v r] by auto
    with Cons Inr show ?thesis by simp
  qed
qed simp

lemma foldl_upsert_get:
  "\<forall>v \<in> set vs. validate v = Ok () \<Longrightarrow>
   get (foldl (apply_op upsert remove) r (map Upsert vs)) k
     = (case find (\<lambda>v. key v = k) (rev vs) of None \<Rightarrow> get r k | Some v \<Rightarrow> Some v)"
proof (induction vs rule: rev_induct)
  case (snoc v vs)
  then show ?case by (simp add: refines_step del: apply_op.simps)
qed simp

text \<open>After a load, an id resolves to the last item that carries it.\<close>

lemma load_get:
  assumes "load_items upsert empty_reg vs = Ok r"
  shows "get r k = find (\<lambda>v. key v = k) (rev vs)"
  using load_Ok [OF assms] by (simp add: foldl_upsert_get get_empty split: option.split)

end

section \<open>Shared list operations\<close>

text \<open>\<open>iter_mut().find(p)\<close> followed by an assignment through the reference.\<close>

fun assign_first :: "('a \<Rightarrow> bool) \<Rightarrow> 'a \<Rightarrow> 'a list \<Rightarrow> 'a list option" where
  "assign_first p y [] = None"
| "assign_first p y (x # xs) = (if p x then Some (y # xs) else map_option (Cons x) (assign_first p y xs))"

lemma assign_first_None: "assign_first p y xs = None \<longleftrightarrow> (\<forall>x \<in> set xs. \<not> p x)"
  by (induction xs) auto

definition list_upsert :: "('a \<Rightarrow> string) \<Rightarrow> 'a list \<Rightarrow> 'a \<Rightarrow> 'a list" where
  "list_upsert key xs y = (case assign_first (\<lambda>x. key x = key y) y xs of Some ys \<Rightarrow> ys | None \<Rightarrow> xs @ [y])"

lemma find_append: "find p (xs @ ys) = (case find p xs of None \<Rightarrow> find p ys | Some x \<Rightarrow> Some x)"
  by (induction xs) auto

lemma find_list_upsert:
  "find (\<lambda>x. key x = k) (list_upsert key xs y) = (if k = key y then Some y else find (\<lambda>x. key x = k) xs)"
proof (cases "assign_first (\<lambda>x. key x = key y) y xs")
  case None
  then have "\<forall>x \<in> set xs. key x \<noteq> key y" by (simp add: assign_first_None)
  then have "find (\<lambda>x. key x = key y) xs = None" by (simp add: find_None_iff)
  with None show ?thesis by (auto simp: list_upsert_def find_append split: option.split)
next
  case (Some ys)
  then have "find (\<lambda>x. key x = k) ys = (if k = key y then Some y else find (\<lambda>x. key x = k) xs)"
    by (induction xs arbitrary: ys) (auto split: if_splits)
  with Some show ?thesis by (simp add: list_upsert_def)
qed

lemma find_filter_key:
  "find (\<lambda>x. key x = k) (filter (\<lambda>x. key x \<noteq> j) xs) = (if k = j then None else find (\<lambda>x. key x = k) xs)"
  by (induction xs) auto

lemma filter_shorter_iff: "length (filter p xs) \<noteq> length xs \<longleftrightarrow> find (\<lambda>x. \<not> p x) xs \<noteq> None"
proof -
  have "length (filter p xs) = length xs \<longleftrightarrow> (\<forall>x \<in> set xs. p x)"
    by (metis filter_True length_filter_less nat_neq_iff)
  then show ?thesis by (auto simp: find_None_iff)
qed

lemma keys_list_upsert:
  "distinct (map key xs) \<Longrightarrow> distinct (map key (list_upsert key xs y))
     \<and> set (list_upsert key xs y) \<subseteq> insert y (set xs)"
proof (cases "assign_first (\<lambda>x. key x = key y) y xs")
  case None
  assume "distinct (map key xs)"
  moreover have "list_upsert key xs y = xs @ [y]" using None by (simp add: list_upsert_def)
  ultimately show ?thesis using None by (auto simp: assign_first_None)
next
  case (Some ys)
  assume d: "distinct (map key xs)"
  have "map key ys = map key xs \<and> set ys \<subseteq> insert y (set xs)"
    using Some by (induction xs arbitrary: ys) (auto split: if_splits)
  with Some d show ?thesis by (simp add: list_upsert_def)
qed

section \<open>Validation\<close>

text \<open>\<open>Path::is_absolute\<close> of a Unix build: the path starts with the separator.\<close>

definition is_absolute :: "string \<Rightarrow> bool" where
  "is_absolute p = starts_with ''/'' p"

definition validate_workspace :: "workspace \<Rightarrow> unit dev_result" where
  "validate_workspace w =
    (if trim (ws_id w) = [] then Err (dev_invalid ''workspace'' ''id must not be empty'')
     else if trim (ws_name w) = [] then Err (dev_invalid ''workspace'' ''name must not be empty'')
     else if trim (ws_path w) = [] \<or> \<not> is_absolute (ws_path w)
       then Err (dev_invalid ''workspace'' ''path must be absolute'')
     else Ok ())"

text \<open>The loop over the two fields that feed argv.\<close>

fun validate_fields :: "(string \<times> string) list \<Rightarrow> unit dev_result" where
  "validate_fields [] = Ok ()"
| "validate_fields ((field, v) # rest) =
    (if trim v = [] then Err (dev_invalid ''ssh host'' (field @ '' must not be empty''))
     else if list_ex (\<lambda>c. uc_whitespace (code_point c) \<or> uc_control (code_point c)) (utf8_chars v)
       then Err (dev_invalid ''ssh host'' (field @ '' must not contain whitespace or control characters''))
     else validate_fields rest)"

definition validate_host :: "ssh_host \<Rightarrow> unit dev_result" where
  "validate_host h =
    (if trim (host_id h) = [] then Err (dev_invalid ''ssh host'' ''id must not be empty'')
     else if trim (host_label h) = [] then Err (dev_invalid ''ssh host'' ''label must not be empty'')
     else bind_result (validate_fields [(''user'', host_user h), (''host'', host_host h)]) (\<lambda>_.
       if host_port h = 0 then Err (dev_invalid ''ssh host'' ''port must be non-zero'') else Ok ()))"

definition clean_field :: "string \<Rightarrow> bool" where
  "clean_field v \<longleftrightarrow> v \<noteq> []
     \<and> list_all (\<lambda>c. \<not> uc_whitespace (code_point c) \<and> \<not> uc_control (code_point c)) (utf8_chars v)"

lemma clean_field_trim: "clean_field v \<Longrightarrow> trim v \<noteq> []"
  by (cases "utf8_chars v") (auto simp: clean_field_def trim_empty_iff)

lemma validate_fields_Ok: "validate_fields fs = Ok () \<longleftrightarrow> (\<forall>(f, v) \<in> set fs. clean_field v)"
proof (induction fs)
  case (Cons fv fs)
  have "clean_field v \<longleftrightarrow> trim v \<noteq> []
      \<and> \<not> list_ex (\<lambda>c. uc_whitespace (code_point c) \<or> uc_control (code_point c)) (utf8_chars v)" for v
    using clean_field_trim [of v] by (auto simp: clean_field_def list_ex_iff list_all_iff)
  with Cons show ?case by (cases fv) simp
qed simp

lemma validate_workspace_Ok:
  "validate_workspace w = Ok () \<longleftrightarrow> trim (ws_id w) \<noteq> [] \<and> trim (ws_name w) \<noteq> []
     \<and> trim (ws_path w) \<noteq> [] \<and> is_absolute (ws_path w)"
  by (simp add: validate_workspace_def)

lemma validate_host_Ok:
  "validate_host h = Ok () \<longleftrightarrow> trim (host_id h) \<noteq> [] \<and> trim (host_label h) \<noteq> []
     \<and> clean_field (host_user h) \<and> clean_field (host_host h) \<and> host_port h \<noteq> 0"
  by (cases "validate_fields [(''user'', host_user h), (''host'', host_host h)]")
     (use validate_fields_Ok [of "[(''user'', host_user h), (''host'', host_host h)]"] in
       \<open>auto simp: validate_host_def\<close>)

section \<open>Workspaces\<close>

record workspace_registry =
  workspace_items :: "workspace list"

definition workspace_new :: workspace_registry where
  "workspace_new = \<lparr> workspace_items = [] \<rparr>"

definition workspace_get :: "workspace_registry \<Rightarrow> string \<Rightarrow> workspace option" where
  "workspace_get r i = find (\<lambda>x. ws_id x = i) (workspace_items r)"

definition resolve_path :: "workspace_registry \<Rightarrow> string \<Rightarrow> string dev_result" where
  "resolve_path r i = ok_or (map_option ws_path (workspace_get r i)) (UnknownWorkspace i)"

definition workspace_upsert :: "workspace_registry \<Rightarrow> workspace \<Rightarrow> workspace_registry dev_result" where
  "workspace_upsert r x = bind_result (validate_workspace x) (\<lambda>_.
     Ok (r\<lparr> workspace_items := list_upsert ws_id (workspace_items r) x \<rparr>))"

definition workspace_remove :: "workspace_registry \<Rightarrow> string \<Rightarrow> workspace_registry \<times> bool" where
  "workspace_remove r i = (let kept = filter (\<lambda>x. ws_id x \<noteq> i) (workspace_items r) in
     (r\<lparr> workspace_items := kept \<rparr>, length kept \<noteq> length (workspace_items r)))"

definition workspace_from_items :: "workspace list \<Rightarrow> workspace_registry dev_result" where
  "workspace_from_items items = load_items workspace_upsert workspace_new items"

abbreviation workspace_history :: "workspace registry_op list \<Rightarrow> workspace_registry" where
  "workspace_history ops \<equiv> foldl (apply_op workspace_upsert workspace_remove) workspace_new ops"

interpretation workspaces: keyed_registry workspace_new workspace_get workspace_upsert workspace_remove validate_workspace ws_id
proof unfold_locales
  show "workspace_get workspace_new k = None" for k by (simp add: workspace_get_def workspace_new_def)
  show "workspace_upsert r v = Err e" if "validate_workspace v = Err e" for v e r using that by (simp add: workspace_upsert_def)
  show "\<exists>r'. workspace_upsert r v = Ok r'" if "validate_workspace v = Ok ()" for v r using that by (simp add: workspace_upsert_def)
  show "workspace_get r' k = (if k = ws_id v then Some v else workspace_get r k)" if "workspace_upsert r v = Ok r'" for r v r' k
    using that by (auto simp: workspace_upsert_def workspace_get_def bind_result_Ok_iff find_list_upsert)
  show "workspace_get (fst (workspace_remove r j)) k = (if k = j then None else workspace_get r k)" for r j k
    by (simp add: workspace_remove_def workspace_get_def find_filter_key Let_def)
  show "snd (workspace_remove r k) \<longleftrightarrow> workspace_get r k \<noteq> None" for r k
    by (simp add: workspace_remove_def workspace_get_def filter_shorter_iff Let_def)
qed

text \<open>The ids of the listed entries are distinct and every listed entry is valid.\<close>

definition workspace_inv :: "workspace_registry \<Rightarrow> bool" where
  "workspace_inv r \<longleftrightarrow> distinct (map ws_id (workspace_items r)) \<and> (\<forall>x \<in> set (workspace_items r). validate_workspace x = Ok ())"

lemma workspace_inv_step: "workspace_inv r \<Longrightarrow> workspace_inv (apply_op workspace_upsert workspace_remove r op')"
proof (cases op')
  case (Upsert v)
  assume inv: "workspace_inv r"
  then show ?thesis
    using Upsert keys_list_upsert [of ws_id "workspace_items r" v]
    by (cases "validate_workspace v") (auto simp: workspace_inv_def workspace_upsert_def)
next
  case (Remove k)
  assume "workspace_inv r"
  with Remove show ?thesis by (auto simp: workspace_inv_def workspace_remove_def Let_def distinct_map_filter)
qed

lemma workspace_inv_history: "workspace_inv (workspace_history ops)"
proof (induction ops rule: rev_induct)
  case Nil
  show ?case by (simp add: workspace_inv_def workspace_new_def)
next
  case (snoc opn ops)
  then show ?case by (simp add: workspace_inv_step del: apply_op.simps)
qed

lemma workspace_from_items_inv: "workspace_from_items items = Ok r \<Longrightarrow> workspace_inv r"
  using workspaces.load_Ok workspace_inv_history unfolding workspace_from_items_def by blast

section \<open>SSH hosts\<close>

record host_registry =
  host_items :: "ssh_host list"

definition host_new :: host_registry where
  "host_new = \<lparr> host_items = [] \<rparr>"

definition host_get :: "host_registry \<Rightarrow> string \<Rightarrow> ssh_host option" where
  "host_get r i = find (\<lambda>x. host_id x = i) (host_items r)"

definition resolve_host :: "host_registry \<Rightarrow> string \<Rightarrow> ssh_host dev_result" where
  "resolve_host r i = ok_or (host_get r i) (UnknownHost i)"

definition host_upsert :: "host_registry \<Rightarrow> ssh_host \<Rightarrow> host_registry dev_result" where
  "host_upsert r x = bind_result (validate_host x) (\<lambda>_.
     Ok (r\<lparr> host_items := list_upsert host_id (host_items r) x \<rparr>))"

definition host_remove :: "host_registry \<Rightarrow> string \<Rightarrow> host_registry \<times> bool" where
  "host_remove r i = (let kept = filter (\<lambda>x. host_id x \<noteq> i) (host_items r) in
     (r\<lparr> host_items := kept \<rparr>, length kept \<noteq> length (host_items r)))"

definition host_from_items :: "ssh_host list \<Rightarrow> host_registry dev_result" where
  "host_from_items items = load_items host_upsert host_new items"

abbreviation host_history :: "ssh_host registry_op list \<Rightarrow> host_registry" where
  "host_history ops \<equiv> foldl (apply_op host_upsert host_remove) host_new ops"

interpretation hosts: keyed_registry host_new host_get host_upsert host_remove validate_host host_id
proof unfold_locales
  show "host_get host_new k = None" for k by (simp add: host_get_def host_new_def)
  show "host_upsert r v = Err e" if "validate_host v = Err e" for v e r using that by (simp add: host_upsert_def)
  show "\<exists>r'. host_upsert r v = Ok r'" if "validate_host v = Ok ()" for v r using that by (simp add: host_upsert_def)
  show "host_get r' k = (if k = host_id v then Some v else host_get r k)" if "host_upsert r v = Ok r'" for r v r' k
    using that by (auto simp: host_upsert_def host_get_def bind_result_Ok_iff find_list_upsert)
  show "host_get (fst (host_remove r j)) k = (if k = j then None else host_get r k)" for r j k
    by (simp add: host_remove_def host_get_def find_filter_key Let_def)
  show "snd (host_remove r k) \<longleftrightarrow> host_get r k \<noteq> None" for r k
    by (simp add: host_remove_def host_get_def filter_shorter_iff Let_def)
qed

text \<open>The ids of the listed entries are distinct and every listed entry is valid.\<close>

definition host_inv :: "host_registry \<Rightarrow> bool" where
  "host_inv r \<longleftrightarrow> distinct (map host_id (host_items r)) \<and> (\<forall>x \<in> set (host_items r). validate_host x = Ok ())"

lemma host_inv_step: "host_inv r \<Longrightarrow> host_inv (apply_op host_upsert host_remove r op')"
proof (cases op')
  case (Upsert v)
  assume inv: "host_inv r"
  then show ?thesis
    using Upsert keys_list_upsert [of host_id "host_items r" v]
    by (cases "validate_host v") (auto simp: host_inv_def host_upsert_def)
next
  case (Remove k)
  assume "host_inv r"
  with Remove show ?thesis by (auto simp: host_inv_def host_remove_def Let_def distinct_map_filter)
qed

lemma host_inv_history: "host_inv (host_history ops)"
proof (induction ops rule: rev_induct)
  case Nil
  show ?case by (simp add: host_inv_def host_new_def)
next
  case (snoc opn ops)
  then show ?case by (simp add: host_inv_step del: apply_op.simps)
qed

lemma host_from_items_inv: "host_from_items items = Ok r \<Longrightarrow> host_inv r"
  using hosts.load_Ok host_inv_history unfolding host_from_items_def by blast

section \<open>Properties\<close>

lemma resolve_path_Ok: "resolve_path r i = Ok p \<longleftrightarrow> (\<exists>w. workspace_get r i = Some w \<and> p = ws_path w)"
  by (auto simp: resolve_path_def ok_or_def split: option.splits)

lemma resolve_path_Err: "resolve_path r i = Err e \<longleftrightarrow> workspace_get r i = None \<and> e = UnknownWorkspace i"
  by (auto simp: resolve_path_def ok_or_def split: option.splits)

lemma resolve_host_Ok: "resolve_host r i = Ok h \<longleftrightarrow> host_get r i = Some h"
  by (auto simp: resolve_host_def ok_or_def split: option.splits)

lemma resolve_host_Err: "resolve_host r i = Err e \<longleftrightarrow> host_get r i = None \<and> e = UnknownHost i"
  by (auto simp: resolve_host_def ok_or_def split: option.splits)

lemma workspace_get_valid:
  assumes "workspace_inv r" and "workspace_get r i = Some w"
  shows "ws_id w = i \<and> validate_workspace w = Ok ()"
proof -
  have "w \<in> set (workspace_items r)" and "ws_id w = i"
    using assms(2) unfolding workspace_get_def find_Some_iff by auto
  with assms(1) show ?thesis by (simp add: workspace_inv_def)
qed

lemma host_get_valid:
  assumes "host_inv r" and "host_get r i = Some h"
  shows "host_id h = i \<and> validate_host h = Ok ()"
proof -
  have "h \<in> set (host_items r)" and "host_id h = i"
    using assms(2) unfolding host_get_def find_Some_iff by auto
  with assms(1) show ?thesis by (simp add: host_inv_def)
qed

text \<open>
  C36: A workspace registry refines a map from ids to workspaces: whatever sequence of insertions and
  removals it went through, looking up an id gives what the abstract map (which ignores rejected
  insertions, overwrites on insertion and erases on removal) holds; a removal reports whether the entry
  existed, the listed ids are distinct, and a path it resolves is the absolute path of a validated entry
  with that id.
\<close>

theorem workspaces_refine_map:
  "workspace_get (workspace_history ops) = foldl (spec_op validate_workspace ws_id) Map.empty ops
   \<and> (snd (workspace_remove (workspace_history ops) k)
        \<longleftrightarrow> foldl (spec_op validate_workspace ws_id) Map.empty ops k \<noteq> None)
   \<and> distinct (map ws_id (workspace_items (workspace_history ops)))
   \<and> (resolve_path (workspace_history ops) k = Ok p \<longrightarrow>
        is_absolute p \<and> (\<exists>w \<in> set (workspace_items (workspace_history ops)). ws_id w = k \<and> ws_path w = p))"
proof -
  have e: "workspace_get workspace_new = Map.empty" by (simp add: fun_eq_iff workspaces.get_empty)
  have inv: "workspace_inv (workspace_history ops)" by (rule workspace_inv_history)
  have p: "is_absolute p \<and> (\<exists>w \<in> set (workspace_items (workspace_history ops)). ws_id w = k \<and> ws_path w = p)"
    if r: "resolve_path (workspace_history ops) k = Ok p"
  proof -
    from r obtain w where w: "workspace_get (workspace_history ops) k = Some w" "p = ws_path w"
      by (auto simp: resolve_path_Ok)
    then have "w \<in> set (workspace_items (workspace_history ops))"
      unfolding workspace_get_def find_Some_iff by auto
    with w workspace_get_valid [OF inv w(1)] show ?thesis by (auto simp: validate_workspace_Ok)
  qed
  from inv have d: "distinct (map ws_id (workspace_items (workspace_history ops)))" by (simp add: workspace_inv_def)
  have m: "workspace_get (workspace_history ops) = foldl (spec_op validate_workspace ws_id) Map.empty ops"
    by (simp add: workspaces.refines e)
  then have "snd (workspace_remove (workspace_history ops) k)
        \<longleftrightarrow> foldl (spec_op validate_workspace ws_id) Map.empty ops k \<noteq> None"
    by (simp add: workspaces.remove_existed)
  with m d p show ?thesis by blast
qed

definition sample_workspace :: workspace where
  "sample_workspace = \<lparr> ws_id = ''ws1'', ws_name = ''App'', ws_path = ''/home/dev/app'' \<rparr>"

definition sample_host :: ssh_host where
  "sample_host = \<lparr> host_id = ''prod'', host_label = ''Prod'', host_user = ''deploy'', host_host = ''10.0.0.1'', host_port = 22 \<rparr>"

lemma sample_workspace_valid: "validate_workspace sample_workspace = Ok ()"
  by (simp add: validate_workspace_Ok sample_workspace_def is_absolute_def starts_with_def str_eval)

lemma sample_host_valid: "validate_host sample_host = Ok ()"
  by (simp add: validate_host_Ok sample_host_def clean_field_def str_eval)

theorem workspaces_refine_map_witness:
  "resolve_path (workspace_history [Upsert sample_workspace]) ''ws1'' = Ok ''/home/dev/app'' \<and> is_absolute ''/home/dev/app''"
proof -
  have "resolve_path (workspace_history [Upsert sample_workspace]) ''ws1'' = Ok ''/home/dev/app''"
    by (simp add: workspace_upsert_def sample_workspace_valid resolve_path_def workspace_get_def workspace_new_def
        list_upsert_def) (simp add: sample_workspace_def)
  with workspaces_refine_map [of "[Upsert sample_workspace]" "''ws1''" "''/home/dev/app''"] show ?thesis by blast
qed

text \<open>
  Loading persisted hosts succeeds exactly when every host is valid, and fails with the error of the
  first invalid one, so one bad entry rejects the whole list; after a successful load an id resolves to the
  last host that carries it, whose user and host name are non-empty and free of white space and control
  characters and whose port is not zero, and any other id is reported as unknown.
\<close>

theorem host_load_fails_closed:
  "(is_ok (host_from_items items) \<longleftrightarrow> (\<forall>h \<in> set items. validate_host h = Ok ()))
   \<and> (host_from_items items = Err e \<longleftrightarrow>
        (\<exists>h. find (\<lambda>h. validate_host h \<noteq> Ok ()) items = Some h \<and> validate_host h = Err e))
   \<and> (host_from_items items = Ok r \<longrightarrow>
        resolve_host r i = ok_or (find (\<lambda>h. host_id h = i) (rev items)) (UnknownHost i)
        \<and> (resolve_host r i = Ok h \<longrightarrow>
             clean_field (host_user h) \<and> clean_field (host_host h) \<and> host_port h \<noteq> 0))"
proof -
  have ok: "is_ok (host_from_items items) \<longleftrightarrow> (\<forall>h \<in> set items. validate_host h = Ok ())"
    using hosts.load_Ok [of host_new items] hosts.load_valid [of items host_new]
    unfolding is_ok_iff host_from_items_def by blast
  have res: "resolve_host r i = ok_or (find (\<lambda>h. host_id h = i) (rev items)) (UnknownHost i)
        \<and> (resolve_host r i = Ok h \<longrightarrow>
             clean_field (host_user h) \<and> clean_field (host_host h) \<and> host_port h \<noteq> 0)"
    if r: "host_from_items items = Ok r"
    using hosts.load_get [OF r [unfolded host_from_items_def], of i]
      host_get_valid [OF host_from_items_inv [OF r], of i h]
    by (auto simp: resolve_host_def validate_host_Ok ok_or_def split: option.splits)
  show ?thesis
    using ok res hosts.load_Err [of host_new items e] unfolding host_from_items_def by blast
qed

theorem host_load_fails_closed_witness:
  "resolve_host \<lparr> host_items = [sample_host] \<rparr> ''prod'' = Ok sample_host \<and> clean_field (host_user sample_host)"
proof -
  have "host_from_items [sample_host] = Ok \<lparr> host_items = [sample_host] \<rparr>"
    by (simp add: host_from_items_def host_upsert_def sample_host_valid host_new_def list_upsert_def)
  moreover have "resolve_host \<lparr> host_items = [sample_host] \<rparr> ''prod'' = Ok sample_host"
    by (simp add: resolve_host_def host_get_def sample_host_def)
  ultimately show ?thesis
    using host_load_fails_closed [of "[sample_host]" _ "\<lparr> host_items = [sample_host] \<rparr>" "''prod''" sample_host] by blast
qed

end
