(* ===== verification/Dev_Plan.thy ===== *)
theory Dev_Plan
  imports Dev_Registry
begin

text \<open>
  From a request to a command: the launch matrix (\<open>crates/devtools/src/launch.rs\<close>), the shortcut catalog
  (\<open>shortcuts.rs\<close>) and the planner (\<open>planner.rs\<close>). The properties say that a planned command consists of
  literals of the program and of values of the registries only, when planning succeeds, and which error it
  reports otherwise.
\<close>

section \<open>The launch matrix\<close>

definition MACOS :: string where "MACOS = ''macos''"
definition WINDOWS :: string where "WINDOWS = ''windows''"
definition LINUX :: string where "LINUX = ''linux''"

lemmas os_names = MACOS_def WINDOWS_def LINUX_def

definition path_args :: "string option \<Rightarrow> string list" where
  "path_args wp = (case wp of Some p \<Rightarrow> [p] | None \<Rightarrow> [])"

definition resolve_editor :: "editor \<Rightarrow> string \<Rightarrow> string option \<Rightarrow> command_spec dev_result" where
  "resolve_editor ed os wp = (case ed of
     VsCode \<Rightarrow> Ok (command_launch ''code'' (path_args wp))
   | Cursor \<Rightarrow> Ok (command_launch ''cursor'' (path_args wp))
   | Claude \<Rightarrow>
      (if os = MACOS then Ok (command_launch ''open'' ([''-a'', ''Claude''] @ path_args wp))
       else if os = LINUX then Ok (command_launch ''claude'' [])
       else if os = WINDOWS then Ok (command_launch ''cmd'' [''/c'', ''start'', [], ''claude''])
       else Err (Unsupported (''Claude on '' @ os))))"

definition open_app :: "string \<Rightarrow> string option \<Rightarrow> command_spec" where
  "open_app app wp = command_launch ''open'' ([''-a'', app] @ (case wp of Some p \<Rightarrow> [p] | None \<Rightarrow> []))"

definition wt_dir_args :: "string option \<Rightarrow> string option \<Rightarrow> string list" where
  "wt_dir_args wp trailing =
     (case wp of Some p \<Rightarrow> [''-d'', p] | None \<Rightarrow> []) @ (case trailing of Some t \<Rightarrow> [t] | None \<Rightarrow> [])"

definition resolve_terminal :: "terminal \<Rightarrow> string \<Rightarrow> string option \<Rightarrow> command_spec dev_result" where
  "resolve_terminal t os wp =
    (if t = AppleTerminal \<and> os = MACOS then Ok (open_app ''Terminal'' wp)
     else if t = ITerm \<and> os = MACOS then Ok (open_app ''iTerm'' wp)
     else if t = Warp \<and> os = MACOS then Ok (open_app ''Warp'' wp)
     else if t = Warp \<and> os = LINUX then Ok (with_cwd (command_launch ''warp-terminal'' []) wp)
     else if t = PowerShell \<and> os = LINUX then Ok (with_cwd (command_launch ''pwsh'' []) wp)
     else if t = WindowsTerminal \<and> os = WINDOWS then Ok (command_launch ''wt'' (wt_dir_args wp None))
     else if t = PowerShell \<and> os = WINDOWS then Ok (command_launch ''wt'' (wt_dir_args wp (Some ''powershell'')))
     else Err (Unsupported (terminal_debug t @ '' on '' @ os)))"

definition resolve_ssh :: "string \<Rightarrow> u16 \<Rightarrow> terminal \<Rightarrow> string \<Rightarrow> command_spec dev_result" where
  "resolve_ssh dest port t os =
    (let ssh_args = [dest] @ (if port \<noteq> 22 then [''-p'', decimal (unat port)] else []) in
     if os = MACOS then Ok (command_launch ''open'' ([''-b'', ''com.apple.Terminal''] @ [''ssh''] @ ssh_args))
     else if (t = WindowsTerminal \<or> t = PowerShell) \<and> os = WINDOWS then Ok (command_launch ''wt'' ([''ssh''] @ ssh_args))
     else if os = LINUX then Ok (command_launch ''ssh'' ssh_args)
     else Err (Unsupported (''ssh via '' @ terminal_debug t @ '' on '' @ os)))"

section \<open>The shortcut catalog\<close>

record shortcut =
  sc_id :: string
  sc_tool :: tool
  sc_program :: string
  sc_args :: "string list"
  needs_workspace :: bool
  description :: string

definition args_owned :: "shortcut \<Rightarrow> string list" where
  "args_owned s = sc_args s"

definition CATALOG :: "shortcut list" where
  "CATALOG = [
   \<lparr> sc_id = ''status'', sc_tool = Git, sc_program = ''git'', sc_args = [''status'', ''--short'', ''--branch''], needs_workspace = True,
     description = ''Working tree status'' \<rparr>,
   \<lparr> sc_id = ''fetch'', sc_tool = Git, sc_program = ''git'', sc_args = [''fetch'', ''--all'', ''--prune''], needs_workspace = True,
     description = ''Fetch all remotes'' \<rparr>,
   \<lparr> sc_id = ''pull'', sc_tool = Git, sc_program = ''git'', sc_args = [''pull'', ''--ff-only''], needs_workspace = True,
     description = ''Fast-forward pull'' \<rparr>,
   \<lparr> sc_id = ''log'', sc_tool = Git, sc_program = ''git'', sc_args = [''log'', ''--oneline'', ''-n'', ''20''], needs_workspace = True,
     description = ''Last 20 commits'' \<rparr>,
   \<lparr> sc_id = ''branches'', sc_tool = Git, sc_program = ''git'', sc_args = [''branch'', ''-vv''], needs_workspace = True,
     description = ''List branches'' \<rparr>,
   \<lparr> sc_id = ''ps'', sc_tool = Docker, sc_program = ''docker'', sc_args = [''ps''], needs_workspace = False,
     description = ''Running containers'' \<rparr>,
   \<lparr> sc_id = ''images'', sc_tool = Docker, sc_program = ''docker'', sc_args = [''images''], needs_workspace = False,
     description = ''Local images'' \<rparr>,
   \<lparr> sc_id = ''compose_up'', sc_tool = Docker, sc_program = ''docker'', sc_args = [''compose'', ''up'', ''-d''], needs_workspace = True,
     description = ''Compose up (detached)'' \<rparr>,
   \<lparr> sc_id = ''compose_down'', sc_tool = Docker, sc_program = ''docker'', sc_args = [''compose'', ''down''], needs_workspace = True,
     description = ''Compose down'' \<rparr>,
   \<lparr> sc_id = ''compose_ps'', sc_tool = Docker, sc_program = ''docker'', sc_args = [''compose'', ''ps''], needs_workspace = True,
     description = ''Compose status'' \<rparr>,
   \<lparr> sc_id = ''pods'', sc_tool = Kubectl, sc_program = ''kubectl'', sc_args = [''get'', ''pods'', ''-A''], needs_workspace = False,
     description = ''Pods (all namespaces)'' \<rparr>,
   \<lparr> sc_id = ''services'', sc_tool = Kubectl, sc_program = ''kubectl'', sc_args = [''get'', ''svc'', ''-A''], needs_workspace = False,
     description = ''Services (all namespaces)'' \<rparr>,
   \<lparr> sc_id = ''nodes'', sc_tool = Kubectl, sc_program = ''kubectl'', sc_args = [''get'', ''nodes''], needs_workspace = False,
     description = ''Cluster nodes'' \<rparr>,
   \<lparr> sc_id = ''contexts'', sc_tool = Kubectl, sc_program = ''kubectl'', sc_args = [''config'', ''get-contexts''], needs_workspace = False,
     description = ''Configured contexts'' \<rparr>,
   \<lparr> sc_id = ''list'', sc_tool = Helm, sc_program = ''helm'', sc_args = [''list'', ''--all-namespaces''], needs_workspace = False,
     description = ''Releases (all namespaces)'' \<rparr>]"

definition find_shortcut :: "tool \<Rightarrow> string \<Rightarrow> shortcut option" where
  "find_shortcut t i = find (\<lambda>s. sc_tool s = t \<and> sc_id s = i) CATALOG"

definition for_tool :: "tool \<Rightarrow> shortcut list" where
  "for_tool t = filter (\<lambda>s. sc_tool s = t) CATALOG"

lemma catalog_keys_distinct: "distinct (map (\<lambda>s. (sc_tool s, sc_id s)) CATALOG)"
  by (simp add: CATALOG_def)

section \<open>The planner\<close>

definition resolve_optional :: "workspace_registry \<Rightarrow> string option \<Rightarrow> string option dev_result" where
  "resolve_optional wss wid = (case wid of
     Some i \<Rightarrow> bind_result (resolve_path wss i) (\<lambda>p. Ok (Some p))
   | None \<Rightarrow> Ok None)"

definition plan :: "dev_action_request \<Rightarrow> workspace_registry \<Rightarrow> host_registry \<Rightarrow> string \<Rightarrow> command_spec dev_result" where
  "plan req wss hs os = (case request_kind req of
     LaunchEditor ed wid \<Rightarrow> bind_result (resolve_optional wss wid) (\<lambda>p. resolve_editor ed os p)
   | OpenTerminal t wid \<Rightarrow> bind_result (resolve_optional wss wid) (\<lambda>p. resolve_terminal t os p)
   | RunShortcut tk i wid \<Rightarrow>
       bind_result (ok_or (find_shortcut tk i) (UnknownShortcut (tool_debug tk) i)) (\<lambda>sc.
       bind_result
         (if needs_workspace sc
          then bind_result (ok_or wid (dev_invalid ''shortcut'' (quote @ sc_id sc @ quote @ '' requires a workspace'')))
                 (\<lambda>w. bind_result (resolve_path wss w) (\<lambda>p. Ok (Some p)))
          else resolve_optional wss wid)
         (\<lambda>dir. Ok (command_captured (sc_program sc) (args_owned sc) dir)))
   | SshConnect h t \<Rightarrow> bind_result (resolve_host hs h) (\<lambda>host.
       resolve_ssh (destination host) (host_port host) t os))"

section \<open>What can be planned\<close>

text \<open>The programs and literal arguments the agent can ever start something with.\<close>

definition LAUNCH_PROGRAMS :: "string list" where
  "LAUNCH_PROGRAMS = [''code'', ''cursor'', ''open'', ''claude'', ''cmd'', ''warp-terminal'', ''pwsh'', ''wt'', ''ssh'']"

definition LAUNCH_ARGS :: "string list" where
  "LAUNCH_ARGS = [''-a'', ''Claude'', ''Terminal'', ''iTerm'', ''Warp'', ''/c'', ''start'', [], ''claude'', ''-d'',
     ''powershell'', ''-p'', ''-b'', ''com.apple.Terminal'', ''ssh'']"

definition path_source :: "workspace_registry \<Rightarrow> string \<Rightarrow> bool" where
  "path_source wss p \<longleftrightarrow> (\<exists>w \<in> set (workspace_items wss). p = ws_path w)"

definition host_source :: "host_registry \<Rightarrow> string \<Rightarrow> bool" where
  "host_source hs a \<longleftrightarrow> (\<exists>h \<in> set (host_items hs). a = destination h \<or> a = decimal (unat (host_port h)))"

text \<open>A detached launch whose variable arguments satisfy \<open>P\<close>, started in a directory that does too.\<close>

definition launch_of :: "(string \<Rightarrow> bool) \<Rightarrow> command_spec \<Rightarrow> bool" where
  "launch_of P spec \<longleftrightarrow> \<not> capture_output spec \<and> program spec \<in> set LAUNCH_PROGRAMS
     \<and> (\<forall>a \<in> set (args spec). a \<in> set LAUNCH_ARGS \<or> P a) \<and> (\<forall>d. cwd spec = Some d \<longrightarrow> P d)"

lemma resolve_editor_launch:
  "resolve_editor ed os wp = Ok spec \<Longrightarrow> (\<And>p. wp = Some p \<Longrightarrow> P p) \<Longrightarrow> launch_of P spec"
  by (cases ed; cases wp)
     (auto simp: resolve_editor_def launch_of_def path_args_def LAUNCH_PROGRAMS_def LAUNCH_ARGS_def split: if_splits)

lemma resolve_terminal_launch:
  "resolve_terminal t os wp = Ok spec \<Longrightarrow> (\<And>p. wp = Some p \<Longrightarrow> P p) \<Longrightarrow> launch_of P spec"
  by (cases wp)
     (auto simp: resolve_terminal_def launch_of_def open_app_def wt_dir_args_def LAUNCH_PROGRAMS_def LAUNCH_ARGS_def
        split: if_splits)

lemma resolve_ssh_launch:
  "resolve_ssh dest port t os = Ok spec \<Longrightarrow> P dest \<Longrightarrow> P (decimal (unat port)) \<Longrightarrow>
   launch_of P spec \<and> cwd spec = None"
  by (auto simp: resolve_ssh_def launch_of_def LAUNCH_PROGRAMS_def LAUNCH_ARGS_def Let_def split: if_splits)

lemma resolve_optional_Ok:
  "resolve_optional wss wid = Ok (Some p) \<Longrightarrow> path_source wss p"
  by (auto simp: resolve_optional_def path_source_def resolve_path_Ok bind_result_Ok_iff workspace_get_def find_Some_iff
        split: option.splits)

lemma resolve_path_source: "resolve_path wss i = Ok p \<Longrightarrow> path_source wss p"
  by (auto simp: path_source_def resolve_path_Ok workspace_get_def find_Some_iff)

lemma find_shortcut_Some: "find_shortcut t i = Some s \<Longrightarrow> s \<in> set CATALOG \<and> sc_tool s = t \<and> sc_id s = i"
  by (auto simp: find_shortcut_def find_Some_iff)

lemma find_shortcut_iff:
  "find_shortcut t i = Some s \<longleftrightarrow> s \<in> set CATALOG \<and> sc_tool s = t \<and> sc_id s = i"
proof
  assume s: "s \<in> set CATALOG \<and> sc_tool s = t \<and> sc_id s = i"
  then obtain s' where f: "find_shortcut t i = Some s'"
    by (cases "find_shortcut t i") (auto simp: find_shortcut_def find_None_iff)
  have "s' = s"
    using catalog_keys_distinct find_shortcut_Some [OF f] s
    by (simp add: distinct_map) (metis (mono_tags, lifting) inj_onD)
  with f show "find_shortcut t i = Some s" by simp
qed (rule find_shortcut_Some)

lemma catalog_not_launched: "s \<in> set CATALOG \<Longrightarrow> sc_program s \<notin> set LAUNCH_PROGRAMS"
  by (simp add: CATALOG_def LAUNCH_PROGRAMS_def) (elim disjE; simp)

text \<open>The shape of every planned command: a launch fed by the registries, or a catalog entry.\<close>

lemma plan_shape:
  assumes "plan req wss hs os = Ok spec"
  shows "launch_of (path_source wss) spec
     \<or> (launch_of (host_source hs) spec \<and> cwd spec = None)
     \<or> (\<exists>s \<in> set CATALOG. program spec = sc_program s \<and> args spec = sc_args s \<and> capture_output spec
          \<and> (\<forall>d. cwd spec = Some d \<longrightarrow> path_source wss d))"
proof (cases "request_kind req")
  case (LaunchEditor ed wid)
  with assms obtain wp where wp: "resolve_optional wss wid = Ok wp" and r: "resolve_editor ed os wp = Ok spec"
    by (auto simp: plan_def bind_result_Ok_iff)
  have "launch_of (path_source wss) spec"
    using resolve_editor_launch [OF r] resolve_optional_Ok wp by blast
  then show ?thesis by simp
next
  case (OpenTerminal t wid)
  with assms obtain wp where wp: "resolve_optional wss wid = Ok wp" and r: "resolve_terminal t os wp = Ok spec"
    by (auto simp: plan_def bind_result_Ok_iff)
  have "launch_of (path_source wss) spec"
    using resolve_terminal_launch [OF r] resolve_optional_Ok wp by blast
  then show ?thesis by simp
next
  case (RunShortcut tk i wid)
  with assms obtain s dir where s: "find_shortcut tk i = Some s"
      and spec: "spec = command_captured (sc_program s) (args_owned s) dir"
      and dir: "(if needs_workspace s
          then bind_result (ok_or wid (dev_invalid ''shortcut'' (quote @ sc_id s @ quote @ '' requires a workspace'')))
                 (\<lambda>w. bind_result (resolve_path wss w) (\<lambda>p. Ok (Some p)))
          else resolve_optional wss wid) = Ok dir"
    by (cases "find_shortcut tk i") (auto simp: plan_def bind_result_Ok_iff)
  have "path_source wss d" if "dir = Some d" for d
    using dir that resolve_optional_Ok resolve_path_source
    by (auto simp: bind_result_Ok_iff split: if_splits)
  with find_shortcut_Some [OF s] spec show ?thesis by (auto simp: args_owned_def)
next
  case (SshConnect h t)
  with assms obtain host where "resolve_host hs h = Ok host"
      and r: "resolve_ssh (destination host) (host_port host) t os = Ok spec"
    by (auto simp: plan_def bind_result_Ok_iff)
  then have "host \<in> set (host_items hs)" by (auto simp: resolve_host_Ok host_get_def find_Some_iff)
  with resolve_ssh_launch [OF r, of "host_source hs"] show ?thesis by (auto simp: host_source_def)
qed

text \<open>A command that is built from the allow-list and the registries only.\<close>

definition allowlisted :: "workspace_registry \<Rightarrow> host_registry \<Rightarrow> command_spec \<Rightarrow> bool" where
  "allowlisted wss hs spec \<longleftrightarrow> program spec \<in> set LAUNCH_PROGRAMS \<union> sc_program ` set CATALOG
     \<and> (\<forall>a \<in> set (args spec). a \<in> set LAUNCH_ARGS \<or> (\<exists>s \<in> set CATALOG. a \<in> set (sc_args s))
          \<or> (path_source wss a \<and> is_absolute a) \<or> host_source hs a)
     \<and> (\<forall>d. cwd spec = Some d \<longrightarrow> path_source wss d \<and> is_absolute d)
     \<and> (capture_output spec \<longleftrightarrow> (\<exists>s \<in> set CATALOG. program spec = sc_program s \<and> args spec = sc_args s))"

lemma plan_allowlisted:
  assumes "workspace_inv wss" and "host_inv hs" and "plan req wss hs os = Ok spec"
  shows "allowlisted wss hs spec"
proof -
  have abs: "is_absolute p" if "path_source wss p" for p
    using that assms(1) by (auto simp: path_source_def workspace_inv_def validate_workspace_Ok)
  from plan_shape [OF assms(3)] show ?thesis
  proof (elim disjE)
    assume "launch_of (path_source wss) spec"
    with abs show ?thesis by (auto simp: allowlisted_def launch_of_def dest: catalog_not_launched)
  next
    assume "launch_of (host_source hs) spec \<and> cwd spec = None"
    then show ?thesis by (auto simp: allowlisted_def launch_of_def dest: catalog_not_launched)
  next
    assume "\<exists>s \<in> set CATALOG. program spec = sc_program s \<and> args spec = sc_args s \<and> capture_output spec
          \<and> (\<forall>d. cwd spec = Some d \<longrightarrow> path_source wss d)"
    with abs show ?thesis by (auto simp: allowlisted_def)
  qed
qed

text \<open>
  C18: A planned command can only be built from the allowlist: its program is one of the fixed programs;
  every argument is a literal of the agent, the absolute path of a registered workspace, or the destination
  or port of a registered host; its working directory is a registered absolute path; and output is captured
  exactly for the commands of the shortcut catalog. No string of the request reaches the command.
\<close>

theorem plan_only_allowlisted:
  assumes "workspace_inv wss" and "host_inv hs" and "plan req wss hs os = Ok spec"
  shows "program spec \<in> set LAUNCH_PROGRAMS \<union> sc_program ` set CATALOG
     \<and> (\<forall>a \<in> set (args spec). a \<in> set LAUNCH_ARGS \<or> (\<exists>s \<in> set CATALOG. a \<in> set (sc_args s))
          \<or> (path_source wss a \<and> is_absolute a) \<or> host_source hs a)
     \<and> (\<forall>d. cwd spec = Some d \<longrightarrow> path_source wss d \<and> is_absolute d)
     \<and> (capture_output spec \<longleftrightarrow> (\<exists>s \<in> set CATALOG. program spec = sc_program s \<and> args spec = sc_args s))"
  using plan_allowlisted [OF assms] unfolding allowlisted_def .

text \<open>The registries the samples below use.\<close>

definition sample_workspaces :: workspace_registry where
  "sample_workspaces = \<lparr> workspace_items = [sample_workspace] \<rparr>"

definition sample_hosts :: host_registry where
  "sample_hosts = \<lparr> host_items = [sample_host] \<rparr>"

lemma sample_registries: "workspace_inv sample_workspaces" "host_inv sample_hosts"
  by (simp_all add: sample_workspaces_def sample_hosts_def workspace_inv_def host_inv_def sample_workspace_valid
      sample_host_valid)

theorem plan_only_allowlisted_witness:
  "path_source sample_workspaces ''/home/dev/app'' \<and> is_absolute ''/home/dev/app''"
proof -
  have "plan \<lparr> request_id = ''r'', request_kind = RunShortcut Git ''status'' (Some ''ws1'') \<rparr>
      sample_workspaces sample_hosts LINUX
      = Ok (command_captured ''git'' [''status'', ''--short'', ''--branch''] (Some ''/home/dev/app''))"
    by (simp add: plan_def find_shortcut_def CATALOG_def resolve_path_def workspace_get_def sample_workspaces_def
        sample_workspace_def args_owned_def)
  from plan_only_allowlisted [OF sample_registries this] show ?thesis by simp
qed

definition workspace_known :: "workspace_registry \<Rightarrow> string option \<Rightarrow> bool" where
  "workspace_known wss wid \<longleftrightarrow> (case wid of None \<Rightarrow> True | Some i \<Rightarrow> workspace_get wss i \<noteq> None)"

fun terminal_supported :: "terminal \<Rightarrow> string \<Rightarrow> bool" where
  "terminal_supported AppleTerminal os = (os = MACOS)"
| "terminal_supported ITerm os = (os = MACOS)"
| "terminal_supported Warp os = (os = MACOS \<or> os = LINUX)"
| "terminal_supported PowerShell os = (os = LINUX \<or> os = WINDOWS)"
| "terminal_supported WindowsTerminal os = (os = WINDOWS)"

definition plannable :: "dev_action_kind \<Rightarrow> workspace_registry \<Rightarrow> host_registry \<Rightarrow> string \<Rightarrow> bool" where
  "plannable k wss hs os = (case k of
     LaunchEditor ed wid \<Rightarrow> workspace_known wss wid \<and> (ed = Claude \<longrightarrow> os \<in> {MACOS, LINUX, WINDOWS})
   | OpenTerminal t wid \<Rightarrow> workspace_known wss wid \<and> terminal_supported t os
   | RunShortcut t i wid \<Rightarrow> workspace_known wss wid
       \<and> (\<exists>s \<in> set CATALOG. sc_tool s = t \<and> sc_id s = i \<and> (needs_workspace s \<longrightarrow> wid \<noteq> None))
   | SshConnect h t \<Rightarrow> host_get hs h \<noteq> None
       \<and> (os \<in> {MACOS, LINUX} \<or> (os = WINDOWS \<and> t \<in> {WindowsTerminal, PowerShell})))"

lemma is_ok_bind: "is_ok (bind_result r f) \<longleftrightarrow> (\<exists>x. r = Ok x \<and> is_ok (f x))"
  by (cases r) auto

lemma is_ok_resolve_editor: "is_ok (resolve_editor ed os wp) \<longleftrightarrow> (ed = Claude \<longrightarrow> os \<in> {MACOS, LINUX, WINDOWS})"
  by (cases ed) (auto simp: resolve_editor_def)

lemma is_ok_resolve_terminal: "is_ok (resolve_terminal t os wp) \<longleftrightarrow> terminal_supported t os"
  by (cases t) (auto simp: resolve_terminal_def os_names)

lemma is_ok_resolve_ssh:
  "is_ok (resolve_ssh dest port t os)
     \<longleftrightarrow> os \<in> {MACOS, LINUX} \<or> (os = WINDOWS \<and> t \<in> {WindowsTerminal, PowerShell})"
  by (auto simp: resolve_ssh_def Let_def os_names)

lemma resolve_optional_known: "(\<exists>wp. resolve_optional wss wid = Ok wp) \<longleftrightarrow> workspace_known wss wid"
  by (cases wid) (auto simp: resolve_optional_def workspace_known_def bind_result_Ok_iff resolve_path_Ok)

lemma plan_ok_iff: "is_ok (plan req wss hs os) \<longleftrightarrow> plannable (request_kind req) wss hs os"
proof (cases "request_kind req")
  case (LaunchEditor ed wid)
  then show ?thesis
    using resolve_optional_known [of wss wid]
    by (auto simp: plan_def plannable_def is_ok_bind is_ok_resolve_editor)
next
  case (OpenTerminal t wid)
  then show ?thesis
    using resolve_optional_known [of wss wid]
    by (auto simp: plan_def plannable_def is_ok_bind is_ok_resolve_terminal)
next
  case (RunShortcut tk i wid)
  show ?thesis
  proof (cases "find_shortcut tk i")
    case None
    then have "\<forall>s \<in> set CATALOG. \<not> (sc_tool s = tk \<and> sc_id s = i)"
      unfolding find_shortcut_def find_None_iff by blast
    with RunShortcut None show ?thesis by (auto simp: plan_def plannable_def)
  next
    case (Some s)
    then have "s \<in> set CATALOG \<and> sc_tool s = tk \<and> sc_id s = i" by (rule find_shortcut_Some)
    moreover have "\<forall>s' \<in> set CATALOG. sc_tool s' = tk \<and> sc_id s' = i \<longrightarrow> s' = s"
      using Some by (metis find_shortcut_iff option.inject)
    moreover note RunShortcut Some
    ultimately show ?thesis
      using resolve_optional_known [of wss wid]
      by (cases wid) (auto simp: plan_def plannable_def is_ok_bind bind_result_Ok_iff resolve_optional_def resolve_path_Ok
            workspace_known_def)
  qed
next
  case (SshConnect h t)
  then show ?thesis
    by (auto simp: plan_def plannable_def is_ok_bind is_ok_resolve_ssh resolve_host_Ok)
qed

text \<open>
  Planning succeeds exactly when every id the request carries is registered, the shortcut exists in the
  catalog and has the workspace it needs, and the editor, terminal or SSH launch is supported on the operating
  system. Otherwise an error is returned: an unregistered workspace of an editor or terminal request and an
  unregistered host are reported with their id, whatever the platform, and an unknown shortcut with its tool.
\<close>

theorem plan_succeeds_iff:
  "(is_ok (plan req wss hs os) \<longleftrightarrow> plannable (request_kind req) wss hs os)
   \<and> (workspace_get wss i = None \<longrightarrow>
        plan \<lparr> request_id = r, request_kind = LaunchEditor ed (Some i) \<rparr> wss hs os = Err (UnknownWorkspace i)
        \<and> plan \<lparr> request_id = r, request_kind = OpenTerminal t (Some i) \<rparr> wss hs os = Err (UnknownWorkspace i))
   \<and> (host_get hs i = None \<longrightarrow>
        plan \<lparr> request_id = r, request_kind = SshConnect i t \<rparr> wss hs os = Err (UnknownHost i))
   \<and> (i \<notin> sc_id ` set (for_tool tk) \<longrightarrow>
        plan \<lparr> request_id = r, request_kind = RunShortcut tk i w \<rparr> wss hs os
          = Err (UnknownShortcut (tool_debug tk) i))"
proof -
  have "find_shortcut tk i = None" if "i \<notin> sc_id ` set (for_tool tk)"
    using that unfolding find_shortcut_def find_None_iff for_tool_def by auto
  then show ?thesis
    using plan_ok_iff
    by (auto simp: plan_def resolve_optional_def resolve_path_def resolve_host_def)
qed

theorem plan_succeeds_iff_witness:
  "plan \<lparr> request_id = ''r'', request_kind = SshConnect ''nope'' Warp \<rparr> sample_workspaces sample_hosts LINUX
     = Err (UnknownHost ''nope'')"
proof -
  have "host_get sample_hosts ''nope'' = None"
    by (simp add: host_get_def sample_hosts_def sample_host_def)
  then show ?thesis
    using plan_succeeds_iff [where hs = sample_hosts and i = "''nope''" and r = "''r''" and t = Warp] by blast
qed

definition option_host :: ssh_host where
  "option_host = \<lparr> host_id = ''h'', host_label = ''H'', host_user = ''-oProxyCommand=sh'', host_host = ''x'', host_port = 22 \<rparr>"

text \<open>
  The host validation does not exclude a leading hyphen: a host whose user is an option of the ssh client
  is accepted by the registry, and connecting to it hands that option to the client as its first argument.
\<close>

theorem ssh_destination_may_be_an_option:
  "bind_result (host_from_items [option_host]) (\<lambda>hs.
     plan \<lparr> request_id = ''r'', request_kind = SshConnect ''h'' Warp \<rparr> workspace_new hs LINUX)
   = Ok (command_launch ''ssh'' [''-oProxyCommand=sh@x''])"
proof -
  have "validate_host option_host = Ok ()"
    by (simp add: validate_host_Ok option_host_def clean_field_def str_eval)
  then have "host_from_items [option_host] = Ok \<lparr> host_items = [option_host] \<rparr>"
    by (simp add: host_from_items_def host_upsert_def host_new_def list_upsert_def)
  then show ?thesis
    by (simp add: plan_def resolve_host_def host_get_def resolve_ssh_def option_host_def destination_def os_names)
qed

end
