(* ===== verification/Dev_Service.thy ===== *)
theory Dev_Service
  imports Dev_Plan Utf8
begin

text \<open>
  Running planned commands (\<open>crates/devtools/src/runner.rs\<close>) and the service that answers developer-action
  frames (\<open>service.rs\<close>). The operating system's process interface and the JSON decoder are parameters; the
  service is modelled against any runner, so that it can be observed with one that records its commands.
\<close>

section \<open>The process runner\<close>

definition MAX_OUTPUT_BYTES :: nat where
  "MAX_OUTPUT_BYTES = 16 * 1024"

text \<open>The suffix is a line feed, U+2026 and the ASCII text.\<close>

definition TRUNCATED :: string where
  "TRUNCATED = [char_of (10 :: nat), char_of (0xE2 :: nat), char_of (0x80 :: nat), char_of (0xA6 :: nat)] @ '' (truncated)''"

definition truncate_output :: "string \<Rightarrow> string" where
  "truncate_output s = (if length s > MAX_OUTPUT_BYTES then take (floor_boundary s MAX_OUTPUT_BYTES) s @ TRUNCATED else s)"

text \<open>How the output future of a child process ends: at the timeout, with an I/O error, or with its output.\<close>

datatype process_end =
    TimedOut
  | IoFailed string
  | Finished (child_stdout: string) (child_stderr: string) (child_code: "int option")

record 'w process_api =
  os_spawn :: "'w \<Rightarrow> command_spec \<Rightarrow> 'w \<times> (unit, string) result"
  os_output :: "nat \<Rightarrow> 'w \<Rightarrow> command_spec \<Rightarrow> 'w \<times> process_end"

record command_runner =
  timeout_ms :: nat

definition runner_new :: "nat \<Rightarrow> command_runner" where
  "runner_new t = \<lparr> timeout_ms = t \<rparr>"

definition runner_default :: command_runner where
  "runner_default = runner_new (20 * 1000)"

definition combine_output :: "string \<Rightarrow> string \<Rightarrow> string" where
  "combine_output out err =
    (let combined = from_utf8_lossy out in
     if err \<noteq> [] then (if combined \<noteq> [] then combined @ [char_of (10 :: nat)] else combined) @ from_utf8_lossy err
     else combined)"

definition run_captured :: "command_spec \<Rightarrow> process_end \<Rightarrow> string dev_result" where
  "run_captured spec e = (case e of
     TimedOut \<Rightarrow> Err (Execution (program spec @ '' timed out''))
   | IoFailed m \<Rightarrow> Err (Execution (''failed to run '' @ program spec @ '': '' @ m))
   | Finished out err code \<Rightarrow>
       (let combined = truncate_output (combine_output out err) in
        if code = Some 0 then Ok combined
        else Err (Execution (program spec @ '' exited with ''
               @ (case code of Some c \<Rightarrow> decimal_int c | None \<Rightarrow> ''signal'') @ '': '' @ combined))))"

definition runner_run :: "'w process_api \<Rightarrow> command_runner \<Rightarrow> 'w \<Rightarrow> command_spec \<Rightarrow> 'w \<times> string dev_result" where
  "runner_run os r w spec =
    (if \<not> capture_output spec
     then (case os_spawn os w spec of
             (w', Inl e) \<Rightarrow> (w', Err (Execution (''failed to launch '' @ program spec @ '': '' @ e)))
           | (w', Inr _) \<Rightarrow> (w', Ok []))
     else (case os_output os (timeout_ms r) w spec of (w', e) \<Rightarrow> (w', run_captured spec e)))"

section \<open>The service\<close>

record dev_service =
  svc_workspaces :: workspace_registry
  svc_hosts :: host_registry
  svc_os :: string
  dispatched :: u64
  rejected :: u64

definition service_new :: "workspace_registry \<Rightarrow> host_registry \<Rightarrow> string \<Rightarrow> dev_service" where
  "service_new wss hs os = \<lparr> svc_workspaces = wss, svc_hosts = hs, svc_os = os, dispatched = 0, rejected = 0 \<rparr>"

type_synonym 'w runner = "'w \<Rightarrow> command_spec \<Rightarrow> 'w \<times> string dev_result"

definition count_rejected :: "dev_service \<Rightarrow> dev_service" where
  "count_rejected s = s\<lparr> rejected := rejected s + 1 \<rparr>"

definition count_dispatched :: "dev_service \<Rightarrow> dev_service" where
  "count_dispatched s = s\<lparr> dispatched := dispatched s + 1 \<rparr>"

definition handle :: "'w runner \<Rightarrow> dev_service \<Rightarrow> 'w \<Rightarrow> dev_action_request \<Rightarrow> dev_service \<times> 'w \<times> dev_action_result" where
  "handle run s w req = (case plan req (svc_workspaces s) (svc_hosts s) (svc_os s) of
     Inl e \<Rightarrow> (count_rejected s, w, result_error (request_id req) (dev_error_display e))
   | Inr spec \<Rightarrow> (case run w spec of
       (w', Inr out) \<Rightarrow> (count_dispatched s, w',
          if out = [] then result_ok (request_id req) (''Launched '' @ program spec)
          else result_ok_output (request_id req) out)
     | (w', Inl e) \<Rightarrow> (count_rejected s, w', result_error (request_id req) (dev_error_display e))))"

definition handle_frame :: "(string \<Rightarrow> (dev_action_request, string) result) \<Rightarrow> 'w runner \<Rightarrow> dev_service \<Rightarrow> 'w \<Rightarrow> string
    \<Rightarrow> dev_service \<times> 'w \<times> dev_action_result option" where
  "handle_frame parse run s w frame = (case parse frame of
     Inr req \<Rightarrow> (case handle run s w req of (s', w', res) \<Rightarrow> (s', w', Some res))
   | Inl e \<Rightarrow> (count_rejected s, w, None))"

text \<open>A sequence of frames, with the answers given.\<close>

fun handle_frames :: "(string \<Rightarrow> (dev_action_request, string) result) \<Rightarrow> 'w runner \<Rightarrow> dev_service \<Rightarrow> 'w \<Rightarrow> string list
    \<Rightarrow> dev_service \<times> 'w \<times> dev_action_result option list" where
  "handle_frames parse run s w [] = (s, w, [])"
| "handle_frames parse run s w (f # fs) =
    (case handle_frame parse run s w f of (s', w', r) \<Rightarrow>
     case handle_frames parse run s' w' fs of (s'', w'', rs) \<Rightarrow> (s'', w'', r # rs))"

section \<open>Output of commands\<close>

lemma TRUNCATED_valid: "valid_utf8 TRUNCATED"
  by (simp add: TRUNCATED_def valid_utf8_def str_eval)

lemma length_TRUNCATED: "length TRUNCATED = 16"
  by (simp add: TRUNCATED_def)

lemma newline_valid: "valid_utf8 [char_of (10 :: nat)]"
  by (simp add: valid_utf8_def str_eval)

lemma valid_utf8_Nil [simp]: "valid_utf8 []"
  by (simp add: valid_utf8_def)

lemma combine_output_valid: "valid_utf8 (combine_output out err)"
proof -
  have "valid_utf8 ((a @ [char_of (10 :: nat)]) @ b)" if "valid_utf8 a" "valid_utf8 b" for a b
    using that by (intro valid_utf8_append newline_valid)
  then show ?thesis
    by (simp add: combine_output_def Let_def from_utf8_lossy_valid valid_utf8_append del: append_assoc)
qed

text \<open>
  Captured output is cut to at most 16 KiB plus the sixteen bytes of the truncation mark without ever
  splitting a character: the result is valid UTF-8, it is the whole text when that fits, and otherwise the
  mark follows a prefix that lost at most three bytes to the character boundary.
\<close>

theorem truncate_is_sound:
  assumes "valid_utf8 s"
  shows "valid_utf8 (truncate_output s) \<and> length (truncate_output s) \<le> MAX_OUTPUT_BYTES + 16
    \<and> (length s \<le> MAX_OUTPUT_BYTES \<longrightarrow> truncate_output s = s)
    \<and> (length s > MAX_OUTPUT_BYTES \<longrightarrow>
         (\<exists>k. MAX_OUTPUT_BYTES \<le> k + 3 \<and> k \<le> MAX_OUTPUT_BYTES \<and> truncate_output s = take k s @ TRUNCATED))"
proof (cases "length s > MAX_OUTPUT_BYTES")
  case False
  with assms show ?thesis by (simp add: truncate_output_def)
next
  case True
  let ?k = "floor_boundary s MAX_OUTPUT_BYTES"
  have k: "?k \<le> MAX_OUTPUT_BYTES" by (rule floor_boundary_le)
  with True assms have "valid_utf8 (take ?k s)"
    by (intro take_boundary_valid floor_boundary_is_boundary) auto
  moreover have "MAX_OUTPUT_BYTES \<le> ?k + 3" using floor_boundary_near [OF assms] True by simp
  ultimately show ?thesis
    using True k by (auto simp: truncate_output_def TRUNCATED_valid length_TRUNCATED intro: valid_utf8_append)
qed

theorem truncate_is_sound_witness: "truncate_output ''On branch main'' = ''On branch main''"
proof -
  have "valid_utf8 ''On branch main''" by (simp add: valid_utf8_def str_eval)
  from truncate_is_sound [OF this] show ?thesis by (simp add: MAX_OUTPUT_BYTES_def)
qed

fun child_success :: "process_end \<Rightarrow> bool" where
  "child_success (Finished out err code) = (code = Some 0)"
| "child_success _ = False"

lemma truncate_combined:
  "valid_utf8 (truncate_output (combine_output out err))"
  "length (truncate_output (combine_output out err)) \<le> MAX_OUTPUT_BYTES + 16"
proof -
  have k: "length (truncate_output t) \<le> MAX_OUTPUT_BYTES + 16" for t
    using floor_boundary_le [of t MAX_OUTPUT_BYTES] by (simp add: truncate_output_def length_TRUNCATED)
  show "length (truncate_output (combine_output out err)) \<le> MAX_OUTPUT_BYTES + 16" by (rule k)
  show "valid_utf8 (truncate_output (combine_output out err))"
    using combine_output_valid [of out err] take_boundary_valid [OF _ _ floor_boundary_is_boundary]
      floor_boundary_le [of "combine_output out err" MAX_OUTPUT_BYTES]
    by (auto simp: truncate_output_def intro!: valid_utf8_append TRUNCATED_valid)
qed

lemma run_captured_Ok:
  "run_captured spec e = Ok out \<longleftrightarrow> (\<exists>o' e'. e = Finished o' e' (Some 0) \<and> out = truncate_output (combine_output o' e'))"
  by (auto simp: run_captured_def Let_def split: process_end.splits if_splits)

lemma run_captured_is_ok: "is_ok (run_captured spec e) \<longleftrightarrow> child_success e"
  by (cases e) (auto simp: run_captured_def Let_def)

lemma run_captured_Err:
  assumes "run_captured spec e = Err x"
  shows "\<exists>pre post. x = Execution (pre @ program spec @ post)"
proof (cases e)
  case TimedOut
  with assms have "x = Execution ([] @ program spec @ '' timed out'')" by (simp add: run_captured_def)
  then show ?thesis by blast
next
  case (IoFailed m)
  with assms have "x = Execution (''failed to run '' @ program spec @ ('': '' @ m))" by (simp add: run_captured_def)
  then show ?thesis by blast
next
  case (Finished out err code)
  with assms have "\<exists>post. x = Execution ([] @ program spec @ post)"
    by (auto simp: run_captured_def Let_def split: if_splits)
  then show ?thesis by blast
qed

text \<open>
  What the runner returns. A detached launch never asks for output and returns an empty string or a launch
  error. A captured command succeeds exactly when the child exits with code zero; every other end (timeout, I/O
  failure, another exit code, a signal) is an execution error that names the program. Whatever bytes the child
  wrote, a returned output is its decoded standard output and error, truncated: valid UTF-8 of bounded length.
\<close>

theorem runner_outcomes:
  "(is_ok (snd (runner_run os r w spec)) \<longleftrightarrow>
        (if capture_output spec then child_success (snd (os_output os (timeout_ms r) w spec))
         else is_ok (snd (os_spawn os w spec))))
   \<and> (snd (runner_run os r w spec) = Ok out \<longrightarrow> valid_utf8 out \<and> length out \<le> MAX_OUTPUT_BYTES + 16
        \<and> (if capture_output spec
            then \<exists>o' e'. snd (os_output os (timeout_ms r) w spec) = Finished o' e' (Some 0)
                   \<and> out = truncate_output (combine_output o' e')
            else out = []))
   \<and> (snd (runner_run os r w spec) = Err e \<longrightarrow> (\<exists>pre post. e = Execution (pre @ program spec @ post)))
   \<and> fst (runner_run os r w spec)
        = (if capture_output spec then fst (os_output os (timeout_ms r) w spec) else fst (os_spawn os w spec))"
proof (cases "capture_output spec")
  case True
  then have r: "runner_run os r w spec = (fst (os_output os (timeout_ms r) w spec),
      run_captured spec (snd (os_output os (timeout_ms r) w spec)))"
    by (simp add: runner_run_def split: prod.split)
  show ?thesis
    unfolding r using True run_captured_Err
    by (auto simp: run_captured_is_ok run_captured_Ok truncate_combined)
next
  case False
  obtain w1 x where x: "os_spawn os w spec = (w1, x)" by force
  have v: "valid_utf8 []" by (simp add: valid_utf8_def)
  show ?thesis
  proof (cases x)
    case (Inl m)
    then have r: "runner_run os r w spec = (w1, Err (Execution (''failed to launch '' @ program spec @ '': '' @ m)))"
      using False x by (simp add: runner_run_def)
    have "\<exists>pre post. ''failed to launch '' @ program spec @ '': '' @ m = pre @ program spec @ post" by blast
    with False x Inl show ?thesis unfolding r by (auto simp del: append.simps)
  next
    case (Inr u)
    with False x v show ?thesis by (auto simp: runner_run_def)
  qed
qed

text \<open>An interface of processes that fails to start anything and whose children print one line.\<close>

definition sample_os :: "unit process_api" where
  "sample_os = \<lparr> os_spawn = (\<lambda>w spec. (w, Err ''not found'')),
     os_output = (\<lambda>t w spec. (w, Finished ''main'' [] (Some 0))) \<rparr>"

theorem runner_outcomes_witness:
  "length ''main'' \<le> MAX_OUTPUT_BYTES + 16 \<and> valid_utf8 ''main''"
proof -
  have "from_utf8_lossy ''main'' = ''main''"
    by (rule from_utf8_lossy_id) (simp add: valid_utf8_def str_eval)
  then have "snd (runner_run sample_os runner_default () (command_captured ''git'' [''status''] None)) = Ok ''main''"
    by (simp add: runner_run_def sample_os_def run_captured_def combine_output_def truncate_output_def
        MAX_OUTPUT_BYTES_def)
  then show ?thesis
    using runner_outcomes [of sample_os runner_default "()" "command_captured ''git'' [''status''] None" "''main''"]
    by blast
qed

section \<open>Accounting\<close>

text \<open>A runner that also records the commands it is given.\<close>

definition recording :: "'w runner \<Rightarrow> (command_spec list \<times> 'w) runner" where
  "recording run = (\<lambda>(log, w) spec. case run w spec of (w', r) \<Rightarrow> ((log @ [spec], w'), r))"

text \<open>The commands a sequence of frames asks for: the plans of the well-formed requests that can be planned.\<close>

definition planned :: "(string \<Rightarrow> (dev_action_request, string) result) \<Rightarrow> dev_service \<Rightarrow> string \<Rightarrow> command_spec list" where
  "planned parse s f = (case parse f of Inl _ \<Rightarrow> []
     | Inr req \<Rightarrow> (case plan req (svc_workspaces s) (svc_hosts s) (svc_os s) of Inl _ \<Rightarrow> [] | Inr spec \<Rightarrow> [spec]))"

definition same_config :: "dev_service \<Rightarrow> dev_service \<Rightarrow> bool" where
  "same_config s t \<longleftrightarrow> svc_workspaces s = svc_workspaces t \<and> svc_hosts s = svc_hosts t \<and> svc_os s = svc_os t"

definition answered_ok :: "dev_action_result option \<Rightarrow> bool" where
  "answered_ok r = (case r of Some x \<Rightarrow> status x = StatusOk | None \<Rightarrow> False)"

lemma result_simps [simp]:
  "status (result_ok i m) = StatusOk" "status (result_ok_output i m) = StatusOk" "status (result_error i m) = StatusError"
  "result_id (result_ok i m) = i" "result_id (result_ok_output i m) = i" "result_id (result_error i m) = i"
  by (simp_all add: result_ok_def result_ok_output_def result_error_def)

lemma handle_frame_step:
  assumes "handle_frame parse (recording run) s (log, w) f = (s', (log', w'), r)"
  shows "same_config s' s \<and> log' = log @ planned parse s f
    \<and> dispatched s' = dispatched s + (if answered_ok r then 1 else 0)
    \<and> rejected s' = rejected s + (if answered_ok r then 0 else 1)
    \<and> map_option result_id r = (case parse f of Inl _ \<Rightarrow> None | Inr req \<Rightarrow> Some (request_id req))
    \<and> (planned parse s f = [] \<longrightarrow> \<not> answered_ok r \<and> w' = w)"
  using assms
  by (auto simp: handle_frame_def handle_def planned_def recording_def same_config_def answered_ok_def
      count_rejected_def count_dispatched_def split: sum.splits prod.splits if_splits)

lemma planned_cong: "same_config s t \<Longrightarrow> planned parse s = planned parse t"
  by (auto simp: planned_def same_config_def fun_eq_iff split: sum.split)

text \<open>
  Every frame is answered for and accounted for. Whatever frames arrive, the runner is given exactly the
  plans of the well-formed, plannable requests, in order and nothing else; a malformed frame is answered with
  nothing, any other with a result that carries its request id; the dispatched counter grows by the number of
  successful answers and the two counters together by the number of frames; the registries never change.
\<close>

theorem frames_are_accounted:
  assumes "handle_frames parse (recording run) s (log, w) fs = (s', (log', w'), rs)"
  shows "log' = log @ concat (map (planned parse s) fs)
    \<and> dispatched s' = dispatched s + of_nat (length (filter answered_ok rs))
    \<and> dispatched s' + rejected s' = dispatched s + rejected s + of_nat (length fs)
    \<and> map (map_option result_id) rs
        = map (\<lambda>f. case parse f of Inl _ \<Rightarrow> None | Inr req \<Rightarrow> Some (request_id req)) fs
    \<and> same_config s' s"
  using assms
proof (induction fs arbitrary: s log w s' log' w' rs)
  case Nil
  then show ?case by (simp add: same_config_def)
next
  case (Cons f fs)
  obtain s1 log1 w1 r where 1: "handle_frame parse (recording run) s (log, w) f = (s1, (log1, w1), r)"
    by (metis prod.exhaust)
  obtain s2 log2 w2 rs2 where 2: "handle_frames parse (recording run) s1 (log1, w1) fs = (s2, (log2, w2), rs2)"
    by (metis prod.exhaust)
  have s: "s' = s2" "log' = log2" "rs = r # rs2" using Cons.prems 1 2 by simp_all
  note st = handle_frame_step [OF 1]
  then have pl: "planned parse s1 = planned parse s" by (simp add: planned_cong)
  note ih = Cons.IH [OF 2]
  have "same_config s2 s" using st ih by (simp add: same_config_def)
  with st ih pl show ?case unfolding s by (cases "answered_ok r") (auto simp: algebra_simps)
qed

theorem frames_are_accounted_witness:
  "\<exists>s' log' w' rs. handle_frames (\<lambda>f. Err ''bad'') (recording (\<lambda>w spec. (w, Ok ''x'')))
      (service_new sample_workspaces sample_hosts LINUX) ([], ()) [''not-json''] = (s', (log', w'), rs)
    \<and> log' = [] \<and> dispatched s' + rejected s' = 1"
proof -
  let ?run = "recording (\<lambda>w spec. (w, Ok ''x''))"
  let ?s = "service_new sample_workspaces sample_hosts LINUX"
  obtain s' log' w' rs where
    h: "handle_frames (\<lambda>f. Err ''bad'') ?run ?s ([], ()) [''not-json''] = (s', (log', w'), rs)"
    by (metis prod.exhaust)
  from frames_are_accounted [OF h] show ?thesis using h by (auto simp: service_new_def planned_def)
qed

end
