(* ===== verification/Session_Runtime.thy ===== *)
theory Session_Runtime
  imports Backend Media Negotiation Capture Input Dev_Service
begin

text \<open>
  The session runtime (\<open>crates/config-ui/src/session_runtime.rs\<close>): the discovery loop that finds the sessions to
  answer, and one session from its signaling connection to its teardown. A session runs three tasks that share the
  signaling transport and the peer; each of them is a sequence of turns, and a run of a session is an arbitrary
  interleaving of turns. Taking a nonce and sending the envelope are two turns, because the sink is awaited in between.
\<close>

section \<open>Constants\<close>

definition POLL_INTERVAL_MS :: int where "POLL_INTERVAL_MS = 2000"
definition FRAME_INTERVAL_MS :: int where "FRAME_INTERVAL_MS = 66"
definition MAX_BUFFERED :: nat where "MAX_BUFFERED = 2 * 1024 * 1024"
definition ACTIVE_CAP :: nat where "ACTIVE_CAP = 512"

section \<open>Discovery\<close>

record session_manager =
  mgr_device_id :: string
  mgr_creds :: credentials
  mgr_tokens :: token_pair
  mgr_active :: "string list"

definition reauth :: "'w backend_api \<Rightarrow> credentials \<Rightarrow> token_pair \<Rightarrow> 'w \<Rightarrow> 'w \<times> token_pair option" where
  "reauth api creds tokens w = (case api_refresh api w (refresh_token tokens) of
     (w1, Inr t) \<Rightarrow> (w1, Some t)
   | (w1, Inl _) \<Rightarrow> (case api_login api w1 (email creds) (password creds) of
       (w2, Inr t) \<Rightarrow> (w2, Some t)
     | (w2, Inl _) \<Rightarrow> (w2, None)))"

text \<open>The guard that answers a session once; the set of answered sessions is a list without repetition.\<close>

definition claim_session :: "string list \<Rightarrow> string \<Rightarrow> string list \<times> bool" where
  "claim_session active sid =
    (if sid \<in> set active then (active, False)
     else let active1 = sid # active in
       (if length active1 > ACTIVE_CAP then [sid] else active1, True))"

fun claim_all :: "string list \<Rightarrow> pending_session list \<Rightarrow> string list \<times> pending_session list" where
  "claim_all active [] = (active, [])"
| "claim_all active (ps # rest) = (case claim_session active (ref_id (session ps)) of
     (active1, new) \<Rightarrow> (case claim_all active1 rest of
       (active2, out) \<Rightarrow> (active2, if new then ps # out else out)))"

text \<open>One round of the loop, with the sessions it starts to answer.\<close>

definition poll :: "'w backend_api \<Rightarrow> session_manager \<Rightarrow> 'w \<Rightarrow> 'w \<times> session_manager \<times> pending_session list" where
  "poll api m w = (case api_pending_sessions api w (access_token (mgr_tokens m)) (mgr_device_id m) of
     (w1, Inl _) \<Rightarrow> (case reauth api (mgr_creds m) (mgr_tokens m) w1 of
       (w2, Some t) \<Rightarrow> (w2, m\<lparr> mgr_tokens := t \<rparr>, [])
     | (w2, None) \<Rightarrow> (w2, m, []))
   | (w1, Inr pending) \<Rightarrow> (case claim_all (mgr_active m) pending of
       (active, out) \<Rightarrow> (w1, m\<lparr> mgr_active := active \<rparr>, out)))"

text \<open>What happens before the first round: a client and a login, or nothing at all.\<close>

definition manager_start :: "'w http_lib \<Rightarrow> (backend_client \<Rightarrow> 'w backend_api) \<Rightarrow> string \<Rightarrow> string \<Rightarrow> credentials \<Rightarrow> 'w
    \<Rightarrow> 'w \<times> session_manager option" where
  "manager_start http mk base dev creds w = (case client_new http base of
     Inl _ \<Rightarrow> (w, None)
   | Inr c \<Rightarrow> (case api_login (mk c) w (email creds) (password creds) of
       (w1, Inl _) \<Rightarrow> (w1, None)
     | (w1, Inr t) \<Rightarrow> (w1, Some \<lparr> mgr_device_id = dev, mgr_creds = creds, mgr_tokens = t, mgr_active = [] \<rparr>)))"

text \<open>What one poll is told, and several polls with all they start and all they are told.\<close>

definition announced :: "'w backend_api \<Rightarrow> session_manager \<Rightarrow> 'w \<Rightarrow> pending_session list" where
  "announced api m w = (case snd (api_pending_sessions api w (access_token (mgr_tokens m)) (mgr_device_id m)) of
     Inr pss \<Rightarrow> pss | Inl _ \<Rightarrow> [])"

fun all_announced :: "'w backend_api \<Rightarrow> nat \<Rightarrow> session_manager \<Rightarrow> 'w \<Rightarrow> pending_session list" where
  "all_announced api 0 m w = []"
| "all_announced api (Suc n) m w = announced api m w @ (case poll api m w of (w1, m1, _) \<Rightarrow> all_announced api n m1 w1)"

fun polls :: "'w backend_api \<Rightarrow> nat \<Rightarrow> session_manager \<Rightarrow> 'w \<Rightarrow> 'w \<times> session_manager \<times> pending_session list" where
  "polls api 0 m w = (w, m, [])"
| "polls api (Suc n) m w = (case poll api m w of (w1, m1, out) \<Rightarrow>
     case polls api n m1 w1 of (w2, m2, outs) \<Rightarrow> (w2, m2, out @ outs))"

section \<open>A session\<close>

text \<open>What a session is built on: the WebRTC stack, the signaling socket, the injector and clipboard, the command
  runner, and the decoders.\<close>

record ('w, 'i, 'c, 'd) session_deps =
  dep_rtc :: "'w rtc_api"
  dep_builder :: "'w rtc_builder"
  dep_close :: "'w \<Rightarrow> 'w"
  dep_dial :: "string \<Rightarrow> (ws_event list, string) result"
  dep_to_json :: "signal_envelope \<Rightarrow> (string, string) result"
  dep_sink :: "string \<Rightarrow> string option"
  dep_from_str :: "string \<Rightarrow> (signal_envelope, string) result"
  dep_from_slice :: "string \<Rightarrow> (signal_envelope, string) result"
  dep_router :: "('i, 'c) router_env"
  dep_parse_input :: "string \<Rightarrow> (input_event, string) result"
  dep_parse_dev :: "string \<Rightarrow> (dev_action_request, string) result"
  dep_runner :: "'d runner"
  dep_jpeg :: jpeg_lib

text \<open>What all sessions share: the input router and the developer tools.\<close>

record ('i, 'c, 'd) desk =
  desk_router :: "('i, 'c) input_router"
  desk_tools :: dev_service
  desk_world :: 'd

record frame_pump =
  pump_alive :: bool
  pump_last :: int
  pump_sent :: u64
  pump_dropped :: u64

text \<open>
  \<open>ls_ice\<close> and \<open>ls_answer\<close> hold an envelope whose nonce has been taken and that has not been sent yet, by the event
  task and by the signaling loop; \<open>ls_result\<close> is set once the session has ended.
\<close>

record 'w live_session =
  ls_id :: string
  ls_ws :: ws_transport
  ls_peer :: "'w agent_peer"
  ls_neg :: negotiation_state
  ls_ice :: "signal_envelope option"
  ls_answer :: "signal_envelope option"
  ls_pump :: frame_pump
  ls_result :: "(unit, string) result option"

definition to_ice_server :: "session_ice_server \<Rightarrow> ice_server" where
  "to_ice_server s = \<lparr> ice_urls = srv_urls s, ice_username = srv_username s, ice_credential = srv_credential s \<rparr>"

text \<open>The start of \<open>handle_session\<close>, at time \<open>now\<close> (milliseconds).\<close>

definition start_session :: "('w, 'i, 'c, 'd) session_deps \<Rightarrow> int \<Rightarrow> pending_session \<Rightarrow> ('w live_session, string) result" where
  "start_session d now ps =
    (let sid = ref_id (session ps) in
     case ws_connect (dep_dial d) (ws_new (signaling_url ps) sid (signaling_ticket ps) ''agent'') of
       (_, Inl e) \<Rightarrow> Err (''signaling connect: '' @ agent_error_display e)
     | (ws, Inr _) \<Rightarrow> (case agent_peer_new (dep_builder d) \<lparr> peer_ice_servers = map to_ice_server (ice_servers ps) \<rparr> of
         Inl e \<Rightarrow> Err e
       | Inr p \<Rightarrow> Ok \<lparr> ls_id = sid, ls_ws = ws, ls_peer = p, ls_neg = negotiation_new Negotiation.Agent,
           ls_ice = None, ls_answer = None,
           ls_pump = \<lparr> pump_alive = True, pump_last = now - FRAME_INTERVAL_MS, pump_sent = 0, pump_dropped = 0 \<rparr>,
           ls_result = None \<rparr>))"

text \<open>Teardown: the two tasks are aborted and the peer is closed.\<close>

definition end_session :: "('w, 'i, 'c, 'd) session_deps \<Rightarrow> (unit, string) result \<Rightarrow> 'w live_session \<Rightarrow> 'w live_session" where
  "end_session d r s = s\<lparr> ls_ice := None, ls_answer := None, ls_pump := (ls_pump s)\<lparr> pump_alive := False \<rparr>,
     ls_peer := (ls_peer s)\<lparr> pc := dep_close d (pc (ls_peer s)) \<rparr>, ls_result := Some r \<rparr>"

text \<open>An envelope of the session with the next nonce.\<close>

definition make_envelope :: "nat option \<Rightarrow> signal_payload \<Rightarrow> 'w live_session \<Rightarrow> 'w live_session \<times> signal_envelope" where
  "make_envelope clock p s = (case next_nonce (ls_ws s) of
     (ws, n) \<Rightarrow> (s\<lparr> ls_ws := ws \<rparr>, envelope_new clock (ls_id s) n p))"

section \<open>The turns of the tasks\<close>

text \<open>The event task takes the next event of the peer.\<close>

definition event_turn :: "('w, 'i, 'c, 'd) session_deps \<Rightarrow> nat option \<Rightarrow> peer_event
    \<Rightarrow> ('i, 'c, 'd) desk \<times> 'w live_session \<Rightarrow> ('i, 'c, 'd) desk \<times> 'w live_session" where
  "event_turn d clock ev = (\<lambda>(dk, s). case ev of
     LocalIce c i \<Rightarrow> (case make_envelope clock (IceCandidate c i) s of (s1, env) \<Rightarrow> (dk, s1\<lparr> ls_ice := Some env \<rparr>))
   | InputFrame f \<Rightarrow>
       (dk\<lparr> desk_router := fst (router_handle_frame (dep_router d) (dep_parse_input d) (desk_router dk) f) \<rparr>, s)
   | ControlFrame f \<Rightarrow> (case handle_frame (dep_parse_dev d) (dep_runner d) (desk_tools dk) (desk_world dk) f of
       (t, w, _) \<Rightarrow> (dk\<lparr> desk_tools := t, desk_world := w \<rparr>, s))
   | StateChanged st \<Rightarrow> (dk, s))"

definition send_ice :: "('w, 'i, 'c, 'd) session_deps \<Rightarrow> 'w live_session \<Rightarrow> 'w live_session \<times> signal_envelope list" where
  "send_ice d s = (case ls_ice s of
     None \<Rightarrow> (s, [])
   | Some env \<Rightarrow> (case ws_send (dep_to_json d) (dep_sink d) (ls_ws s) env of
       (ws, r) \<Rightarrow> (s\<lparr> ls_ws := ws, ls_ice := None \<rparr>, if is_ok r then [env] else [])))"

text \<open>The signaling loop: one received message, up to the sending of an answer.\<close>

definition signal_turn :: "('w, 'i, 'c, 'd) session_deps \<Rightarrow> nat option \<Rightarrow> 'w live_session \<Rightarrow> 'w live_session" where
  "signal_turn d clock s = (case ws_recv (dep_from_str d) (dep_from_slice d) (ls_ws s) of
     (ws, Inl e) \<Rightarrow> end_session d (Err (''signaling recv: '' @ agent_error_display e)) (s\<lparr> ls_ws := ws \<rparr>)
   | (ws, Inr None) \<Rightarrow> end_session d (Ok ()) (s\<lparr> ls_ws := ws \<rparr>)
   | (ws, Inr (Some env)) \<Rightarrow> (case on_signal (ls_neg s) (env_payload env) of
       (neg, a) \<Rightarrow> (let s1 = s\<lparr> ls_ws := ws, ls_neg := neg \<rparr> in
         (case a of
           CreateAnswer sdp \<Rightarrow> (case accept_offer (dep_rtc d) (ls_peer s1) sdp of
             (p, Inl e) \<Rightarrow> end_session d (Err e) (s1\<lparr> ls_peer := p \<rparr>)
           | (p, Inr answer) \<Rightarrow> (case make_envelope clock (Answer answer) (s1\<lparr> ls_peer := p \<rparr>) of
               (s2, out) \<Rightarrow> s2\<lparr> ls_answer := Some out \<rparr>))
         | AddIceCandidate c i \<Rightarrow> s1\<lparr> ls_peer := fst (add_remote_ice (dep_rtc d) (ls_peer s1) c i) \<rparr>
         | Close \<Rightarrow> end_session d (Ok ()) s1
         | _ \<Rightarrow> s1))))"

definition send_answer :: "('w, 'i, 'c, 'd) session_deps \<Rightarrow> 'w live_session \<Rightarrow> 'w live_session \<times> signal_envelope list" where
  "send_answer d s = (case ls_answer s of
     None \<Rightarrow> (s, [])
   | Some env \<Rightarrow> (case ws_send (dep_to_json d) (dep_sink d) (ls_ws s) env of
       (ws, Inr _) \<Rightarrow> (s\<lparr> ls_ws := ws, ls_answer := None \<rparr>, [env])
     | (ws, Inl e) \<Rightarrow> (end_session d (Err (''send answer: '' @ agent_error_display e)) (s\<lparr> ls_ws := ws \<rparr>), [])))"

text \<open>
  The frame task: it wakes up with the latest frame of the capture loop at time \<open>now\<close>. A panic of the encoder ends the
  task.
\<close>

definition frame_turn :: "('w, 'i, 'c, 'd) session_deps \<Rightarrow> int \<Rightarrow> frame option \<Rightarrow> 'w live_session \<Rightarrow> 'w live_session" where
  "frame_turn d now latest s =
    (let p = ls_pump s in
     if \<not> pump_alive p then s
     else if now - pump_last p < FRAME_INTERVAL_MS then s
     else (case latest of
       None \<Rightarrow> s
     | Some f \<Rightarrow>
         if \<not> frames_open (dep_rtc d) (ls_peer s) then s
         else let p1 = p\<lparr> pump_last := now \<rparr> in
           (case encode (dep_jpeg d) streaming_default f of
             None \<Rightarrow> s\<lparr> ls_pump := p1\<lparr> pump_alive := False \<rparr> \<rparr>
           | Some (Inl e) \<Rightarrow> s\<lparr> ls_pump := p1 \<rparr>
           | Some (Inr encoded) \<Rightarrow> (case send_frame (dep_rtc d) (ls_peer s) encoded MAX_BUFFERED of
               (peer, Inr True) \<Rightarrow> s\<lparr> ls_peer := peer, ls_pump := p1\<lparr> pump_sent := pump_sent p1 + 1 \<rparr> \<rparr>
             | (peer, _) \<Rightarrow> s\<lparr> ls_peer := peer, ls_pump := p1\<lparr> pump_dropped := pump_dropped p1 + 1 \<rparr> \<rparr>))))"

section \<open>Runs of a session\<close>

text \<open>
  Each task moves on its own: the event task is busy while it holds a candidate, the signaling loop while it holds an
  answer. The controller opens its data channels at any time; \<open>CaptureGone\<close> is the end of the capture loop.
\<close>

datatype session_op =
    EventTurn "nat option" peer_event
  | SendIce
  | SignalTurn "nat option"
  | SendAnswer
  | FrameTurn int "frame option"
  | ChannelOpened string
  | CaptureGone

fun session_step :: "('w, 'i, 'c, 'd) session_deps \<Rightarrow> session_op \<Rightarrow> ('i, 'c, 'd) desk \<times> 'w live_session
    \<Rightarrow> (('i, 'c, 'd) desk \<times> 'w live_session) \<times> signal_envelope list" where
  "session_step d x (dk, s) =
    (if ls_result s \<noteq> None then ((dk, s), [])
     else (case x of
       EventTurn clock ev \<Rightarrow> (if ls_ice s = None then event_turn d clock ev (dk, s) else (dk, s), [])
     | SendIce \<Rightarrow> (case send_ice d s of (s', out) \<Rightarrow> ((dk, s'), out))
     | SignalTurn clock \<Rightarrow> (if ls_answer s = None then (dk, signal_turn d clock s) else (dk, s), [])
     | SendAnswer \<Rightarrow> (case send_answer d s of (s', out) \<Rightarrow> ((dk, s'), out))
     | FrameTurn now latest \<Rightarrow> ((dk, frame_turn d now latest s), [])
     | ChannelOpened label \<Rightarrow> ((dk, s\<lparr> ls_peer := on_data_channel (ls_peer s) label \<rparr>), [])
     | CaptureGone \<Rightarrow> ((dk, s\<lparr> ls_pump := (ls_pump s)\<lparr> pump_alive := False \<rparr> \<rparr>), [])))"

fun session_run :: "('w, 'i, 'c, 'd) session_deps \<Rightarrow> session_op list \<Rightarrow> ('i, 'c, 'd) desk \<times> 'w live_session
    \<Rightarrow> (('i, 'c, 'd) desk \<times> 'w live_session) \<times> signal_envelope list" where
  "session_run d [] st = (st, [])"
| "session_run d (x # xs) st = (case session_step d x st of (st1, out) \<Rightarrow>
     case session_run d xs st1 of (st2, outs) \<Rightarrow> (st2, out @ outs))"

section \<open>Properties of the discovery\<close>

abbreviation ps_id :: "pending_session \<Rightarrow> string" where "ps_id ps \<equiv> ref_id (session ps)"

lemma claim_all_below_cap:
  assumes "claim_all active pss = (active', out)" and "distinct active"
    and "set active \<union> ps_id ` set pss \<subseteq> S" and "finite S" and "card S \<le> ACTIVE_CAP"
  shows "distinct active' \<and> set active' = set active \<union> ps_id ` set pss
    \<and> set active \<inter> ps_id ` set out = {} \<and> distinct (map ps_id out) \<and> set active' = set active \<union> ps_id ` set out"
  using assms(1-3)
proof (induction pss arbitrary: active active' out)
  case (Cons ps pss)
  show ?case
  proof (cases "ps_id ps \<in> set active")
    case True
    then show ?thesis using Cons.prems Cons.IH [of active active' out] by (auto simp: claim_session_def)
  next
    case False
    have d: "distinct (ps_id ps # active)" "set (ps_id ps # active) \<subseteq> S" using False Cons.prems(2,3) by auto
    then have "length (ps_id ps # active) \<le> ACTIVE_CAP"
      using assms(4,5) by (metis card_mono distinct_card le_trans)
    then have c: "claim_session active (ps_id ps) = (ps_id ps # active, True)" using False by (simp add: claim_session_def)
    obtain out' where o: "claim_all (ps_id ps # active) pss = (active', out')" "out = ps # out'"
      using Cons.prems(1) c by (auto split: prod.splits)
    have "set (ps_id ps # active) \<union> ps_id ` set pss \<subseteq> S" using Cons.prems(3) by auto
    from Cons.IH [OF o(1) d(1) this] o(2) False show ?thesis by auto
  qed
qed auto

text \<open>A backend that announces only sessions of \<open>S\<close> for a device.\<close>

definition announces_within :: "'w backend_api \<Rightarrow> string \<Rightarrow> string set \<Rightarrow> bool" where
  "announces_within api dev S \<longleftrightarrow>
     (\<forall>w t w' pss. api_pending_sessions api w t dev = (w', Ok pss) \<longrightarrow> ps_id ` set pss \<subseteq> S)"

lemma poll_below_cap:
  assumes "poll api m w = (w1, m1, out)" and "distinct (mgr_active m)" and "set (mgr_active m) \<subseteq> S"
    and "announces_within api (mgr_device_id m) S"
    and "finite S" and "card S \<le> ACTIVE_CAP"
  shows "mgr_device_id m1 = mgr_device_id m \<and> distinct (mgr_active m1) \<and> set (mgr_active m1) \<subseteq> S
      \<and> set (mgr_active m) \<inter> ps_id ` set out = {} \<and> distinct (map ps_id out)
      \<and> set (mgr_active m1) = set (mgr_active m) \<union> ps_id ` set out
      \<and> set (mgr_active m1) = set (mgr_active m) \<union> ps_id ` set (announced api m w)"
proof -
  obtain w2 r where a: "api_pending_sessions api w (access_token (mgr_tokens m)) (mgr_device_id m) = (w2, r)" by force
  show ?thesis
  proof (cases r)
    case (Inl e)
    then show ?thesis using a assms(1-3) by (auto simp: poll_def announced_def split: prod.splits option.splits)
  next
    case (Inr pss)
    obtain active where c: "claim_all (mgr_active m) pss = (active, out)" "m1 = m\<lparr> mgr_active := active \<rparr>"
      using assms(1) a Inr by (auto simp: poll_def split: prod.splits)
    have "set (mgr_active m) \<union> ps_id ` set pss \<subseteq> S" using assms(3,4) a Inr unfolding announces_within_def by blast
    with claim_all_below_cap [OF c(1) assms(2) this assms(5,6)] c(2) a Inr show ?thesis by (auto simp: announced_def)
  qed
qed

lemma polls_below_cap:
  assumes "finite S" and "card S \<le> ACTIVE_CAP"
  shows "distinct (mgr_active m) \<Longrightarrow> set (mgr_active m) \<subseteq> S \<Longrightarrow> polls api n m w = (w', m', started)
    \<Longrightarrow> announces_within api (mgr_device_id m) S
    \<Longrightarrow> distinct (map ps_id started) \<and> set (mgr_active m) \<inter> ps_id ` set started = {}
      \<and> set (mgr_active m') = set (mgr_active m) \<union> ps_id ` set started
      \<and> set (mgr_active m') = set (mgr_active m) \<union> ps_id ` set (all_announced api n m w)"
proof (induction n arbitrary: m w started)
  case (Suc n)
  obtain w1 m1 out where p: "poll api m w = (w1, m1, out)" by (cases "poll api m w")
  obtain outs where q: "polls api n m1 w1 = (w', m', outs)" "started = out @ outs"
    using Suc.prems(3) p by (auto split: prod.splits)
  note pb = poll_below_cap [OF p Suc.prems(1,2,4) assms]
  then have 1: "mgr_device_id m1 = mgr_device_id m" "distinct (mgr_active m1)" "set (mgr_active m1) \<subseteq> S" by blast+
  note ih = Suc.IH [OF 1(2,3) q(1) Suc.prems(4) [folded 1(1)]]
  have 2: "distinct (map ps_id out)" "set (mgr_active m) \<inter> ps_id ` set out = {}"
      "set (mgr_active m1) = set (mgr_active m) \<union> ps_id ` set out"
      "set (mgr_active m1) = set (mgr_active m) \<union> ps_id ` set (announced api m w)" using pb by blast+
  have 3: "distinct (map ps_id outs)" "set (mgr_active m1) \<inter> ps_id ` set outs = {}"
      "set (mgr_active m') = set (mgr_active m1) \<union> ps_id ` set outs"
      "set (mgr_active m') = set (mgr_active m1) \<union> ps_id ` set (all_announced api n m1 w1)" using ih by blast+
  have 4: "ps_id ` set out \<inter> ps_id ` set outs = {}" "set (mgr_active m) \<inter> ps_id ` set outs = {}"
    using 3(2) unfolding 2(3) Int_Un_distrib2 Un_empty by simp_all
  have "distinct (map ps_id started)"
    unfolding q(2) map_append distinct_append set_map using 2(1) 3(1) 4(1) by (intro conjI)
  moreover have "ps_id ` set started = ps_id ` set out \<union> ps_id ` set outs" unfolding q(2) set_append by (rule image_Un)
  moreover have "set (mgr_active m') = set (mgr_active m) \<union> ps_id ` set (all_announced api (Suc n) m w)"
    using 2(4) 3(4) p by (simp add: image_Un Un_assoc)
  moreover have "set (mgr_active m') = set (mgr_active m) \<union> ps_id ` set started"
    using 2(3) 3(3) \<open>ps_id ` set started = ps_id ` set out \<union> ps_id ` set outs\<close> by (simp add: Un_assoc)
  ultimately show ?case using 2(2) 4(2) by (simp add: Int_Un_distrib)
qed simp

text \<open>
  Sessions are answered exactly once, as long as at most 512 different ones are announced: over any number of polls,
  failed ones and token renewals included, the sessions started are pairwise different, and they are exactly the
  sessions the backend announced.
\<close>

theorem sessions_answered_once:
  assumes "announces_within api (mgr_device_id m) S" and "finite S" and "card S \<le> ACTIVE_CAP" and "mgr_active m = []"
    and "polls api n m w = (w', m', started)"
  shows "distinct (map ps_id started) \<and> ps_id ` set started = ps_id ` set (all_announced api n m w)"
  using polls_below_cap [OF assms(2,3) _ _ assms(5,1)] unfolding assms(4) by (metis Un_empty_left distinct.simps(1) empty_set empty_subsetI)

text \<open>One session, announced in every poll.\<close>

definition sample_pending :: pending_session where
  "sample_pending = \<lparr> session = \<lparr> ref_id = ''s1'', ref_pairing_id = [], ref_status = [] \<rparr>, signaling_url = ''ws://h'',
     signaling_ticket = ''t'', ice_servers = [] \<rparr>"

definition sample_manager :: session_manager where
  "sample_manager = \<lparr> mgr_device_id = ''d'', mgr_creds = \<lparr> email = ''e'', password = ''p'' \<rparr>, mgr_tokens = sample_tokens, mgr_active = [] \<rparr>"

definition announcing :: "unit backend_api" where
  "announcing = (client_api sample_http (sample_decoders\<lparr> pending_from_str := (\<lambda>s. Ok [sample_pending]) \<rparr>) (with_client ''http://h''))"

theorem sessions_answered_once_witness:
  "\<exists>m. polls announcing 3 sample_manager () = ((), m, [sample_pending])
    \<and> ps_id ` set (all_announced announcing 3 sample_manager ()) = {''s1''}"
proof -
  have p: "api_pending_sessions announcing w t d = (w, Ok [sample_pending])" for w t d
    by (simp add: announcing_def client_api_def decode_json_def sample_http_def sample_decoders_def is_success_def)
  obtain m where m: "polls announcing 3 sample_manager () = ((), m, [sample_pending])"
    by (simp add: numeral_3_eq_3 poll_def p claim_session_def sample_manager_def sample_pending_def ACTIVE_CAP_def)
  have "announces_within announcing (mgr_device_id sample_manager) {''s1''}"
    by (auto simp: announces_within_def p sample_pending_def)
  from sessions_answered_once [OF this _ _ _ m] have "ps_id ` set (all_announced announcing 3 sample_manager ()) = {''s1''}"
    by (simp add: ACTIVE_CAP_def sample_manager_def sample_pending_def)
  with m show ?thesis by blast
qed

text \<open>
  Beyond 512 sessions the guard forgets: the session that overflows the set empties it, and every earlier session that
  is still announced is answered a second time.
\<close>

lemma forgotten_session_answered_again:
  assumes "length active = ACTIVE_CAP" and "sid \<in> set active" and "new \<notin> set active"
  shows "\<exists>active'. claim_session active new = (active', True) \<and> snd (claim_session active' sid)"
  using assms by (auto simp: claim_session_def ACTIVE_CAP_def)

end
