(* ===== verification/Session_Safety.thy ===== *)
theory Session_Safety
  imports Session_Runtime "HOL-Library.Multiset"
begin

text \<open>
  What holds of a session in every interleaving of its tasks: the nonces it uses, the order in which the signaling
  service sees them, the negotiation it follows, the pace of its frames, and its end.
\<close>

interpretation sessions: labelled_run "session_step d" "session_run d" for d :: "('w, 'i, 'c, 'd) session_deps"
  by unfold_locales (simp_all del: session_step.simps)

section \<open>Nonces of a session\<close>

text \<open>The envelopes a session has built and not yet sent.\<close>

definition held :: "'w live_session \<Rightarrow> signal_envelope list" where
  "held s = (case ls_ice s of Some e \<Rightarrow> [e] | None \<Rightarrow> []) @ (case ls_answer s of Some e \<Rightarrow> [e] | None \<Rightarrow> [])"

definition agent_payload :: "signal_payload \<Rightarrow> bool" where
  "agent_payload p = (case p of Answer _ \<Rightarrow> True | IceCandidate _ _ \<Rightarrow> True | _ \<Rightarrow> False)"

text \<open>The invariant: what was sent or is held has its own nonce, already counted, and belongs to the session.\<close>

definition nonces_ok :: "signal_envelope list \<Rightarrow> 'w live_session \<Rightarrow> bool" where
  "nonces_ok sent s \<longleftrightarrow> distinct (map (unat \<circ> env_nonce) (sent @ held s))
     \<and> (\<forall>e \<in> set (sent @ held s). unat (env_nonce e) \<le> unat (ws_nonce (ls_ws s)) \<and> env_session e = ls_id s
          \<and> agent_payload (env_payload e))"

lemma ws_send_nonce [simp]: "ws_send j k w e = (w', r) \<Longrightarrow> ws_nonce w' = ws_nonce w"
  by (auto simp: ws_send_def mark_disconnected_def split: sum.splits option.splits)

lemma ws_recv_nonce [simp]: "ws_recv f g w = (w', r) \<Longrightarrow> ws_nonce w' = ws_nonce w"
  by (auto simp: ws_recv_def mark_disconnected_def Let_def split: option.splits prod.splits if_splits)

lemma end_session_simps [simp]:
  "held (end_session d r s) = []" "ls_ws (end_session d r s) = ls_ws s" "ls_id (end_session d r s) = ls_id s"
  "ls_neg (end_session d r s) = ls_neg s" "ls_ice (end_session d r s) = None" "ls_answer (end_session d r s) = None" "ls_result (end_session d r s) = Some r"
  by (simp_all add: end_session_def held_def)

lemma make_envelope_eq:
  "make_envelope clock p s = (s\<lparr> ls_ws := (ls_ws s)\<lparr> ws_nonce := ws_nonce (ls_ws s) + 1 \<rparr> \<rparr>,
     envelope_new clock (ls_id s) (ws_nonce (ls_ws s) + 1) p)"
  by (simp add: make_envelope_def next_nonce_def)

lemma envelope_new_simps [simp]:
  "env_nonce (envelope_new c i n p) = n" "env_session (envelope_new c i n p) = i" "env_payload (envelope_new c i n p) = p"
  by (simp_all add: envelope_new_def)

lemma distinct_submset:
  assumes "mset xs \<subseteq># mset ys" and "distinct ys"
  shows "distinct xs"
  unfolding distinct_count_atmost_1
proof
  fix a
  have "count (mset xs) a \<le> count (mset ys) a" using assms(1) by (rule mset_subset_eq_count)
  also have "\<dots> \<le> 1" using assms(2) by (simp add: distinct_count_atmost_1)
  finally have "count (mset xs) a \<le> 1" .
  moreover have "a \<in> set xs \<longleftrightarrow> count (mset xs) a \<noteq> 0" by (simp add: count_eq_zero_iff)
  ultimately show "count (mset xs) a = (if a \<in> set xs then 1 else 0)" by (cases "count (mset xs) a") auto
qed

text \<open>Taking an envelope keeps the invariant, and so does sending or giving up one that is held.\<close>

lemma nonces_ok_take:
  assumes "nonces_ok sent s" and "unat (ws_nonce (ls_ws s)) + 1 < 2 ^ 64"
    and "unat (env_nonce e) = unat (ws_nonce (ls_ws s)) + 1" and "env_session e = ls_id s" and "agent_payload (env_payload e)"
    and "mset (held s') = add_mset e (mset (held s))" and "ls_id s' = ls_id s"
    and "unat (ws_nonce (ls_ws s')) = unat (ws_nonce (ls_ws s)) + 1"
  shows "nonces_ok sent s'"
proof -
  have st: "set (held s') = insert e (set (held s))" using assms(6) by (metis set_mset_add_mset_insert set_mset_mset)
  let ?g = "unat \<circ> env_nonce"
  have "?g e \<notin> set (map ?g (sent @ held s))"
  proof
    assume "?g e \<in> set (map ?g (sent @ held s))"
    then obtain x where "x \<in> set (sent @ held s)" "unat (env_nonce e) = unat (env_nonce x)" by auto
    moreover from this(1) have "unat (env_nonce x) \<le> unat (ws_nonce (ls_ws s))" using assms(1) unfolding nonces_ok_def by blast
    ultimately show False using assms(3) by simp
  qed
  moreover have "distinct (map ?g (sent @ held s))" using assms(1) unfolding nonces_ok_def by blast
  ultimately have "distinct (?g e # map ?g (sent @ held s))" unfolding distinct.simps by (rule conjI)
  moreover have "mset (map ?g (sent @ held s')) = mset (?g e # map ?g (sent @ held s))"
    using assms(6) by (simp add: mset_map)
  ultimately have "distinct (map ?g (sent @ held s'))" using mset_eq_imp_distinct_iff by blast
  moreover have "unat (env_nonce x) \<le> unat (ws_nonce (ls_ws s')) \<and> env_session x = ls_id s' \<and> agent_payload (env_payload x)"
    if "x \<in> set (sent @ held s')" for x
  proof (cases "x = e")
    case True
    then show ?thesis using assms(3,4,5,7,8) by simp
  next
    case False
    then have "x \<in> set (sent @ held s)" using that st by auto
    then have "unat (env_nonce x) \<le> unat (ws_nonce (ls_ws s)) \<and> env_session x = ls_id s \<and> agent_payload (env_payload x)"
      using assms(1) unfolding nonces_ok_def by blast
    then show ?thesis using assms(7,8) by simp
  qed
  ultimately show ?thesis unfolding nonces_ok_def by blast
qed

lemma nonces_ok_drop:
  assumes "nonces_ok sent s" and "mset (sent' @ held s') \<subseteq># mset (sent @ held s)"
    and "ls_id s' = ls_id s" and "ws_nonce (ls_ws s') = ws_nonce (ls_ws s)"
  shows "nonces_ok sent' s'"
proof -
  have "mset (map (unat \<circ> env_nonce) (sent' @ held s')) \<subseteq># mset (map (unat \<circ> env_nonce) (sent @ held s))"
    using assms(2) unfolding mset_map by (rule image_mset_subseteq_mono)
  then have "distinct (map (unat \<circ> env_nonce) (sent' @ held s'))"
    using assms(1) unfolding nonces_ok_def by (metis distinct_submset)
  moreover have "set (sent' @ held s') \<subseteq> set (sent @ held s)"
    using set_mset_mono [OF assms(2)] by simp
  ultimately show ?thesis using assms(1,3,4) unfolding nonces_ok_def by (metis subsetD)
qed

lemma held_simps: "ls_ice s = None \<Longrightarrow> ls_answer s = None \<Longrightarrow> held s = []"
  by (simp add: held_def)

text \<open>What the turn of the signaling loop can do to the envelopes of the session.\<close>

lemma signal_turn_effect:
  fixes s :: "'w live_session"
  assumes "ls_answer s = None" and "s' = signal_turn d clock s"
  shows "ls_id s' = ls_id s \<and>
    (ws_nonce (ls_ws s') = ws_nonce (ls_ws s) \<and> ls_answer s' = None \<and> (ls_ice s' = ls_ice s \<or> ls_ice s' = None)
   \<or> (\<exists>a. ls_answer s' = Some (envelope_new clock (ls_id s) (ws_nonce (ls_ws s) + 1) (Answer a)) \<and> ls_ice s' = ls_ice s
        \<and> ws_nonce (ls_ws s') = ws_nonce (ls_ws s) + 1))"
proof -
  obtain ws r where r: "ws_recv (dep_from_str d) (dep_from_slice d) (ls_ws s) = (ws, r)" by force
  note n = ws_recv_nonce [OF r]
  show ?thesis
  proof (cases r)
    case (Inl e)
    then show ?thesis using r n assms by (simp add: signal_turn_def end_session_def)
  next
    case (Inr m)
    show ?thesis
    proof (cases m)
      case None
      then show ?thesis using r n assms Inr by (simp add: signal_turn_def end_session_def)
    next
      case (Some env)
      obtain neg a where a: "on_signal (ls_neg s) (env_payload env) = (neg, a)" by force
      show ?thesis
      proof (cases a)
        case (CreateAnswer sdp)
        obtain q x where x: "accept_offer (dep_rtc d) (ls_peer s) sdp = (q, x)" by force
        then show ?thesis using r n assms Inr Some a CreateAnswer
          by (cases x) (auto simp: signal_turn_def Let_def make_envelope_eq end_session_def)
      qed (use r n assms Inr Some a in \<open>simp_all add: signal_turn_def Let_def end_session_def\<close>)
    qed
  qed
qed

lemma frame_turn_keeps [simp]:
  "ls_id (frame_turn d now l s) = ls_id s" "ls_ws (frame_turn d now l s) = ls_ws s" "ls_ice (frame_turn d now l s) = ls_ice s"
  "ls_answer (frame_turn d now l s) = ls_answer s" "ls_neg (frame_turn d now l s) = ls_neg s"
  "ls_result (frame_turn d now l s) = ls_result s"
  by (simp_all add: frame_turn_def Let_def split: option.split sum.split prod.split bool.split)

text \<open>
  Every step takes at most one nonce, for an envelope it then holds; sends at most one envelope it held; or gives
  envelopes up.
\<close>

lemma session_step_effect:
  assumes "session_step d x (dk, s) = ((dk', s'), out)"
  shows "ls_id s' = ls_id s \<and>
    ((ws_nonce (ls_ws s') = ws_nonce (ls_ws s) \<and> mset (out @ held s') \<subseteq># mset (held s))
   \<or> (\<exists>e. out = [] \<and> mset (held s') = add_mset e (mset (held s)) \<and> env_session e = ls_id s \<and> agent_payload (env_payload e)
        \<and> env_nonce e = ws_nonce (ls_ws s) + 1 \<and> ws_nonce (ls_ws s') = ws_nonce (ls_ws s) + 1))"
proof (cases "ls_result s = None")
  case False
  then show ?thesis using assms by simp
next
  case True
  note r = True
  show ?thesis
  proof (cases x)
    case (EventTurn clock ev)
    then show ?thesis using assms r
      by (cases ev) (auto simp: event_turn_def make_envelope_eq held_def agent_payload_def split: if_splits prod.splits option.splits)
  next
    case SendIce
    then show ?thesis using assms r
      by (auto simp: send_ice_def held_def split: option.splits prod.splits if_splits)
  next
    case (SignalTurn clock)
    show ?thesis
    proof (cases "ls_answer s = None")
      case False
      then show ?thesis using SignalTurn assms r by auto
    next
      case True
      then have s': "s' = signal_turn d clock s" "out = []" using SignalTurn assms r by simp_all
      show ?thesis using signal_turn_effect [OF True s'(1)] s'(2) True
        by (cases "ls_ice s") (auto simp: held_def agent_payload_def split: option.splits)
    qed
  next
    case SendAnswer
    then show ?thesis using assms r
      by (auto simp: send_answer_def held_def split: option.splits prod.splits sum.splits)
  qed (use assms r in \<open>auto simp: held_def\<close>)
qed

lemma session_step_nonces:
  assumes "nonces_ok sent s" and "session_step d x (dk, s) = ((dk', s'), out)" and "unat (ws_nonce (ls_ws s)) + 1 < 2 ^ 64"
  shows "nonces_ok (sent @ out) s' \<and> unat (ws_nonce (ls_ws s')) \<le> unat (ws_nonce (ls_ws s)) + 1 \<and> ls_id s' = ls_id s"
proof -
  have u: "unat (ws_nonce (ls_ws s) + 1) = unat (ws_nonce (ls_ws s)) + 1"
    using assms(3) by (simp add: unat_word_ariths)
  from session_step_effect [OF assms(2)] show ?thesis
  proof (elim conjE disjE exE)
    assume "ls_id s' = ls_id s" "ws_nonce (ls_ws s') = ws_nonce (ls_ws s)" "mset (out @ held s') \<subseteq># mset (held s)"
    then show ?thesis using nonces_ok_drop [OF assms(1), of "sent @ out" s'] by simp
  next
    fix e
    assume *: "ls_id s' = ls_id s" "out = []" "mset (held s') = add_mset e (mset (held s))" "env_session e = ls_id s"
      "agent_payload (env_payload e)" "env_nonce e = ws_nonce (ls_ws s) + 1" "ws_nonce (ls_ws s') = ws_nonce (ls_ws s) + 1"
    then show ?thesis using nonces_ok_take [OF assms(1,3), of e s'] u by simp
  qed
qed

text \<open>A run in which the two tasks never both hold an envelope.\<close>

definition one_held :: "'w live_session \<Rightarrow> bool" where
  "one_held s \<longleftrightarrow> ls_ice s = None \<or> ls_answer s = None"

definition stays_one_held :: "('w, 'i, 'c, 'd) session_deps \<Rightarrow> session_op \<Rightarrow> ('i, 'c, 'd) desk \<times> 'w live_session \<Rightarrow> bool list" where
  "stays_one_held d x st = [case session_step d x st of (st1, _) \<Rightarrow> one_held (snd st1)]"

definition unraced :: "('w, 'i, 'c, 'd) session_deps \<Rightarrow> session_op list \<Rightarrow> ('i, 'c, 'd) desk \<times> 'w live_session \<Rightarrow> bool" where
  "unraced d xs st \<longleftrightarrow> list_all id (trace (session_step d) (stays_one_held d) xs st)"

definition nonces_sorted :: "signal_envelope list \<Rightarrow> 'w live_session \<Rightarrow> bool" where
  "nonces_sorted sent s \<longleftrightarrow> sorted_wrt (<) (map (unat \<circ> env_nonce) (sent @ held s))"

lemma sorted_mset_one:
  assumes "mset (out @ h') \<subseteq># mset h" and "length h \<le> 1"
  shows "out @ h' = h \<or> out @ h' = []"
proof (cases h)
  case Nil
  then show ?thesis using assms(1) by simp
next
  case (Cons x t)
  then have h: "h = [x]" using assms(2) by simp
  then have "size (mset (out @ h')) \<le> 1" using size_mset_mono [OF assms(1)] by simp
  then consider "out @ h' = []" | y where "out @ h' = [y]" by (cases "out @ h'") auto
  then show ?thesis
  proof cases
    case 2
    then have "y = x" using assms(1) h by simp
    then show ?thesis using 2 h by simp
  qed simp
qed

lemma session_step_sorted:
  assumes "nonces_ok sent s" and "nonces_sorted sent s" and "one_held s"
    and "session_step d x (dk, s) = ((dk', s'), out)" and "unat (ws_nonce (ls_ws s)) + 1 < 2 ^ 64" and "one_held s'"
  shows "nonces_sorted (sent @ out) s'"
proof -
  have u: "unat (ws_nonce (ls_ws s) + 1) = unat (ws_nonce (ls_ws s)) + 1"
    using assms(5) by (simp add: unat_word_ariths)
  have h: "length (held t) \<le> 1" if "one_held t" for t :: "'a live_session"
    using that by (auto simp: one_held_def held_def split: option.splits)
  from session_step_effect [OF assms(4)] show ?thesis
  proof (elim conjE disjE exE)
    assume "mset (out @ held s') \<subseteq># mset (held s)"
    from sorted_mset_one [OF this h [OF assms(3)]] show ?thesis
    proof
      assume "out @ held s' = held s"
      then show ?thesis using assms(2) by (simp add: nonces_sorted_def)
    next
      assume "out @ held s' = []"
      then show ?thesis using assms(2) by (simp add: nonces_sorted_def sorted_wrt_append)
    qed
  next
    fix e
    assume *: "out = []" "mset (held s') = add_mset e (mset (held s))" "env_nonce e = ws_nonce (ls_ws s) + 1"
    have "size (mset (held s')) \<le> 1" using h [OF assms(6)] by simp
    then have "held s = []" unfolding *(2) by simp
    then have "held s' = [e]" using *(2) by simp
    moreover have "unat (env_nonce y) < unat (env_nonce e)" if "y \<in> set sent" for y
    proof -
      have "unat (env_nonce y) \<le> unat (ws_nonce (ls_ws s))" using assms(1) that unfolding nonces_ok_def by simp
      then show ?thesis using u *(3) by simp
    qed
    ultimately show ?thesis using assms(2) \<open>held s = []\<close> *(1)
      by (simp add: nonces_sorted_def sorted_wrt_append)
  qed
qed

text \<open>
  The invariant of a run of a session: at most one nonce per turn so far is used, no nonce is used twice, and as long as
  the tasks have not raced, the nonces sent and held are in order.
\<close>

definition orderly :: "string \<Rightarrow> bool list \<Rightarrow> signal_envelope list \<Rightarrow> 'w live_session \<Rightarrow> bool" where
  "orderly i gs sent s \<longleftrightarrow> unat (ws_nonce (ls_ws s)) \<le> length gs
     \<and> (length gs < 2 ^ 64 \<longrightarrow> nonces_ok sent s \<and> ls_id s = i \<and> (list_all id gs \<longrightarrow> nonces_sorted sent s \<and> one_held s))"

lemma nonce_grows:
  assumes "session_step d x (dk, s) = ((dk', s'), out)"
  shows "unat (ws_nonce (ls_ws s')) \<le> Suc (unat (ws_nonce (ls_ws s)))"
proof -
  have "unat (ws_nonce (ls_ws s) + 1) \<le> Suc (unat (ws_nonce (ls_ws s)))"
    by (metis Suc_eq_plus1 mod_less_eq_dividend unat_1 unat_word_ariths(1))
  moreover have "ws_nonce (ls_ws s') = ws_nonce (ls_ws s) \<or> ws_nonce (ls_ws s') = ws_nonce (ls_ws s) + 1"
    using session_step_effect [OF assms] by blast
  ultimately show ?thesis by auto
qed

lemma session_step_orderly:
  assumes inv: "orderly i gs sent s" and st: "session_step d x (dk, s) = ((dk', s'), out)"
  shows "orderly i (gs @ stays_one_held d x (dk, s)) (sent @ out) s'"
proof -
  have w: "stays_one_held d x (dk, s) = [one_held s']" using st by (simp add: stays_one_held_def del: session_step.simps)
  have n: "unat (ws_nonce (ls_ws s)) \<le> length gs" using inv by (simp add: orderly_def)
  then have n': "unat (ws_nonce (ls_ws s')) \<le> Suc (length gs)" using nonce_grows [OF st] by simp
  show ?thesis
  proof (cases "Suc (length gs) < 2 ^ 64")
    case False
    then show ?thesis using n' w by (simp add: orderly_def)
  next
    case True
    then have ok: "nonces_ok sent s" "ls_id s = i" and u: "unat (ws_nonce (ls_ws s)) + 1 < 2 ^ 64"
      and so: "list_all id gs \<Longrightarrow> nonces_sorted sent s \<and> one_held s" using inv n by (auto simp: orderly_def)
    have "nonces_sorted (sent @ out) s'" if "list_all id gs" "one_held s'"
      using session_step_sorted [OF ok(1) _ _ st u that(2)] so that(1) by blast
    then show ?thesis using session_step_nonces [OF ok(1) st u] ok(2) n' w True by (simp add: orderly_def)
  qed
qed

lemma session_run_orderly:
  assumes "orderly i [] [] s" and "session_run d xs (dk, s) = ((dk', s'), out)"
  shows "orderly i (trace (session_step d) (stays_one_held d) xs (dk, s)) out s'"
proof -
  have "(\<lambda>gs sent st. orderly i gs sent (snd st)) ([] @ trace (session_step d) (stays_one_held d) xs (dk, s)) ([] @ out) (dk', s')"
    by (rule sessions.run_watched [OF _ _ assms(2)]) (use assms(1) session_step_orderly in \<open>auto simp del: session_step.simps\<close>)
  then show ?thesis by simp
qed

lemma stays_one_held_length: "length (trace (session_step d) (stays_one_held d) xs st) = length xs"
  by (induction xs arbitrary: st) (simp_all add: stays_one_held_def del: session_step.simps split: prod.split)

lemma start_session_fresh:
  "start_session d now ps = Ok s \<Longrightarrow> nonces_ok [] s \<and> ws_nonce (ls_ws s) = 0 \<and> ls_id s = ref_id (session ps) \<and> held s = []
    \<and> ls_result s = None \<and> ls_neg s = negotiation_new Negotiation.Agent \<and> ls_ice s = None \<and> ls_answer s = None"
  by (auto simp: start_session_def nonces_ok_def held_def ws_connect_def ws_new_def Let_def split: prod.splits sum.splits)

lemma start_session_orderly: "start_session d now ps = Ok s \<Longrightarrow> orderly (ref_id (session ps)) [] [] s"
  using start_session_fresh [of d now ps s] by (simp add: orderly_def nonces_sorted_def one_held_def)

text \<open>
  C11: A session speaks for itself only, and never reuses a nonce. In every interleaving of its tasks, from the start of
  the session and for fewer than 2 to the 64 turns, the envelopes it sends carry pairwise different nonces and its own
  session id, and each is an answer or an ICE candidate.
\<close>

theorem session_nonces_distinct:
  assumes "start_session d now ps = Ok s" and "session_run d xs (dk, s) = ((dk', s'), out)" and "length xs < 2 ^ 64"
  shows "distinct (map env_nonce out)
    \<and> (\<forall>e \<in> set out. env_session e = ref_id (session ps) \<and> agent_payload (env_payload e))"
proof -
  have "nonces_ok out s'" "ls_id s' = ref_id (session ps)"
    using session_run_orderly [OF start_session_orderly [OF assms(1)] assms(2)] assms(3)
    by (simp_all add: orderly_def stays_one_held_length)
  then have "distinct (map unat (map env_nonce out))" "\<forall>e \<in> set out. env_session e = ref_id (session ps) \<and> agent_payload (env_payload e)"
    unfolding nonces_ok_def by auto
  then show ?thesis using distinct_map by blast
qed

section \<open>The order of the nonces\<close>

text \<open>
  The signaling service forwards a message only if its nonce is greater than the last one of the connection
  (\<open>NonceGuard\<close> of the Go service): another complete guard.
\<close>

definition hub_accept :: "nat option \<Rightarrow> nat \<Rightarrow> nat option \<times> bool" where
  "hub_accept l n = (case l of Some k \<Rightarrow> if n \<le> k then (l, False) else (Some n, True) | None \<Rightarrow> (Some n, True))"

interpretation hub: complete_guard "\<lambda>l. l" hub_accept "\<lambda>n. n"
  by unfold_locales (auto simp: hub_accept_def split: option.splits if_splits)

lemma hub_takes_sorted: "sorted_wrt (<) ns \<Longrightarrow> snd (feed hub_accept None ns) = ns"
  using hub.feed_strict_maxima [of None ns] strict_maxima_increasing [of "\<lambda>n. n" ns None] by simp

lemma unraced_sorted:
  assumes "start_session d now ps = Ok s" and "unraced d xs (dk, s)" and "session_run d xs (dk, s) = ((dk', s'), out)"
    and "length xs < 2 ^ 64"
  shows "sorted_wrt (<) (map (unat \<circ> env_nonce) out)"
  using session_run_orderly [OF start_session_orderly [OF assms(1)] assms(3)] assms(2,4)
  by (simp add: orderly_def stays_one_held_length unraced_def nonces_sorted_def sorted_wrt_append)

lemma session_sends_agent_payloads:
  assumes "start_session d now ps = Ok s" and "session_run d xs (dk, s) = ((dk', s'), out)" and "length xs < 2 ^ 64"
  shows "list_all agent_payload (map env_payload out)"
  using session_run_orderly [OF start_session_orderly [OF assms(1)] assms(2)] assms(3)
  by (auto simp: orderly_def stays_one_held_length nonces_ok_def list_all_iff)

text \<open>
  C12: The signaling service takes every message of a session whose tasks do not race: as long as the event task and the
  signaling loop never hold an envelope at the same time, the nonces arrive in increasing order.
\<close>

theorem unraced_session_accepted:
  assumes "start_session d now ps = Ok s" and "unraced d xs (dk, s)" and "session_run d xs (dk, s) = ((dk', s'), out)"
    and "length xs < 2 ^ 64"
  shows "snd (feed hub_accept None (map (unat \<circ> env_nonce) out)) = map (unat \<circ> env_nonce) out"
  by (rule hub_takes_sorted [OF unraced_sorted [OF assms]])

text \<open>A session over a channel that records, whose signaling connection delivers one offer.\<close>

definition sample_deps :: "(bytes list, unit, unit, unit) session_deps" where
  "sample_deps = \<lparr> dep_rtc = recording_channel, dep_builder = \<lparr> register_default_codecs = Ok (), register_default_interceptors = Ok (), new_peer_connection = (\<lambda>ice. Ok []) \<rparr>, dep_close = (\<lambda>w. w),
     dep_dial = (\<lambda>url. Ok [Text ''offer'']), dep_to_json = (\<lambda>e. Ok []), dep_sink = (\<lambda>t. None),
     dep_from_str = (\<lambda>t. Ok (envelope_new None ''s1'' 1 (Offer ''sdp''))), dep_from_slice = (\<lambda>t. Err []),
     dep_router = \<lparr> inject = (\<lambda>i e. (i, Ok ())), clip_set = (\<lambda>c t. (c, Ok ())) \<rparr>,
     dep_parse_input = (\<lambda>t. Err []), dep_parse_dev = (\<lambda>t. Err []), dep_runner = (\<lambda>w c. (w, Ok [])),
     dep_jpeg = (\<lambda>q dat w h. Ok [q]) \<rparr>"

lemmas sample_session_defs = sample_deps_def sample_pending_def start_session_def ws_connect_def ws_new_def recording_channel_def
  signal_turn_def ws_recv_def make_envelope_eq negotiation_new_def on_offer_def is_offerer_def accept_offer_def peer_new_def agent_peer_new_def
  event_turn_def send_ice_def send_answer_def ws_send_def held_def one_held_def envelope_new_def

theorem unraced_session_accepted_witness:
  "\<forall>dk. \<exists>s st out. start_session sample_deps 0 sample_pending = Ok s
    \<and> session_run sample_deps [SignalTurn None, SendAnswer, EventTurn None (LocalIce [] 0), SendIce] (dk, s) = (st, out)
    \<and> map (unat \<circ> env_nonce) out = [1, 2] \<and> snd (feed hub_accept None (map (unat \<circ> env_nonce) out)) = [1, 2]"
proof
  fix dk :: "(unit, unit, unit) desk"
  let ?xs = "[SignalTurn None, SendAnswer, EventTurn None (LocalIce [] 0), SendIce]"
  obtain s where s: "start_session sample_deps 0 sample_pending = Ok s" by (simp add: sample_session_defs Let_def)
  obtain dk' s' out where r: "session_run sample_deps ?xs (dk, s) = ((dk', s'), out)" by (metis prod.collapse)
  have "map (unat \<circ> env_nonce) out = [1, 2]" and u: "unraced sample_deps ?xs (dk, s)"
    using s r by (auto simp: sample_session_defs Let_def unraced_def stays_one_held_def)
  then show "\<exists>s st out. start_session sample_deps 0 sample_pending = Ok s \<and> session_run sample_deps ?xs (dk, s) = (st, out)
    \<and> map (unat \<circ> env_nonce) out = [1, 2] \<and> snd (feed hub_accept None (map (unat \<circ> env_nonce) out)) = [1, 2]"
    using unraced_session_accepted [OF s u r] s r by (simp del: session_run.simps)
qed


theorem session_nonces_distinct_witness:
  "\<forall>dk. \<exists>s st out. start_session sample_deps 0 sample_pending = Ok s
    \<and> session_run sample_deps [SignalTurn None, EventTurn None (LocalIce [] 0), SendIce, SendAnswer] (dk, s) = (st, out)
    \<and> distinct (map env_nonce out) \<and> (\<lambda>e. env_session e) ` set out \<subseteq> {''s1''}"
proof
  fix dk :: "(unit, unit, unit) desk"
  let ?xs = "[SignalTurn None, EventTurn None (LocalIce [] 0), SendIce, SendAnswer]"
  obtain s where s: "start_session sample_deps 0 sample_pending = Ok s" by (simp add: sample_session_defs Let_def)
  obtain dk' s' out where r: "session_run sample_deps ?xs (dk, s) = ((dk', s'), out)" by (metis prod.collapse)
  have "ref_id (session sample_pending) = ''s1''" by (simp add: sample_pending_def)
  with session_nonces_distinct [OF s r] s r
  show "\<exists>s st out. start_session sample_deps 0 sample_pending = Ok s \<and> session_run sample_deps ?xs (dk, s) = (st, out)
    \<and> distinct (map env_nonce out) \<and> (\<lambda>e. env_session e) ` set out \<subseteq> {''s1''}"
    by (simp del: session_run.simps) blast
qed

section \<open>The negotiation of a session\<close>

definition is_answer :: "signal_payload \<Rightarrow> bool" where "is_answer p = (case p of Answer _ \<Rightarrow> True | _ \<Rightarrow> False)"

definition is_create_answer :: "negotiation_action \<Rightarrow> bool" where
  "is_create_answer a = (case a of CreateAnswer _ \<Rightarrow> True | _ \<Rightarrow> False)"

abbreviation answers :: "signal_envelope list \<Rightarrow> nat" where
  "answers es \<equiv> length (List.filter (is_answer \<circ> env_payload) es)"

abbreviation asked_answers :: "negotiation_action list \<Rightarrow> nat" where
  "asked_answers as \<equiv> length (List.filter is_create_answer as)"

text \<open>The payloads a run receives, in order: one for each turn of the signaling loop that finds a message.\<close>

definition receives :: "('w, 'i, 'c, 'd) session_deps \<Rightarrow> session_op \<Rightarrow> ('i, 'c, 'd) desk \<times> 'w live_session \<Rightarrow> signal_payload list" where
  "receives d x st = (case x of
     SignalTurn _ \<Rightarrow> if ls_result (snd st) = None \<and> ls_answer (snd st) = None
         then (case snd (ws_recv (dep_from_str d) (dep_from_slice d) (ls_ws (snd st))) of
             Inr (Some env) \<Rightarrow> [env_payload env]
           | _ \<Rightarrow> [])
         else []
   | _ \<Rightarrow> [])"

abbreviation received :: "('w, 'i, 'c, 'd) session_deps \<Rightarrow> session_op list \<Rightarrow> ('i, 'c, 'd) desk \<times> 'w live_session \<Rightarrow> signal_payload list" where
  "received d xs st \<equiv> trace (session_step d) (receives d) xs st"

lemma on_signal_not_connected: "on_signal s p = (t, a) \<Longrightarrow> neg_phase s \<noteq> Connected \<Longrightarrow> neg_phase t \<noteq> Connected"
  by (cases p) (auto simp: neg_defs Let_def split: phase.splits negotiation_role.splits if_splits)

lemma signals_not_connected:
  "neg_run s (map Signal ps) = (t, as) \<Longrightarrow> neg_phase s \<noteq> Connected \<Longrightarrow> neg_phase t \<noteq> Connected"
  by (induction ps arbitrary: s as) (auto dest: on_signal_not_connected split: prod.splits)

text \<open>One turn of the signaling loop feeds the machine what it receives, and holds an answer only when the machine asks for one.\<close>

lemma signal_turn_neg:
  fixes s :: "'w live_session"
  assumes "ls_answer s = None" and "ls_result s = None" and "s' = signal_turn d clock s"
  obtains as where "neg_run (ls_neg s) (map Signal (receives d (SignalTurn clock) (dk, s))) = (ls_neg s', as)"
    and "ls_answer s' = None \<or> asked_answers as = 1"
proof -
  obtain ws r where r: "ws_recv (dep_from_str d) (dep_from_slice d) (ls_ws s) = (ws, r)" by force
  show ?thesis
  proof (cases "\<exists>env. r = Ok (Some env)")
    case False
    then show ?thesis using r assms
      by (intro that [of "[]"]) (auto simp: signal_turn_def receives_def split: sum.splits option.splits)
  next
    case True
    then obtain env where env: "r = Ok (Some env)" by blast
    obtain neg a where a: "on_signal (ls_neg s) (env_payload env) = (neg, a)" by force
    have "ls_neg s' = neg" "ls_answer s' = None \<or> is_create_answer a"
      using r env a assms
      by (cases a; auto simp: signal_turn_def is_create_answer_def Let_def make_envelope_eq split: prod.splits sum.splits)+
    then show ?thesis using r env a assms(1,2) by (intro that [of "[a]"]) (auto simp: receives_def)
  qed
qed

text \<open>The invariant: the machine has followed what was received, and asked for each answer that was sent or is held.\<close>

definition follows :: "signal_payload list \<Rightarrow> signal_envelope list \<Rightarrow> 'w live_session \<Rightarrow> bool" where
  "follows ps sent s \<longleftrightarrow> (\<exists>as. neg_run (negotiation_new Negotiation.Agent) (map Signal ps) = (ls_neg s, as)
     \<and> answers sent + (if ls_answer s = None then 0 else 1) \<le> asked_answers as)
   \<and> (case ls_ice s of Some e \<Rightarrow> \<not> is_answer (env_payload e) | None \<Rightarrow> True)"

lemma follows_keep:
  "follows ps sent s \<Longrightarrow> ls_neg s' = ls_neg s \<Longrightarrow> ls_ice s' = ls_ice s \<or> ls_ice s' = None
    \<Longrightarrow> answers out + (if ls_answer s' = None then 0 else 1) \<le> (if ls_answer s = None then 0 else 1)
    \<Longrightarrow> follows ps (sent @ out) s'"
  unfolding follows_def by (elim conjE exE, intro conjI exI) (assumption | auto)+

lemma follows_signal_turn:
  assumes inv: "follows ps sent s" and s: "ls_answer s = None" "ls_result s = None" "s' = signal_turn d clock s"
  shows "follows (ps @ receives d (SignalTurn clock) (dk, s)) sent s'"
proof -
  obtain as where as: "neg_run (negotiation_new Negotiation.Agent) (map Signal ps) = (ls_neg s, as)" "answers sent \<le> asked_answers as"
    using inv s(1) by (auto simp: follows_def)
  obtain bs where bs: "neg_run (ls_neg s) (map Signal (receives d (SignalTurn clock) (dk, s))) = (ls_neg s', bs)"
      "ls_answer s' = None \<or> asked_answers bs = 1"
    by (rule signal_turn_neg [OF s])
  have "neg_run (negotiation_new Negotiation.Agent) (map Signal (ps @ receives d (SignalTurn clock) (dk, s))) = (ls_neg s', as @ bs)"
    using as(1) bs(1) by (simp add: negotiation.run_append)
  moreover have "ls_ice s' = ls_ice s \<or> ls_ice s' = None" using signal_turn_effect [OF s(1,3)] by auto
  ultimately show ?thesis using inv as(2) bs(2) unfolding follows_def
    by (intro conjI exI [of _ "as @ bs"]) (auto split: option.splits)
qed

lemma session_step_follows:
  assumes "follows ps sent s" and "session_step d x (dk, s) = ((dk', s'), out)"
  shows "follows (ps @ receives d x (dk, s)) (sent @ out) s'"
proof (cases "ls_result s = None")
  case False
  then have "receives d x (dk, s) = []" by (auto simp: receives_def split: session_op.split)
  then show ?thesis using assms False by simp
next
  case True
  note r = True
  show ?thesis
  proof (cases x)
    case (EventTurn clock ev)
    show ?thesis
    proof (cases "ls_ice s = None")
      case True
      then show ?thesis using assms r EventTurn
        by (cases ev) (auto simp: event_turn_def make_envelope_eq follows_def receives_def is_answer_def split: prod.splits)
    next
      case False
      then show ?thesis using assms r EventTurn by (auto simp: receives_def)
    qed
  next
    case SendIce
    then show ?thesis using assms r
      by (auto simp: send_ice_def follows_def receives_def split: option.splits prod.splits if_splits)
  next
    case (SignalTurn clock)
    then show ?thesis using assms r follows_signal_turn [OF assms(1) _ r refl, of d clock dk]
      by (cases "ls_answer s = None") (auto simp: receives_def)
  next
    case SendAnswer
    have "follows ps (sent @ out) s'" using assms r SendAnswer
      by (intro follows_keep [OF assms(1)])
        (auto simp: send_answer_def split: option.splits prod.splits sum.splits if_splits)
    then show ?thesis using SendAnswer by (simp add: receives_def)
  qed (use assms r in \<open>auto simp: follows_def receives_def\<close>)
qed

lemma session_step_follows_pair:
  "follows ps sent (snd u) \<Longrightarrow> session_step d x u = (v, out) \<Longrightarrow> follows (ps @ receives d x u) (sent @ out) (snd v)"
  by (cases u; cases v) (use session_step_follows in \<open>simp del: session_step.simps\<close>)

text \<open>
  C10: A session implements the negotiation machine of an agent: in every interleaving its state is the one the machine
  reaches on the payloads the session received, in their order, and it sends no more answers than that run of the
  machine asks for. It never reaches the connected phase, because the runtime only logs the states the peer reports and
  does not pass them to the machine.
\<close>

theorem session_follows_negotiation:
  assumes "start_session d now ps = Ok s" and "session_run d xs (dk, s) = ((dk', s'), out)"
  shows "\<exists>as. neg_run (negotiation_new Negotiation.Agent) (map Signal (received d xs (dk, s))) = (ls_neg s', as)
    \<and> answers out \<le> asked_answers as \<and> neg_phase (ls_neg s') \<noteq> Connected"
proof -
  have "follows [] [] s" using start_session_fresh [OF assms(1)] by (simp add: follows_def)
  then have "follows (received d xs (dk, s)) out s'"
    using sessions.run_watched [where I = "\<lambda>ps sent st. follows ps sent (snd st)" and watch = "receives d"
        and gs = "[]" and sent = "[]", OF session_step_follows_pair _ assms(2)] by simp
  then obtain as where as: "neg_run (negotiation_new Negotiation.Agent) (map Signal (received d xs (dk, s))) = (ls_neg s', as)"
      "answers out \<le> asked_answers as" unfolding follows_def by auto
  moreover from signals_not_connected [OF as(1)] have "neg_phase (ls_neg s') \<noteq> Connected" by (simp add: negotiation_new_def)
  ultimately show ?thesis by blast
qed

theorem session_follows_negotiation_witness:
  "\<forall>dk. \<exists>s st out as. start_session sample_deps 0 sample_pending = Ok s
    \<and> session_run sample_deps [SignalTurn None, SendAnswer] (dk, s) = (st, out) \<and> answers out = 1
    \<and> neg_run (negotiation_new Negotiation.Agent) [Signal (Offer ''sdp'')] = (ls_neg (snd st), as) \<and> 1 \<le> asked_answers as"
proof
  fix dk :: "(unit, unit, unit) desk"
  let ?xs = "[SignalTurn None, SendAnswer]"
  obtain s where s: "start_session sample_deps 0 sample_pending = Ok s" by (simp add: sample_session_defs Let_def)
  obtain dk' s' out where r: "session_run sample_deps ?xs (dk, s) = ((dk', s'), out)" by (metis prod.collapse)
  have a: "answers out = 1" "received sample_deps ?xs (dk, s) = [Offer ''sdp'']"
    using s r by (auto simp: sample_session_defs Let_def is_answer_def receives_def)
  obtain as where "neg_run (negotiation_new Negotiation.Agent) (map Signal [Offer ''sdp'']) = (ls_neg s', as)" "1 \<le> asked_answers as"
    using session_follows_negotiation [OF s r, unfolded a] by blast
  then show "\<exists>s st out as. start_session sample_deps 0 sample_pending = Ok s
    \<and> session_run sample_deps ?xs (dk, s) = (st, out) \<and> answers out = 1
    \<and> neg_run (negotiation_new Negotiation.Agent) [Signal (Offer ''sdp'')] = (ls_neg (snd st), as) \<and> 1 \<le> asked_answers as"
    using s r a(1) by (intro exI [of _ s] exI [of _ "(dk', s')"] exI [of _ out] exI [of _ as]) (simp del: session_run.simps neg_run.simps)
qed

section \<open>The end of a session\<close>

text \<open>
  The end of a session is final. Once the signaling loop has returned, whatever the tasks, the peer or the capture loop
  still try, no envelope is sent, no input is injected, no command is run, no frame leaves, and the state stays as it is.
\<close>

theorem ended_session_is_silent:
  assumes "ls_result s \<noteq> None"
  shows "session_run d xs (dk, s) = ((dk, s), [])"
  by (rule sessions.run_quiet) (use assms in simp)

theorem ended_session_is_silent_witness:
  "\<forall>dk. \<exists>s. session_run sample_deps [SignalTurn None, FrameTurn 100 None] (dk, s) = ((dk, s), []) \<and> ls_result s = Some (Ok ())"
proof
  fix dk :: "(unit, unit, unit) desk"
  obtain s0 where s0: "start_session sample_deps 0 sample_pending = Ok s0" by (simp add: sample_session_defs Let_def)
  have e: "ls_result (end_session sample_deps (Ok ()) s0) = Some (Ok ())" by simp
  then have "ls_result (end_session sample_deps (Ok ()) s0) \<noteq> None" by simp
  from ended_session_is_silent [OF this] e
  show "\<exists>s. session_run sample_deps [SignalTurn None, FrameTurn 100 None] (dk, s) = ((dk, s), []) \<and> ls_result s = Some (Ok ())"
    by blast
qed

section \<open>The pace of the frames\<close>

text \<open>The times at which a run encodes a frame.\<close>

definition encodes :: "('w, 'i, 'c, 'd) session_deps \<Rightarrow> session_op \<Rightarrow> 'w live_session \<Rightarrow> int list" where
  "encodes d x s = (case x of
     FrameTurn now latest \<Rightarrow> if ls_result s = None \<and> pump_alive (ls_pump s) \<and> FRAME_INTERVAL_MS \<le> now - pump_last (ls_pump s)
         \<and> latest \<noteq> None \<and> frames_open (dep_rtc d) (ls_peer s) then [now] else []
   | _ \<Rightarrow> [])"

abbreviation encode_times :: "('w, 'i, 'c, 'd) session_deps \<Rightarrow> session_op list \<Rightarrow> ('i, 'c, 'd) desk \<times> 'w live_session \<Rightarrow> int list" where
  "encode_times d xs st \<equiv> trace (session_step d) (\<lambda>x st. encodes d x (snd st)) xs st"

lemma frame_turn_last:
  "ls_result s = None \<Longrightarrow> pump_last (ls_pump (frame_turn d now l s)) = (case encodes d (FrameTurn now l) s of [] \<Rightarrow> pump_last (ls_pump s) | t # _ \<Rightarrow> t)"
  by (simp add: frame_turn_def encodes_def Let_def split: option.split sum.split prod.split bool.split)

lemma signal_turn_pump: "pump_last (ls_pump (signal_turn d clock s)) = pump_last (ls_pump s)"
  by (simp add: signal_turn_def Let_def make_envelope_eq end_session_def split: prod.split sum.split option.split negotiation_action.split)

lemma session_step_last:
  assumes "session_step d x (dk, s) = ((dk', s'), out)"
  shows "pump_last (ls_pump s') = (case encodes d x s of [] \<Rightarrow> pump_last (ls_pump s) | t # _ \<Rightarrow> t)"
proof (cases "ls_result s = None")
  case False
  then show ?thesis using assms by (auto simp: encodes_def split: session_op.splits)
next
  case True
  note r = True
  show ?thesis
  proof (cases x)
    case (EventTurn clock ev)
    then show ?thesis using assms r
      by (cases ev) (auto simp: event_turn_def make_envelope_eq encodes_def split: if_splits prod.splits)
  next
    case (FrameTurn now l)
    then show ?thesis using assms r frame_turn_last [OF r, of d now l] by auto
  qed (use assms r signal_turn_pump in \<open>auto simp: encodes_def send_ice_def send_answer_def end_session_def
    split: if_splits prod.splits option.splits sum.splits\<close>)
qed

definition paced :: "int \<Rightarrow> int list \<Rightarrow> 'w live_session \<Rightarrow> bool" where
  "paced t ts s \<longleftrightarrow> successively (\<lambda>a b. FRAME_INTERVAL_MS \<le> b - a) (t # ts) \<and> last (t # ts) = pump_last (ls_pump s)"

lemma paced_step:
  assumes "paced t ts (snd u)" and st: "session_step d x u = (v, out)"
  shows "paced t (ts @ encodes d x (snd u)) (snd v)"
proof -
  obtain dk s dk' s' where u: "u = (dk, s)" "v = (dk', s')" by (cases u; cases v)
  note lst = session_step_last [OF st [unfolded u]]
  show ?thesis
  proof (cases "encodes d x s")
    case Nil
    then show ?thesis using assms(1) lst u by (simp add: paced_def)
  next
    case (Cons w ws)
    then have "ws = []" "FRAME_INTERVAL_MS \<le> w - pump_last (ls_pump s)"
      by (auto simp: encodes_def split: session_op.splits if_splits)
    then show ?thesis using assms(1) lst Cons u successively_append_iff [of _ "t # ts" "[w]"] by (simp add: paced_def)
  qed
qed


section \<open>Answers to control frames\<close>

text \<open>
  Whatever the developer tools answer to a control frame, nothing of it leaves the session: the turn sends no envelope
  and does not touch the peer.
\<close>

lemma control_answer_dropped:
  assumes "ls_result s = None" and "ls_ice s = None"
  shows "\<exists>dk'. session_step d (EventTurn clock (ControlFrame f)) (dk, s) = ((dk', s), [])
    \<and> (desk_tools dk', desk_world dk')
        = (case handle_frame (dep_parse_dev d) (dep_runner d) (desk_tools dk) (desk_world dk) f of (t, w, _) \<Rightarrow> (t, w))"
  using assms by (simp add: event_turn_def split: prod.split)

end
