(* ===== verification/Session_Answer.thy ===== *)
theory Session_Answer
  imports Session_Safety
begin

text \<open>
  The exchange of descriptions from end to end: a session of the agent, the signaling service that forwards what its
  nonce guard lets through, and the negotiation machine of a controller (\<open>session_runtime.rs\<close>, \<open>ws.rs\<close>,
  \<open>negotiation.rs\<close>). The offer that waits in the session's socket is answered, and the answer is applied.
\<close>

section \<open>The service and the controller\<close>

text \<open>What the service forwards of the envelopes of a session: those with an acceptable nonce, in order.\<close>

definition forward :: "nat option \<Rightarrow> signal_envelope \<Rightarrow> nat option \<times> bool" where
  "forward l e = hub_accept l (unat (env_nonce e))"

interpretation relay: complete_guard "\<lambda>l. l" forward "\<lambda>e. unat (env_nonce e)"
  by unfold_locales (auto simp: forward_def hub_accept_def split: option.splits if_splits)

lemma forwards_sorted:
  assumes "sorted_wrt (<) (map (unat \<circ> env_nonce) es)"
  shows "snd (feed forward None es) = es"
  using relay.feed_strict_maxima [of None es] strict_maxima_increasing [of "\<lambda>e. unat (env_nonce e)" es None] assms
  by (simp add: comp_def)

lemma is_apply_simps [simp]:
  "\<not> is_apply NoAction" "\<not> is_apply CreateOffer" "\<not> is_apply (CreateAnswer x)" "is_apply (ApplyAnswer x)"
  "\<not> is_apply (AddIceCandidate x i)" "\<not> is_apply Close"
  by (simp_all add: is_apply_def)

text \<open>
  A controller that has offered applies the first answer it is sent and no other; candidates in between do not move it.
\<close>

lemma connecting_controller_applies_nothing:
  assumes "neg_role c = Controller" and "neg_phase c = Connecting" and "list_all agent_payload ps"
  shows "\<exists>as. neg_run c (map Signal ps) = (c, as) \<and> \<not> list_ex is_apply as"
  using assms(3)
proof (induction ps)
  case (Cons p ps)
  then obtain as where "neg_run c (map Signal ps) = (c, as)" "\<not> list_ex is_apply as" by auto
  with Cons.prems assms(1,2) show ?case
    by (cases p) (auto simp: agent_payload_def on_answer_def on_ice_def is_offerer_def)
qed simp

lemma offered_controller_applies_first:
  assumes "neg_role c = Controller" and "neg_phase c = Offered" and "list_all agent_payload ps"
    and "List.filter is_answer ps = Answer a # rest"
  shows "\<exists>as. neg_run c (map Signal ps) = (c\<lparr> neg_phase := Connecting \<rparr>, as)
    \<and> List.filter is_apply as = [ApplyAnswer a]"
  using assms(3,4)
proof (induction ps)
  case (Cons p ps)
  show ?case
  proof (cases "is_answer p")
    case True
    then have p: "p = Answer a" using Cons.prems(2) by simp
    obtain as where as: "neg_run (c\<lparr> neg_phase := Connecting \<rparr>) (map Signal ps) = (c\<lparr> neg_phase := Connecting \<rparr>, as)"
        "\<not> list_ex is_apply as"
      using connecting_controller_applies_nothing [of "c\<lparr> neg_phase := Connecting \<rparr>" ps] Cons.prems(1) assms(1) by auto
    with p assms(1,2) show ?thesis
      by (auto simp: on_answer_def is_offerer_def filter_empty_conv list_ex_iff)
  next
    case False
    then obtain as where "neg_run c (map Signal ps) = (c\<lparr> neg_phase := Connecting \<rparr>, as)"
        "List.filter is_apply as = [ApplyAnswer a]"
      using Cons by auto
    with False Cons.prems(1) assms(1,2) show ?thesis
      by (cases p) (auto simp: agent_payload_def is_answer_def on_ice_def is_offerer_def)
  qed
qed simp

section \<open>The session up to its first answer\<close>

text \<open>A stack that answers the offer \<open>x\<close> with \<open>a\<close> in every state, and a socket that takes every message.\<close>

definition answers_with :: "('w, 'i, 'c, 'd) session_deps \<Rightarrow> string \<Rightarrow> string \<Rightarrow> bool" where
  "answers_with d x a \<longleftrightarrow> (\<forall>p. snd (accept_offer (dep_rtc d) p x) = Ok a)"

definition sends_all :: "('w, 'i, 'c, 'd) session_deps \<Rightarrow> bool" where
  "sends_all d \<longleftrightarrow> (\<forall>e. is_ok (dep_to_json d e)) \<and> (\<forall>t. dep_sink d t = None)"

definition next_message :: "('w, 'i, 'c, 'd) session_deps \<Rightarrow> 'w live_session \<Rightarrow> signal_envelope option agent_result" where
  "next_message d s = snd (ws_recv (dep_from_str d) (dep_from_slice d) (ls_ws s))"

text \<open>The three stages: the offer waits in the socket, the answer is held, the answer was sent.\<close>

definition answer_list :: "signal_envelope list \<Rightarrow> signal_payload list" where
  "answer_list es = List.filter is_answer (map env_payload es)"

definition sound :: "'w live_session \<Rightarrow> bool" where
  "sound s \<longleftrightarrow> ls_result s = None \<and> ws_write (ls_ws s) \<noteq> None
     \<and> (\<forall>e. ls_ice s = Some e \<longrightarrow> \<not> is_answer (env_payload e))"

definition waiting :: "('w, 'i, 'c, 'd) session_deps \<Rightarrow> string \<Rightarrow> signal_envelope list \<Rightarrow> 'w live_session \<Rightarrow> bool" where
  "waiting d x sent s \<longleftrightarrow> sound s \<and> answer_list sent = [] \<and> ls_answer s = None \<and> ls_neg s = negotiation_new Negotiation.Agent
     \<and> (\<exists>env. next_message d s = Ok (Some env) \<and> env_payload env = Offer x)"

definition holding :: "string \<Rightarrow> signal_envelope list \<Rightarrow> 'w live_session \<Rightarrow> bool" where
  "holding a sent s \<longleftrightarrow> sound s \<and> answer_list sent = [] \<and> (\<exists>e. ls_answer s = Some e \<and> env_payload e = Answer a)"

definition answered :: "string \<Rightarrow> signal_envelope list \<Rightarrow> bool" where
  "answered a sent \<longleftrightarrow> (\<exists>rest. answer_list sent = Answer a # rest)"

lemma answer_list_append [simp]: "answer_list (es @ fs) = answer_list es @ answer_list fs"
  by (simp add: answer_list_def)

lemma answered_append: "answered a sent \<Longrightarrow> answered a (sent @ out)"
  by (auto simp: answered_def)

lemma ws_recv_reads: "ws_read w = ws_read v \<Longrightarrow> snd (ws_recv f g w) = snd (ws_recv f g v)"
  by (simp add: ws_recv_def Let_def split: option.split prod.split)

lemma ws_recv_write: "ws_recv f g w = (w', r) \<Longrightarrow> ws_write w' = ws_write w"
  by (auto simp: ws_recv_def mark_disconnected_def Let_def split: option.splits prod.splits if_splits)

text \<open>A send on a socket that takes every message.\<close>

lemma ws_send_taken:
  assumes "sends_all d" and "ws_write w \<noteq> None" and "ws_send (dep_to_json d) (dep_sink d) w e = (w', r)"
  shows "r = Ok () \<and> ws_write w' \<noteq> None \<and> ws_read w' = ws_read w"
proof -
  obtain t where "dep_to_json d e = Ok t" using assms(1) unfolding sends_all_def is_ok_iff by blast
  with assms show ?thesis by (auto simp: ws_send_def sends_all_def)
qed

text \<open>
  What the turns do in the three stages. A turn that neither receives a message nor sends an answer keeps what the
  stages speak of.
\<close>

lemma side_turn:
  assumes "sends_all d" and "sound s" and st: "session_step d op (dk, s) = ((dk', s'), out)"
    and op: "\<forall>c. op = SignalTurn c \<longrightarrow> ls_answer s \<noteq> None" "op = SendAnswer \<longrightarrow> ls_answer s = None"
  shows "sound s' \<and> answer_list out = [] \<and> ls_answer s' = ls_answer s \<and> ls_neg s' = ls_neg s
    \<and> ws_read (ls_ws s') = ws_read (ls_ws s)"
proof (cases op)
  case (EventTurn clock ev)
  with assms(2) st show ?thesis
    by (cases ev) (auto simp: sound_def event_turn_def make_envelope_eq is_answer_def answer_list_def split: if_splits prod.splits)
next
  case SendIce
  show ?thesis
  proof (cases "ls_ice s")
    case None
    then show ?thesis using SendIce assms(2) st by (auto simp: sound_def send_ice_def answer_list_def)
  next
    case (Some e)
    obtain ws r where ws: "ws_send (dep_to_json d) (dep_sink d) (ls_ws s) e = (ws, r)" by force
    have "r = Ok () \<and> ws_write ws \<noteq> None \<and> ws_read ws = ws_read (ls_ws s)"
      by (rule ws_send_taken [OF assms(1) _ ws]) (use assms(2) in \<open>simp add: sound_def\<close>)
    then show ?thesis using SendIce Some assms(2) st ws by (auto simp: sound_def send_ice_def answer_list_def)
  qed
next
  case (SignalTurn c)
  then show ?thesis using op assms(2) st by (auto simp: sound_def answer_list_def)
qed (use assms(2) st op in \<open>auto simp: sound_def answer_list_def send_answer_def\<close>)

lemma step_waiting:
  assumes "sends_all d" and inv: "waiting d x sent s" and st: "session_step d op (dk, s) = ((dk', s'), out)"
    and op: "\<forall>c. op \<noteq> SignalTurn c"
  shows "waiting d x (sent @ out) s'"
proof -
  have s: "sound s" "ls_answer s = None" using inv by (auto simp: waiting_def)
  have e: "sound s' \<and> answer_list out = [] \<and> ls_answer s' = ls_answer s \<and> ls_neg s' = ls_neg s
    \<and> ws_read (ls_ws s') = ws_read (ls_ws s)"
    using side_turn [OF assms(1) s(1) st] op s(2) by blast
  then have "next_message d s' = next_message d s" unfolding next_message_def by (intro ws_recv_reads) simp
  with e inv show ?thesis by (simp add: waiting_def)
qed

lemma signal_turn_waiting:
  assumes "answers_with d x a" and inv: "waiting d x sent s"
    and st: "session_step d (SignalTurn c) (dk, s) = ((dk', s'), out)"
  shows "holding a (sent @ out) s'"
proof -
  obtain env where env: "snd (ws_recv (dep_from_str d) (dep_from_slice d) (ls_ws s)) = Ok (Some env)" "env_payload env = Offer x"
    and s: "sound s" "ls_answer s = None" "ls_neg s = negotiation_new Negotiation.Agent" "answer_list sent = []"
    using inv by (auto simp: waiting_def next_message_def)
  obtain ws where ws: "ws_recv (dep_from_str d) (dep_from_slice d) (ls_ws s) = (ws, Ok (Some env))"
    using env(1) by (cases "ws_recv (dep_from_str d) (dep_from_slice d) (ls_ws s)") simp
  obtain q where "accept_offer (dep_rtc d) (ls_peer s) x = (q, Ok a)"
    using assms(1) unfolding answers_with_def by (metis prod.collapse)
  with st s ws env(2) ws_recv_write [OF ws] show ?thesis
    by (auto simp: holding_def sound_def signal_turn_def on_offer_def negotiation_new_def is_offerer_def make_envelope_eq Let_def)
qed

lemma step_holding:
  assumes "sends_all d" and inv: "holding a sent s" and st: "session_step d op (dk, s) = ((dk', s'), out)"
  shows "if op = SendAnswer then answered a (sent @ out) else holding a (sent @ out) s'"
proof -
  obtain e where s: "sound s" "answer_list sent = []" "ls_answer s = Some e" "env_payload e = Answer a"
    using inv by (auto simp: holding_def)
  show ?thesis
  proof (cases "op = SendAnswer")
    case True
    obtain ws r where ws: "ws_send (dep_to_json d) (dep_sink d) (ls_ws s) e = (ws, r)" by force
    have "r = Ok () \<and> ws_write ws \<noteq> None \<and> ws_read ws = ws_read (ls_ws s)"
      by (rule ws_send_taken [OF assms(1) _ ws]) (use s(1) in \<open>simp add: sound_def\<close>)
    then have "out = [e]" using True s st ws by (auto simp: sound_def send_answer_def)
    then show ?thesis using True s by (simp add: answered_def) (simp add: answer_list_def is_answer_def)
  next
    case False
    then show ?thesis using side_turn [OF assms(1) s(1) st] s by (simp add: holding_def)
  qed
qed

definition is_signal_turn :: "session_op \<Rightarrow> bool" where
  "is_signal_turn op = (case op of SignalTurn _ \<Rightarrow> True | _ \<Rightarrow> False)"

lemma not_signal_turn: "\<not> is_signal_turn op \<longleftrightarrow> (\<forall>c. op \<noteq> SignalTurn c)"
  by (cases op) (auto simp: is_signal_turn_def)

text \<open>And what the runs do: up to the first message, up to the first sent answer, and on.\<close>

lemma run_waiting:
  assumes "sends_all d" and "list_all (\<lambda>op. \<not> is_signal_turn op) ops"
    and "waiting d x sent s" and "session_run d ops (dk, s) = ((dk', s'), out)"
  shows "waiting d x (sent @ out) s'"
  using assms(2-4)
proof (induction ops arbitrary: dk s sent out)
  case (Cons op ops)
  obtain dk1 s1 o1 where st: "session_step d op (dk, s) = ((dk1, s1), o1)" by (metis prod.collapse)
  then obtain o2 where r: "session_run d ops (dk1, s1) = ((dk', s'), o2)" "out = o1 @ o2"
    using Cons.prems(3) by (auto simp del: session_step.simps split: prod.splits)
  have "waiting d x (sent @ o1) s1" using step_waiting [OF assms(1) Cons.prems(2) st] Cons.prems(1) by (simp add: not_signal_turn)
  from Cons.IH [OF _ this r(1)] Cons.prems(1) r(2) show ?case by simp
qed simp

text \<open>Either stage is kept by every further turn.\<close>

lemma run_answering:
  assumes "sends_all d" and "answered a sent \<or> holding a sent s" and "session_run d ops (dk, s) = ((dk', s'), out)"
  shows "answered a (sent @ out) \<or> holding a (sent @ out) s'"
proof -
  have "answered a (sent @ out) \<or> holding a (sent @ out) (snd (dk', s'))"
  proof (rule sessions.run_invariant [where I = "\<lambda>sent st. answered a sent \<or> holding a sent (snd st)", OF _ _ assms(3)])
    show "answered a sent \<or> holding a sent (snd (dk, s))" using assms(2) by simp
  next
    fix es u op v new
    assume i: "answered a es \<or> holding a es (snd u)" and "session_step d op u = (v, new)"
    then have st: "session_step d op (fst u, snd u) = ((fst v, snd v), new)" by simp
    from i show "answered a (es @ new) \<or> holding a (es @ new) (snd v)"
    proof
      assume "holding a es (snd u)"
      from step_holding [OF assms(1) this st] show ?thesis by (auto split: if_splits)
    qed (simp add: answered_append)
  qed
  then show ?thesis by simp
qed

section \<open>The exchange\<close>

lemma start_session_waiting:
  assumes "start_session d now ps = Ok s" and "next_message d s = Ok (Some env)" and "env_payload env = Offer x"
  shows "waiting d x [] s"
proof -
  have "ws_write (ls_ws s) \<noteq> None"
    using assms(1) by (auto simp: start_session_def ws_connect_def Let_def split: prod.splits sum.splits)
  then show ?thesis using start_session_fresh [OF assms(1)] assms(2,3) by (simp add: waiting_def sound_def answer_list_def)
qed

lemma session_answers:
  assumes "waiting d x [] s" and "answers_with d x a" and d: "sends_all d" and "list_all (\<lambda>op. \<not> is_signal_turn op) pre"
    and "session_run d (pre @ SignalTurn c # mid @ SendAnswer # post) (dk, s) = (st, out)"
  shows "answered a out"
proof -
  obtain dk1 s1 o1 where 1: "session_run d pre (dk, s) = ((dk1, s1), o1)" by (metis prod.collapse)
  obtain dk2 s2 o2 where 2: "session_step d (SignalTurn c) (dk1, s1) = ((dk2, s2), o2)" by (metis prod.collapse)
  obtain dk3 s3 o3 where 3: "session_run d mid (dk2, s2) = ((dk3, s3), o3)" by (metis prod.collapse)
  obtain dk4 s4 o4 where 4: "session_step d SendAnswer (dk3, s3) = ((dk4, s4), o4)" by (metis prod.collapse)
  obtain st5 o5 where 5: "session_run d post (dk4, s4) = (st5, o5)" by (metis prod.collapse)
  have out: "out = (o1 @ o2 @ o3 @ o4) @ o5"
    using assms(5) 1 2 3 4 5 by (auto simp: sessions.run_append simp del: session_step.simps)
  have "holding a (o1 @ o2) s2"
    using signal_turn_waiting [OF assms(2) run_waiting [OF d assms(4,1) 1] 2] by simp
  then have "answered a ((o1 @ o2) @ o3) \<or> holding a ((o1 @ o2) @ o3) s3" by (intro run_answering [OF d _ 3]) simp
  then have "answered a (((o1 @ o2) @ o3) @ o4)"
    using step_holding [OF d _ 4, of a] answered_append by (metis (full_types))
  then have "answered a (o1 @ o2 @ o3 @ o4)" by simp
  then show ?thesis unfolding out by (rule answered_append)
qed



end
