(* ===== verification/Input_Native.thy ===== *)
theory Input_Native
  imports Input
begin

text \<open>
  The native input backend (\<open>crates/input/src/native.rs\<close>): the translation of an event into calls of the
  \<open>enigo\<close> library, which is a parameter, and the injector that hands events to a dedicated thread. The thread
  is modelled by its queue of commands; \<open>thread_step\<close> is one round of its loop.
\<close>

section \<open>Keys and buttons of the library\<close>

datatype enigo_key =
    KControl | KAlt | KShift | KMeta | KReturn | KEscape | KBackspace | KTab | KSpace | KCapsLock | KDelete
  | KHome | KEnd | KPageUp | KPageDown | KRightArrow | KLeftArrow | KDownArrow | KUpArrow
  | KF1 | KF2 | KF3 | KF4 | KF5 | KF6 | KF7 | KF8 | KF9 | KF10 | KF11 | KF12
  | KUnicode char

datatype enigo_button = BLeft | BRight | BMiddle

datatype direction = Press | Release

datatype axis = Vertical | Horizontal

text \<open>The calls the backend makes on the library.\<close>

datatype enigo_call =
    CKey enigo_key direction
  | CButton enigo_button direction
  | CMove int int
  | CScroll int axis

record 'w enigo_api =
  en_call :: "'w \<Rightarrow> enigo_call \<Rightarrow> 'w \<times> (unit, string) result"
  en_new :: "'w \<Rightarrow> 'w \<times> (unit, string) result"
  en_display :: "'w \<Rightarrow> (int \<times> int) option"
  en_spawn :: "'w \<Rightarrow> (unit, string) result"
  en_clip :: "'w arboard_api"

definition direction_of :: "bool \<Rightarrow> direction" where
  "direction_of pressed = (if pressed then Press else Release)"

definition modifier_keys :: "modifiers \<Rightarrow> enigo_key list" where
  "modifier_keys m = (if ctrl m then [KControl] else []) @ (if alt m then [KAlt] else [])
     @ (if shift m then [KShift] else []) @ (if meta m then [KMeta] else [])"

fun named_to_enigo :: "named_key \<Rightarrow> enigo_key option" where
  "named_to_enigo Enter = Some KReturn"
| "named_to_enigo Escape = Some KEscape"
| "named_to_enigo Backspace = Some KBackspace"
| "named_to_enigo Tab = Some KTab"
| "named_to_enigo Space = Some KSpace"
| "named_to_enigo CapsLock = Some KCapsLock"
| "named_to_enigo Delete = Some KDelete"
| "named_to_enigo Home = Some KHome"
| "named_to_enigo End = Some KEnd"
| "named_to_enigo PageUp = Some KPageUp"
| "named_to_enigo PageDown = Some KPageDown"
| "named_to_enigo ArrowRight = Some KRightArrow"
| "named_to_enigo ArrowLeft = Some KLeftArrow"
| "named_to_enigo ArrowDown = Some KDownArrow"
| "named_to_enigo ArrowUp = Some KUpArrow"
| "named_to_enigo (FKey n) =
    (if n = 1 then Some KF1 else if n = 2 then Some KF2 else if n = 3 then Some KF3 else if n = 4 then Some KF4
     else if n = 5 then Some KF5 else if n = 6 then Some KF6 else if n = 7 then Some KF7 else if n = 8 then Some KF8
     else if n = 9 then Some KF9 else if n = 10 then Some KF10 else if n = 11 then Some KF11
     else if n = 12 then Some KF12 else None)"

definition physical_to_enigo :: "physical_key \<Rightarrow> enigo_key option" where
  "physical_to_enigo k = (case k of CharKey c \<Rightarrow> Some (KUnicode c) | Named n \<Rightarrow> named_to_enigo n)"

fun to_button :: "mouse_button \<Rightarrow> enigo_button" where
  "to_button Left = BLeft"
| "to_button Right = BRight"
| "to_button Middle = BMiddle"

section \<open>Executing an event\<close>

text \<open>Calls in sequence, each followed by the question-mark operator: the first error ends the sequence.\<close>

fun calls :: "'w enigo_api \<Rightarrow> 'w \<Rightarrow> enigo_call list \<Rightarrow> 'w \<times> unit agent_result" where
  "calls api w [] = (w, Ok ())"
| "calls api w (c # cs) = (case en_call api w c of
     (w', Inl e) \<Rightarrow> (w', Err (subsystem_error ''input'' e))
   | (w', Inr _) \<Rightarrow> calls api w' cs)"

definition press_release :: "(direction \<Rightarrow> enigo_call) \<Rightarrow> bool \<Rightarrow> modifiers \<Rightarrow> enigo_call list" where
  "press_release act pressed m = (let mods = modifier_keys m in
     if pressed then map (\<lambda>k. CKey k Press) mods @ [act Press]
     else [act Release] @ map (\<lambda>k. CKey k Release) (rev mods))"

definition execute :: "'w enigo_api \<Rightarrow> int \<times> int \<Rightarrow> 'w \<Rightarrow> input_event \<Rightarrow> 'w \<times> unit agent_result" where
  "execute api dims w ev = (case ev of
     MouseMove x y \<Rightarrow>
       (case normalized_to_pixel x y (word_of_int (max (fst dims) 1)) (word_of_int (max (snd dims) 1)) of
          (px, py) \<Rightarrow> calls api w [CMove px py])
   | MouseButton b pressed m \<Rightarrow> calls api w (press_release (CButton (to_button b)) pressed m)
   | Scroll dx dy \<Rightarrow>
       calls api w ((if \<not> f_eq dy (Fin 0) then [CScroll (as_i32 (f_neg dy)) Vertical] else [])
         @ (if \<not> f_eq dx (Fin 0) then [CScroll (as_i32 dx) Horizontal] else []))
   | Key code pressed m \<Rightarrow>
       (case Option.bind (map_hid_key code) physical_to_enigo of
          None \<Rightarrow> (w, Err (subsystem_error ''input'' (''unmapped key code '' @ decimal (unat code))))
        | Some k \<Rightarrow> calls api w (press_release (CKey k) pressed m))
   | ClipboardText t \<Rightarrow> arboard_set_text (en_clip api) w t)"

section \<open>The injector and its thread\<close>

datatype command = Event input_event | Shutdown

record 'w enigo_injector =
  inj_tx :: bool
  inj_thread :: bool
  inj_queue :: "command list"
  inj_dims :: "int \<times> int"
  inj_os :: 'w

definition injector_new :: "'w \<Rightarrow> 'w enigo_injector" where
  "injector_new w = \<lparr> inj_tx = False, inj_thread = False, inj_queue = [], inj_dims = (1920, 1080), inj_os = w \<rparr>"

definition injector_start :: "'w enigo_api \<Rightarrow> 'w enigo_injector \<Rightarrow> 'w enigo_injector \<times> unit agent_result" where
  "injector_start api s =
    (if inj_tx s then (s, Ok ())
     else (case en_spawn api (inj_os s) of
        Inl e \<Rightarrow> (s, Err (subsystem_error ''input'' (''spawn thread: '' @ e)))
      | Inr _ \<Rightarrow> (case en_new api (inj_os s) of
          (w', Inl e) \<Rightarrow> (s\<lparr> inj_os := w' \<rparr>, Err (subsystem_error ''input''
             (''failed to initialize input backend (accessibility permission?): '' @ e)))
        | (w', Inr _) \<Rightarrow> (s\<lparr> inj_os := w', inj_tx := True, inj_thread := True, inj_queue := [],
             inj_dims := (case en_display api w' of Some d \<Rightarrow> d | None \<Rightarrow> (1920, 1080)) \<rparr>, Ok ()))))"

definition thread_step :: "'w enigo_api \<Rightarrow> 'w enigo_injector \<Rightarrow> 'w enigo_injector" where
  "thread_step api s =
    (if \<not> inj_thread s then s
     else (case inj_queue s of
        [] \<Rightarrow> s
      | Shutdown # q \<Rightarrow> s\<lparr> inj_thread := False, inj_queue := [] \<rparr>
      | Event ev # q \<Rightarrow> s\<lparr> inj_queue := q, inj_os := fst (execute api (inj_dims s) (inj_os s) ev) \<rparr>))"

text \<open>Waiting for the thread: it works through its queue up to the shutdown command.\<close>

fun drain :: "'w enigo_api \<Rightarrow> int \<times> int \<Rightarrow> command list \<Rightarrow> 'w \<Rightarrow> 'w" where
  "drain api dims [] w = w"
| "drain api dims (Shutdown # q) w = w"
| "drain api dims (Event ev # q) w = drain api dims q (fst (execute api dims w ev))"

definition injector_stop :: "'w enigo_api \<Rightarrow> 'w enigo_injector \<Rightarrow> 'w enigo_injector \<times> unit agent_result" where
  "injector_stop api s =
    (let s1 = (if inj_tx s then s\<lparr> inj_tx := False, inj_queue := inj_queue s @ [Shutdown] \<rparr> else s);
         s2 = (if inj_thread s1
               then s1\<lparr> inj_thread := False, inj_queue := [], inj_os := drain api (inj_dims s1) (inj_queue s1) (inj_os s1) \<rparr>
               else s1)
     in (s2, Ok ()))"

definition injector_health :: "'w enigo_injector \<Rightarrow> health_status" where
  "injector_health s = (if inj_tx s then Healthy else Stopped)"

definition injector_inject :: "'w enigo_injector \<Rightarrow> input_event \<Rightarrow> 'w enigo_injector \<times> unit agent_result" where
  "injector_inject s ev =
    (if inj_tx s then (s\<lparr> inj_queue := inj_queue s @ [Event ev] \<rparr>, Ok ())
     else (s, Err (subsystem_error ''input'' ''injector not started'')))"

definition injector_subsystem :: "'w enigo_api \<Rightarrow> 'w enigo_injector subsystem" where
  "injector_subsystem api = \<lparr> sub_name = ''input'', sub_start = injector_start api, sub_stop = injector_stop api,
     sub_health = injector_health \<rparr>"

interpretation enigo: idempotent_lifecycle "injector_subsystem api" inj_tx for api :: "'w enigo_api"
  by unfold_locales
    (auto simp: injector_subsystem_def injector_start_def injector_stop_def injector_health_def Let_def
      split: sum.splits prod.splits if_splits)

section \<open>Properties of the translation\<close>

lemma mapped_keys_have_enigo:
  assumes "map_hid_key code = Some k"
  shows "physical_to_enigo k \<noteq> None"
proof (cases k)
  case (Named n)
  show ?thesis
  proof (cases n)
    case (FKey m)
    with Named assms have c: "0x3A \<le> unat code" "unat code \<le> 0x45" "m = word_of_nat (unat code - 0x3A + 1)"
      by (auto simp: map_hid_key_def hid_key_def split: if_splits)
    then have "unat m \<in> {1..12}" by (auto simp: unat_of_nat simp del: of_nat_add of_nat_diff of_nat_Suc)
    then have "m \<in> {1, 2, 3, 4, 5, 6, 7, 8, 9, 10, 11, 12}"
      by (simp add: word_unat_eq_iff) presburger
    with Named FKey show ?thesis by (auto simp: physical_to_enigo_def)
  qed (simp_all add: Named physical_to_enigo_def)
qed (simp add: physical_to_enigo_def)

text \<open>A library that accepts every call and records it.\<close>

definition recording_api :: "enigo_call list enigo_api" where
  "recording_api = \<lparr> en_call = (\<lambda>w c. (w @ [c], Ok ())), en_new = (\<lambda>w. (w, Ok ())), en_display = (\<lambda>w. None),
     en_spawn = (\<lambda>w. Ok ()), en_clip = \<lparr> ab_open = (\<lambda>w. (w, Ok ())), ab_get = (\<lambda>w. (w, ContentNotAvailable)),
     ab_set = (\<lambda>w t. (w, Ok ())) \<rparr> \<rparr>"

lemma recording_calls: "calls recording_api w cs = (w @ cs, Ok ())"
  by (induction cs arbitrary: w) (auto simp: recording_api_def)

text \<open>The opposite of a press or release.\<close>

fun undo :: "enigo_call \<Rightarrow> enigo_call" where
  "undo (CKey k Press) = CKey k Release"
| "undo (CKey k Release) = CKey k Press"
| "undo (CButton b Press) = CButton b Release"
| "undo (CButton b Release) = CButton b Press"
| "undo c = c"

lemma undo_press_release:
  assumes "\<And>d. undo (act d) = act (case d of Press \<Rightarrow> Release | Release \<Rightarrow> Press)"
  shows "press_release act False m = map undo (rev (press_release act True m))"
  using assms [of Press] by (simp add: press_release_def Let_def rev_map)



definition refusing_api :: "enigo_call list enigo_api" where
  "refusing_api = recording_api\<lparr> en_call := (\<lambda>w c. case c of CButton b d \<Rightarrow> (w, Err ''refused'') | _ \<Rightarrow> (w @ [c], Ok ())) \<rparr>"

text \<open>
  The error path of a press does not take back the modifiers it has already pressed: when the library
  refuses the button, the control key stays pressed and no release is sent.
\<close>

theorem failed_press_holds_modifiers:
  "execute refusing_api dims [] (MouseButton b True \<lparr> ctrl = True, alt = False, shift = False, meta = False \<rparr>)
     = ([CKey KControl Press], Err (subsystem_error ''input'' ''refused''))"
  by (simp add: execute_def press_release_def modifier_keys_def refusing_api_def recording_api_def)

section \<open>Properties of the thread\<close>

text \<open>What happens between start and stop: events are injected, and the thread makes progress at any time.\<close>

datatype injector_op = Inject input_event | Progress

fun apply_injector_op :: "'w enigo_api \<Rightarrow> 'w enigo_injector \<Rightarrow> injector_op \<Rightarrow> 'w enigo_injector" where
  "apply_injector_op api s (Inject ev) = fst (injector_inject s ev)"
| "apply_injector_op api s Progress = thread_step api s"

definition injected :: "injector_op list \<Rightarrow> input_event list" where
  "injected ops = concat (map (\<lambda>x. case x of Inject ev \<Rightarrow> [ev] | Progress \<Rightarrow> []) ops)"

definition run_events :: "'w enigo_api \<Rightarrow> int \<times> int \<Rightarrow> input_event list \<Rightarrow> 'w \<Rightarrow> 'w" where
  "run_events api dims evs w = foldl (\<lambda>w ev. fst (execute api dims w ev)) w evs"

lemma drain_events: "drain api dims (map Event evs @ [Shutdown]) w = run_events api dims evs w"
  by (induction evs arbitrary: w) (auto simp: run_events_def)

text \<open>
  The invariant of the thread since the start as \<open>i0\<close>: it runs, and once it has worked off its queue the operating
  system is where the events \<open>gs\<close>, one after the other, take it.
\<close>

definition executing :: "'w enigo_api \<Rightarrow> 'w enigo_injector \<Rightarrow> input_event list \<Rightarrow> 'w enigo_injector \<Rightarrow> bool" where
  "executing api i0 gs i \<longleftrightarrow> inj_tx i \<and> inj_thread i \<and> inj_dims i = inj_dims i0
     \<and> (\<exists>evs. inj_queue i = map Event evs
          \<and> run_events api (inj_dims i0) evs (inj_os i) = run_events api (inj_dims i0) gs (inj_os i0))"

lemma executing_start: "injector_start api s = (s1, Ok ()) \<Longrightarrow> \<not> inj_tx s \<Longrightarrow> executing api s1 [] s1"
  by (auto simp: executing_def injector_start_def run_events_def split: sum.splits prod.splits)

lemma executing_inject: "executing api i0 gs i \<Longrightarrow> executing api i0 (gs @ [ev]) (fst (injector_inject i ev))"
  by (auto simp: executing_def injector_inject_def run_events_def intro: exI [of _ "evs @ [ev]" for evs])

lemma executing_progress:
  assumes "executing api i0 gs i"
  shows "executing api i0 gs (thread_step api i)"
proof -
  obtain evs where i: "inj_tx i" "inj_thread i" "inj_dims i = inj_dims i0" "inj_queue i = map Event evs"
      "run_events api (inj_dims i0) evs (inj_os i) = run_events api (inj_dims i0) gs (inj_os i0)"
    using assms by (auto simp: executing_def)
  then show ?thesis by (cases evs) (auto simp: executing_def thread_step_def run_events_def)
qed

lemma executing_stop:
  "executing api i0 gs i \<Longrightarrow> injector_stop api i = (i2, r) \<Longrightarrow>
     inj_os i2 = run_events api (inj_dims i0) gs (inj_os i0) \<and> \<not> inj_tx i2 \<and> \<not> inj_thread i2 \<and> r = Ok ()"
  by (auto simp: executing_def injector_stop_def Let_def drain_events)

lemma injector_run: "executing api i0 gs i \<Longrightarrow> executing api i0 (gs @ injected ops) (foldl (apply_injector_op api) i ops)"
proof (induction ops arbitrary: gs i)
  case (Cons x ops)
  show ?case
  proof (cases x)
    case (Inject ev)
    with Cons.IH [OF executing_inject [OF Cons.prems, of ev]] show ?thesis by (simp add: injected_def)
  next
    case Progress
    with Cons.IH [OF executing_progress [OF Cons.prems]] show ?thesis by (simp add: injected_def)
  qed
qed (simp add: injected_def)

text \<open>
  C19: The thread executes the injected events exactly once and in order. Whatever the interleaving of injections
  and thread progress after a successful start, every injection is accepted, and once \<open>stop\<close> has returned the
  operating system is in the state reached by executing all of them one after the other, failed ones included;
  stopping again does nothing, and an injection is then refused.
\<close>

theorem injector_executes_in_order:
  assumes "injector_start api s = (s1, Ok ())" and "\<not> inj_tx s"
    and "injector_stop api (foldl (apply_injector_op api) s1 ops) = (s2, r)"
  shows "inj_os s2 = run_events api (inj_dims s1) (injected ops) (inj_os s1)
    \<and> r = Ok () \<and> injector_health s2 = Stopped \<and> injector_stop api s2 = (s2, Ok ())
    \<and> injector_inject s2 ev = (s2, Err (subsystem_error ''input'' ''injector not started''))"
proof -
  have "executing api s1 (injected ops) (foldl (apply_injector_op api) s1 ops)"
    using injector_run [OF executing_start [OF assms(1,2)], of ops] by simp
  from executing_stop [OF this assms(3)] show ?thesis
    by (auto simp: injector_health_def injector_stop_def injector_inject_def Let_def)
qed

theorem injector_executes_in_order_witness:
  "\<exists>s1 s2. injector_start recording_api (injector_new []) = (s1, Ok ())
    \<and> injector_stop recording_api (foldl (apply_injector_op recording_api) s1 [Inject (Scroll (Fin 0) (Fin 1)), Progress]) = (s2, Ok ())
    \<and> inj_os s2 = [CScroll (- 1) Vertical]"
proof -
  have n: "\<not> inj_tx (injector_new [])" by (simp add: injector_new_def)
  obtain s1 where s: "injector_start recording_api (injector_new []) = (s1, Ok ())" and o: "inj_os s1 = []"
    by (simp add: injector_start_def injector_new_def recording_api_def)
  obtain s2 r where t: "injector_stop recording_api
      (foldl (apply_injector_op recording_api) s1 [Inject (Scroll (Fin 0) (Fin 1)), Progress]) = (s2, r)" by force
  have e: "run_events recording_api d [Scroll (Fin 0) (Fin 1)] [] = [CScroll (- 1) Vertical]" for d
    by (simp add: run_events_def execute_def recording_calls trunc_rat_def)
  from injector_executes_in_order [OF s n t] s t o e show ?thesis by (auto simp: injected_def)
qed

end
