(* ===== verification/Session_Input.thy ===== *)
theory Session_Input
  imports Session_Safety Input_Native
begin

text \<open>
  The input of a viewer, from the data channel to the operating system: the event task of a session
  (\<open>session_runtime.rs\<close>), the router (\<open>router.rs\<close>) and the native injector with its thread (\<open>native.rs\<close>), in one run.
\<close>

text \<open>The events that a turn takes from the viewer: those of an input frame that decodes, while the session runs.\<close>

definition input_taken :: "('w, 'i, 'c, 'd) session_deps \<Rightarrow> session_op \<Rightarrow> ('i, 'c, 'd) desk \<times> 'w live_session \<Rightarrow> input_event list" where
  "input_taken d x st = (case x of
     EventTurn _ (InputFrame f) \<Rightarrow> if ls_result (snd st) = None \<and> ls_ice (snd st) = None then decoded (dep_parse_input d) [f] else []
   | _ \<Rightarrow> [])"

text \<open>A router on the native injector, whose thread makes any progress between two injections.\<close>

definition injects_natively :: "'o enigo_api \<Rightarrow> ('o enigo_injector, 'c) router_env \<Rightarrow> bool" where
  "injects_natively api env \<longleftrightarrow> (\<forall>i ev. \<exists>n. fst (inject env i ev) = (thread_step api ^^ n) (fst (injector_inject i ev)))"

lemma executing_progresses: "executing api i0 gs i \<Longrightarrow> executing api i0 gs ((thread_step api ^^ n) i)"
  by (induction n) (simp_all add: executing_progress)

lemma executing_frame:
  assumes "injects_natively api env" and "executing api i0 gs (injector r)"
  shows "executing api i0 (gs @ decoded parse [f]) (injector (fst (router_handle_frame env parse r f)))"
proof (cases "parse f")
  case (Inl e)
  then show ?thesis using assms(2) by (simp add: router_handle_frame_def decoded_def)
next
  case (Inr ev)
  obtain n where "fst (inject env (injector r) ev) = (thread_step api ^^ n) (fst (injector_inject (injector r) ev))"
    using assms(1) unfolding injects_natively_def by blast
  then have "executing api i0 (gs @ [ev]) (fst (inject env (injector r) ev))"
    by (simp add: executing_progresses executing_inject assms(2))
  then show ?thesis using Inr
    by (cases ev) (simp_all add: router_handle_frame_def dispatch_def decoded_def Let_def)
qed

lemma session_step_input:
  fixes dk :: "('o enigo_injector, 'c, 'd) desk"
  assumes "injects_natively api (dep_router d)" and "executing api i0 gs (injector (desk_router dk))"
    and st: "session_step d x (dk, s) = ((dk', s'), out)"
  shows "executing api i0 (gs @ input_taken d x (dk, s)) (injector (desk_router dk'))"
proof (cases "\<exists>c f. x = EventTurn c (InputFrame f) \<and> ls_result s = None \<and> ls_ice s = None")
  case True
  then show ?thesis using st executing_frame [OF assms(1,2)] by (auto simp: input_taken_def event_turn_def)
next
  case False
  have "desk_router dk' = desk_router dk"
    using st False by (cases x) (auto simp: event_turn_def make_envelope_eq split: if_splits prod.splits peer_event.splits)
  then show ?thesis using assms(2) False by (auto simp: input_taken_def split: session_op.splits peer_event.splits)
qed

text \<open>
  What the viewer does reaches the operating system. In every interleaving of the tasks of a session and of the
  injector's thread, once the injector is stopped the operating system is exactly where the events of the input frames
  that the session took, decoded and executed one after the other in their order, take it: nothing is lost, repeated or
  reordered, neither malformed frames nor failed events disturb the others, and nothing that arrives after the end of
  the session is executed.
\<close>

theorem viewer_input_reaches_the_os:
  fixes dk :: "('o enigo_injector, 'c, 'd) desk"
  assumes "injector_start api i = (i1, Ok ())" and "\<not> inj_tx i" and "injects_natively api (dep_router d)"
    and "injector (desk_router dk) = i1" and "session_run d xs (dk, s) = ((dk', s'), out)"
    and "injector_stop api (injector (desk_router dk')) = (i2, r)"
  shows "inj_os i2 = run_events api (inj_dims i1) (trace (session_step d) (input_taken d) xs (dk, s)) (inj_os i1)
    \<and> injector_health i2 = Stopped \<and> r = Ok ()"
proof -
  have "(\<lambda>gs sent st. executing api i1 gs (injector (desk_router (fst st))))
      ([] @ trace (session_step d) (input_taken d) xs (dk, s)) ([] @ out) (dk', s')"
  proof (rule sessions.run_watched [OF _ _ assms(5)])
    show "executing api i1 [] (injector (desk_router (fst (dk, s))))"
      using executing_start [OF assms(1,2)] assms(4) by simp
  next
    fix gs sent u x v new
    assume "executing api i1 gs (injector (desk_router (fst u)))" and "session_step d x u = (v, new)"
    then show "executing api i1 (gs @ input_taken d x u) (injector (desk_router (fst v)))"
      using session_step_input [OF assms(3), of i1 gs "fst u" x "snd u" "fst v" "snd v" new] by simp
  qed
  then have "executing api i1 (trace (session_step d) (input_taken d) xs (dk, s)) (injector (desk_router dk'))" by simp
  from executing_stop [OF this assms(6)] show ?thesis by (simp add: injector_health_def)
qed

text \<open>
  The sample session over any router, decoders and command runner; and the one on the recording library, whose thread runs
  after every injection and whose decoder knows one event.
\<close>

definition desk_deps :: "('i, 'c) router_env \<Rightarrow> (string \<Rightarrow> (input_event, string) result)
    \<Rightarrow> (string \<Rightarrow> (dev_action_request, string) result) \<Rightarrow> 'd runner \<Rightarrow> (bytes list, 'i, 'c, 'd) session_deps" where
  "desk_deps env parse_input parse_dev run = \<lparr> dep_rtc = recording_channel, dep_builder = dep_builder sample_deps, dep_close = (\<lambda>w. w),
     dep_dial = dep_dial sample_deps, dep_to_json = (\<lambda>e. Ok []), dep_sink = (\<lambda>t. None),
     dep_from_str = dep_from_str sample_deps, dep_from_slice = (\<lambda>t. Err []), dep_router = env,
     dep_parse_input = parse_input, dep_parse_dev = parse_dev, dep_runner = run, dep_jpeg = dep_jpeg sample_deps \<rparr>"

definition input_deps :: "(bytes list, enigo_call list enigo_injector, unit, unit) session_deps" where
  "input_deps = desk_deps
     \<lparr> inject = (\<lambda>i ev. (thread_step recording_api (fst (injector_inject i ev)), snd (injector_inject i ev))),
       clip_set = (\<lambda>c t. (c, Ok ())) \<rparr>
     (\<lambda>t. if t = ''scroll'' then Ok (Scroll (Fin 0) (Fin 1)) else Err []) (\<lambda>t. Err []) (\<lambda>w c. (w, Ok []))"

lemma input_deps_native: "injects_natively recording_api (dep_router input_deps)"
  unfolding injects_natively_def
proof (intro allI exI)
  show "fst (inject (dep_router input_deps) i ev) = (thread_step recording_api ^^ 1) (fst (injector_inject i ev))" for i ev
    by (simp add: input_deps_def desk_deps_def)
qed

theorem viewer_input_reaches_the_os_witness:
  "\<forall>tools. \<exists>i1 s st out i2. injector_start recording_api (injector_new []) = (i1, Ok ()) \<and> start_session input_deps 0 sample_pending = Ok s
    \<and> session_run input_deps (map (\<lambda>t. EventTurn None (InputFrame t)) [''scroll'', ''bad'', ''scroll''])
        (\<lparr> desk_router = router_new i1 (), desk_tools = tools, desk_world = () \<rparr>, s) = (st, out)
    \<and> injector_stop recording_api (injector (desk_router (fst st))) = (i2, Ok ())
    \<and> inj_os i2 = [CScroll (- 1) Vertical, CScroll (- 1) Vertical]"
proof
  fix tools :: dev_service
  let ?xs = "map (\<lambda>t. EventTurn None (InputFrame t)) [''scroll'', ''bad'', ''scroll'']"
  obtain i1 where i: "injector_start recording_api (injector_new []) = (i1, Ok ())" and o: "inj_os i1 = []"
    by (simp add: injector_start_def injector_new_def recording_api_def)
  have n: "\<not> inj_tx (injector_new [])" by (simp add: injector_new_def)
  obtain s where s: "start_session input_deps 0 sample_pending = Ok s" "ls_result s = None" "ls_ice s = None"
    by (simp add: input_deps_def desk_deps_def sample_session_defs Let_def)
  let ?dk = "\<lparr> desk_router = router_new i1 (), desk_tools = tools, desk_world = () \<rparr>"
  obtain dk' s' out where r: "session_run input_deps ?xs (?dk, s) = ((dk', s'), out)" by (metis prod.collapse)
  obtain i2 e where t: "injector_stop recording_api (injector (desk_router dk')) = (i2, e)" by force
  have "trace (session_step input_deps) (input_taken input_deps) ?xs (?dk, s) = [Scroll (Fin 0) (Fin 1), Scroll (Fin 0) (Fin 1)]"
    using s(2,3) by (simp add: input_taken_def decoded_def event_turn_def input_deps_def desk_deps_def)
  moreover have "run_events recording_api d [Scroll (Fin 0) (Fin 1), Scroll (Fin 0) (Fin 1)] []
      = [CScroll (- 1) Vertical, CScroll (- 1) Vertical]" for d
    by (simp add: run_events_def execute_def recording_calls trunc_rat_def)
  moreover have "injector (desk_router ?dk) = i1" by (simp add: router_new_def)
  ultimately show "\<exists>i1 s st out i2. injector_start recording_api (injector_new []) = (i1, Ok ()) \<and> start_session input_deps 0 sample_pending = Ok s
    \<and> session_run input_deps (map (\<lambda>t. EventTurn None (InputFrame t)) [''scroll'', ''bad'', ''scroll''])
        (\<lparr> desk_router = router_new i1 (), desk_tools = tools, desk_world = () \<rparr>, s) = (st, out)
    \<and> injector_stop recording_api (injector (desk_router (fst st))) = (i2, Ok ())
    \<and> inj_os i2 = [CScroll (- 1) Vertical, CScroll (- 1) Vertical]"
    using viewer_input_reaches_the_os [OF i n input_deps_native _ r t] i s(1) r t o
    by (intro exI [of _ i1] exI [of _ s] exI [of _ "(dk', s')"] exI [of _ out] exI [of _ i2]) (simp del: session_run.simps list.map)
qed

end
