(* ===== verification/Session_Stream.thy ===== *)
theory Session_Stream
  imports Session_Safety
begin

text \<open>
  The frame stream of a session, from the capture loop to the viewer: what the viewer's assembler reconstructs after any
  interleaving of the tasks of a session, whatever the stack refuses or drops on the way.
\<close>

text \<open>The frame a turn hands to the peer, and what becomes visible by it: the data of a frame that was sent whole.\<close>

definition attempt :: "('w, 'i, 'c, 'd) session_deps \<Rightarrow> session_op \<Rightarrow> 'w live_session \<Rightarrow> encoded_frame option" where
  "attempt d x s = (case x of
     FrameTurn now (Some f) \<Rightarrow>
       if ls_result s = None \<and> pump_alive (ls_pump s) \<and> FRAME_INTERVAL_MS \<le> now - pump_last (ls_pump s)
         \<and> frames_open (dep_rtc d) (ls_peer s)
       then (case encode (dep_jpeg d) streaming_default f of Some (Inr e) \<Rightarrow> Some e | _ \<Rightarrow> None)
       else None
   | _ \<Rightarrow> None)"

definition shown :: "('w, 'i, 'c, 'd) session_deps \<Rightarrow> session_op \<Rightarrow> 'w live_session \<Rightarrow> bytes list" where
  "shown d x s = (case attempt d x s of
     Some e \<Rightarrow> if snd (send_frame (dep_rtc d) (ls_peer s) e MAX_BUFFERED) = Ok True \<and> enc_data e \<noteq> [] then [enc_data e] else []
   | None \<Rightarrow> [])"

text \<open>Only a turn that hands a frame to the peer sends on the frames channel.\<close>

lemma frame_turn_peer:
  assumes "ls_result s = None"
  shows "ls_peer (frame_turn d now l s) = (case attempt d (FrameTurn now l) s of
     Some e \<Rightarrow> fst (send_frame (dep_rtc d) (ls_peer s) e MAX_BUFFERED) | None \<Rightarrow> ls_peer s)"
  using assms
  by (auto simp: frame_turn_def attempt_def Let_def split: option.split sum.split prod.split bool.split)

lemma accept_offer_sent:
  "in_order_channel api sent \<Longrightarrow> sent (pc (fst (accept_offer api p sdp))) = sent (pc p)"
  unfolding accept_offer_def in_order_channel_def
  by (auto split: sum.split prod.split) (metis fst_conv)+

lemma add_remote_ice_sent:
  "in_order_channel api sent \<Longrightarrow> sent (pc (fst (add_remote_ice api p c i))) = sent (pc p)"
  unfolding add_remote_ice_def in_order_channel_def
  by (auto split: sum.split prod.split) (metis fst_conv)+

lemma end_session_sent:
  "\<forall>w. sent (dep_close d w) = sent w \<Longrightarrow> sent (pc (ls_peer (end_session d r s))) = sent (pc (ls_peer s))"
  by (simp add: end_session_def)

lemma signal_turn_sent:
  assumes "in_order_channel (dep_rtc d) sent" and "\<forall>w. sent (dep_close d w) = sent w"
  shows "sent (pc (ls_peer (signal_turn d clock s))) = sent (pc (ls_peer s))"
  using accept_offer_sent [OF assms(1), of "ls_peer s"] add_remote_ice_sent [OF assms(1), of "ls_peer s"] end_session_sent [OF assms(2)]
  by (auto simp: signal_turn_def Let_def make_envelope_eq split: prod.split sum.split option.split negotiation_action.split)
    (metis fst_conv)+

lemma on_data_channel_pc [simp]: "pc (on_data_channel p label) = pc p"
  by (simp add: on_data_channel_def split: channel_use.split)

text \<open>A turn that hands no frame to the peer sends nothing on the frames channel.\<close>

lemma session_step_silent:
  assumes ch: "in_order_channel (dep_rtc d) sent" "\<forall>w. sent (dep_close d w) = sent w"
    and st: "session_step d x (dk, s) = ((dk', s'), out)" and no: "attempt d x s = None"
  shows "sent (pc (ls_peer s')) = sent (pc (ls_peer s))"
proof (cases "ls_result s = None")
  case True
  note r = True
  show ?thesis
  proof (cases x)
    case (FrameTurn now l)
    then show ?thesis using st r frame_turn_peer [OF r, of d now l] no by auto
  next
    case (EventTurn clock ev)
    then show ?thesis using st r
      by (cases ev) (auto simp: event_turn_def make_envelope_eq split: if_splits prod.splits)
  qed (use st r signal_turn_sent [OF ch] end_session_sent [OF ch(2)] in
      \<open>auto simp: send_ice_def send_answer_def split: if_splits prod.splits option.splits sum.splits\<close>)
qed (use st in simp)

text \<open>A step extends what was sent by the messages of at most one frame, and shows that frame if it is complete.\<close>

lemma session_step_stream:
  assumes ch: "in_order_channel (dep_rtc d) sent" "\<forall>w. sent (dep_close d w) = sent w"
    and st: "session_step d x (dk, s) = ((dk', s'), out)"
  shows "\<exists>a'. assemble a (drop (length (sent (pc (ls_peer s)))) (sent (pc (ls_peer s')))) = (a', shown d x s)
    \<and> (\<exists>ms. sent (pc (ls_peer s')) = sent (pc (ls_peer s)) @ ms)"
proof (cases "\<exists>e. attempt d x s = Some e")
  case False
  then have "shown d x s = []" by (auto simp: shown_def split: option.split)
  moreover have "attempt d x s = None" using False by auto
  ultimately show ?thesis using session_step_silent [OF ch st] by simp
next
  case True
  then obtain e where e: "attempt d x s = Some e" by blast
  then obtain now f where x: "x = FrameTurn now (Some f)" "ls_result s = None"
    by (auto simp: attempt_def split: session_op.splits option.splits if_splits)
  obtain p r where p: "send_frame (dep_rtc d) (ls_peer s) e MAX_BUFFERED = (p, r)" by force
  have s': "ls_peer s' = p" using st x e p frame_turn_peer [OF x(2), of d now "Some f"] by simp
  let ?ms = "frame_messages (frame_seq (ls_peer s)) (enc_data e)"
  obtain k where k: "sent (pc p) = sent (pc (ls_peer s)) @ take k ?ms"
      "if r = Ok True then k = length ?ms \<and> chunk_count (enc_data e) < 2 ^ 16
       else k = 0 \<or> k < length ?ms \<and> chunk_count (enc_data e) < 2 ^ 16"
    using send_frame_in_order [OF ch(1) p] by blast
  have "\<exists>a'. assemble a (take k ?ms) = (a', shown d x s)"
  proof (cases "r = Ok True")
    case True
    then show ?thesis using k(2) e p assemble_frame [of "enc_data e" a]
      by (cases "enc_data e = []") (auto simp: shown_def frame_messages_def chunks.simps [of _ "[]"])
  next
    case False
    then show ?thesis using k(2) e p assemble_interrupted [of "enc_data e" k _ a] by (auto simp: shown_def)
  qed
  then show ?thesis using k(1) s' by simp
qed

text \<open>The invariant of a run: the viewer has assembled exactly the frames that became visible.\<close>

definition viewed :: "assembler \<Rightarrow> ('w \<Rightarrow> bytes list) \<Rightarrow> bytes list \<Rightarrow> 'w live_session \<Rightarrow> bool" where
  "viewed a sent fs s \<longleftrightarrow> snd (assemble a (sent (pc (ls_peer s)))) = fs"

lemma session_step_viewed:
  assumes "in_order_channel (dep_rtc d) sent" "\<forall>w. sent (dep_close d w) = sent w"
    and "viewed a sent fs (snd u)" and "session_step d x u = (v, out)"
  shows "viewed a sent (fs @ shown d x (snd u)) (snd v)"
proof -
  obtain dk s dk' s' where u: "u = (dk, s)" "v = (dk', s')" by (cases u; cases v)
  obtain a1 where a1: "assemble a (sent (pc (ls_peer s))) = (a1, fs)"
    using assms(3) u by (cases "assemble a (sent (pc (ls_peer s)))") (simp add: viewed_def)
  from session_step_stream [OF assms(1,2) assms(4) [unfolded u], of a1] obtain a2 ms
    where "assemble a1 ms = (a2, shown d x s)" "sent (pc (ls_peer s')) = sent (pc (ls_peer s)) @ ms" by auto
  then show ?thesis using a1 u by (simp add: viewed_def assemble_append)
qed

text \<open>
  C7: The viewer sees exactly the frames the session sent. Over an ordered and reliable channel, in every interleaving of
  the tasks of a session, whatever sends the stack refuses in the middle of a frame and whenever the session ends, the
  viewer's assembler, from any state, reconstructs the encoded frames whose sending succeeded, each whole and in order,
  and nothing of the others.
\<close>

theorem viewer_sees_sent_frames:
  assumes "in_order_channel (dep_rtc d) sent" and "\<forall>w. sent (dep_close d w) = sent w"
    and "start_session d now ps = Ok s" and "sent (pc (ls_peer s)) = []"
    and "session_run d xs (dk, s) = ((dk', s'), out)"
  shows "snd (assemble a (sent (pc (ls_peer s')))) = trace (session_step d) (\<lambda>x u. shown d x (snd u)) xs (dk, s)"
proof -
  have "viewed a sent [] (snd (dk, s))" using assms(4) by (simp add: viewed_def)
  then have "viewed a sent (trace (session_step d) (\<lambda>x u. shown d x (snd u)) xs (dk, s)) s'"
    using sessions.run_watched [where I = "\<lambda>fs _ u. viewed a sent fs (snd u)" and watch = "\<lambda>x u. shown d x (snd u)"
        and gs = "[]" and sent = "[]", OF session_step_viewed [OF assms(1,2)] _ assms(5)] by simp
  then show ?thesis by (simp add: viewed_def)
qed

text \<open>A session that is asked for two frames, the second one too early.\<close>

lemma sample_frame_encodes: "\<exists>w h. encode (\<lambda>q d a b. Ok [q]) streaming_default sample_frame
    = Some (Ok \<lparr> enc_width = w, enc_height = h, enc_timestamp_us = 7, enc_data = [55] \<rparr>)"
proof -
  have v: "is_valid sample_frame" "frame_width sample_frame \<noteq> 0" "frame_height sample_frame \<noteq> 0"
    by (simp_all add: sample_frame_def is_valid_def expected_len_def pixel_count_def)
  obtain w h where f: "fit_dimensions (frame_width sample_frame) (frame_height sample_frame) (clamp 720 120 2160) = (w, h)"
    by force
  have "clamp 55 20 90 = (55 :: u8)" "timestamp_us sample_frame = 7" by (simp_all add: clamp_def sample_frame_def)
  with valid_frames_encode [OF v f, of "\<lambda>q d a b. Ok [q]" 55] show ?thesis by (auto simp: streaming_default_def)
qed

theorem viewer_sees_sent_frames_witness:
  "\<forall>dk a. \<exists>s dk' s' out. start_session sample_deps 0 sample_pending = Ok s
    \<and> session_run sample_deps [ChannelOpened ''frames'', FrameTurn 100 (Some sample_frame), FrameTurn 120 (Some sample_frame)] (dk, s)
       = ((dk', s'), out) \<and> snd (assemble a (pc (ls_peer s'))) = [[55]]"
proof (intro allI)
  fix dk :: "(unit, unit, unit) desk" and a
  let ?xs = "[ChannelOpened ''frames'', FrameTurn 100 (Some sample_frame), FrameTurn 120 (Some sample_frame)]"
  obtain s where s: "start_session sample_deps 0 sample_pending = Ok s" by (simp add: sample_session_defs Let_def)
  then have p: "pc (ls_peer s) = []" by (auto simp: sample_session_defs Let_def)
  obtain dk' s' out where r: "session_run sample_deps ?xs (dk, s) = ((dk', s'), out)" by (metis prod.collapse)
  obtain e where e: "encode (\<lambda>q d a b. Ok [q]) streaming_default sample_frame = Some (Ok e)" "enc_data e = [55]"
    using sample_frame_encodes by auto
  have "sendable e" using e(2)
    by (simp add: sendable_def chunk_count_def FRAME_CHUNK_PAYLOAD_def FRAME_CHUNK_HEADER_LEN_def)
  then have sf: "frames_channel q \<Longrightarrow> send_frame recording_channel q e MAX_BUFFERED
      = (q\<lparr> frame_seq := frame_seq q + 1, pc := pc q @ frame_messages (frame_seq q) (enc_data e) \<rparr>, Ok True)" for q
    by (rule send_frame_recording [rotated])
  have d: "dep_rtc sample_deps = recording_channel" "dep_jpeg sample_deps = (\<lambda>q d a b. Ok [q])" "dc_open recording_channel w"
      "dep_close sample_deps w = w" for w
    by (simp_all add: sample_deps_def recording_channel_def)
  have st: "ls_result s = None" "pump_alive (ls_pump s)" "pump_last (ls_pump s) = - 66" "\<not> frames_channel (ls_peer s)"
    using s by (auto simp: sample_session_defs Let_def FRAME_INTERVAL_MS_def)
  have "trace (session_step sample_deps) (\<lambda>x u. shown sample_deps x (snd u)) ?xs (dk, s) = [[55]]"
    using st e sf
    by (simp add: shown_def attempt_def frame_turn_def frames_open_def on_data_channel_def wire_data_channels_def d Let_def
        FRAME_INTERVAL_MS_def)
  with viewer_sees_sent_frames [OF _ _ s _ r, of "\<lambda>w. w" a] recording_in_order d p
  have "snd (assemble a (pc (ls_peer s'))) = [[55]]" by simp
  with s r show "\<exists>s dk' s' out. start_session sample_deps 0 sample_pending = Ok s
    \<and> session_run sample_deps ?xs (dk, s) = ((dk', s'), out) \<and> snd (assemble a (pc (ls_peer s'))) = [[55]]"
    by (simp del: session_run.simps)
qed

end
