(* ===== verification/Fs.thy ===== *)
theory Fs
  imports Agent_Error
begin

text \<open>
  The part of \<open>std::fs\<close> and \<open>std::path\<close> the agent uses. A path is the list of its components; a file has its
  bytes and its permission bits. Every system call can fail: \<open>fs_faults\<close> tells for the \<open>n\<close>-th call whether it
  fails, with which message, and how much a failing write has left behind. A call that fails this way is where
  a crash or a full disk interrupts the program, so that what holds for every fault schedule holds whenever the
  process is stopped between two calls.
\<close>

type_synonym path = "string list"

record fs_file =
  file_data :: string
  file_mode :: nat

record fs =
  fs_files :: "path \<Rightarrow> fs_file option"
  fs_dirs :: "path set"
  fs_umask :: nat
  fs_ops :: nat
  fs_faults :: "nat \<Rightarrow> (nat \<times> string) option"

section \<open>Paths\<close>

text \<open>\<open>Path::join\<close> with a relative name, \<open>Path::parent\<close>, and \<open>Path::with_extension\<close> on the file name.\<close>

definition path_join :: "path \<Rightarrow> string \<Rightarrow> path" where
  "path_join p name = p @ [name]"

definition path_parent :: "path \<Rightarrow> path option" where
  "path_parent p = (if p = [] then None else Some (butlast p))"

text \<open>The file name up to its last dot, a leading dot not counted.\<close>

definition file_stem :: "string \<Rightarrow> string" where
  "file_stem name =
    (let rest = dropWhile (\<lambda>c. c \<noteq> CHR ''.'') (rev name)
     in if length rest \<le> 1 then name else rev (tl rest))"

definition with_extension :: "path \<Rightarrow> string \<Rightarrow> path" where
  "with_extension p ext = (if p = [] then [] else butlast p @ [file_stem (last p) @ ''.'' @ ext])"

section \<open>System calls\<close>

definition fs_call :: "(nat \<Rightarrow> fs \<Rightarrow> fs) \<Rightarrow> (fs \<Rightarrow> fs \<times> ('a, string) result) \<Rightarrow> fs \<Rightarrow> fs \<times> 'a agent_result" where
  "fs_call partial act s =
    (let s1 = s\<lparr> fs_ops := Suc (fs_ops s) \<rparr> in
     case fs_faults s (fs_ops s) of
       Some (k, e) \<Rightarrow> (partial k s1, Err (Io e))
     | None \<Rightarrow> (case act s1 of (s2, Inl e) \<Rightarrow> (s2, Err (Io e)) | (s2, Inr x) \<Rightarrow> (s2, Ok x)))"

definition fs_exists :: "fs \<Rightarrow> path \<Rightarrow> bool" where
  "fs_exists s p \<longleftrightarrow> fs_files s p \<noteq> None \<or> p \<in> fs_dirs s"

text \<open>A new file has the permissions 0666 less the mask of the process, an existing one keeps its own.\<close>

definition put_file :: "path \<Rightarrow> string \<Rightarrow> fs \<Rightarrow> fs" where
  "put_file p d s = s\<lparr> fs_files := (fs_files s)(p \<mapsto> \<lparr> file_data = d,
     file_mode = (case fs_files s p of Some f \<Rightarrow> file_mode f | None \<Rightarrow> 438 - Bit_Operations.and 438 (fs_umask s)) \<rparr>) \<rparr>"

definition writable :: "fs \<Rightarrow> path \<Rightarrow> bool" where
  "writable s p \<longleftrightarrow> p \<noteq> [] \<and> butlast p \<in> fs_dirs s \<and> p \<notin> fs_dirs s"

text \<open>\<open>fs::write\<close>: a fault of weight 0 strikes before the file is opened, one of weight \<open>k + 1\<close> after \<open>k\<close> bytes.\<close>

definition fs_write :: "path \<Rightarrow> string \<Rightarrow> fs \<Rightarrow> fs \<times> unit agent_result" where
  "fs_write p d = fs_call
     (\<lambda>k s. case k of 0 \<Rightarrow> s | Suc j \<Rightarrow> if writable s p then put_file p (take j d) s else s)
     (\<lambda>s. if writable s p then (put_file p d s, Ok ()) else (s, Err ''No such file or directory''))"

definition fs_read_to_string :: "path \<Rightarrow> fs \<Rightarrow> fs \<times> string agent_result" where
  "fs_read_to_string p = fs_call (\<lambda>k s. s)
     (\<lambda>s. (s, case fs_files s p of
        None \<Rightarrow> Err ''No such file or directory''
      | Some f \<Rightarrow> if valid_utf8 (file_data f) then Ok (file_data f)
          else Err ''stream did not contain valid UTF-8''))"

definition fs_set_permissions :: "path \<Rightarrow> nat \<Rightarrow> fs \<Rightarrow> fs \<times> unit agent_result" where
  "fs_set_permissions p m = fs_call (\<lambda>k s. s)
     (\<lambda>s. case fs_files s p of
        None \<Rightarrow> (s, Err ''No such file or directory'')
      | Some f \<Rightarrow> (s\<lparr> fs_files := (fs_files s)(p \<mapsto> f\<lparr> file_mode := m \<rparr>) \<rparr>, Ok ()))"

definition fs_rename :: "path \<Rightarrow> path \<Rightarrow> fs \<Rightarrow> fs \<times> unit agent_result" where
  "fs_rename p q = fs_call (\<lambda>k s. s)
     (\<lambda>s. case fs_files s p of
        None \<Rightarrow> (s, Err ''No such file or directory'')
      | Some f \<Rightarrow> if writable s q then (s\<lparr> fs_files := ((fs_files s)(p := None))(q \<mapsto> f) \<rparr>, Ok ())
          else (s, Err ''Is a directory''))"

definition fs_remove_file :: "path \<Rightarrow> fs \<Rightarrow> fs \<times> unit agent_result" where
  "fs_remove_file p = fs_call (\<lambda>k s. s)
     (\<lambda>s. if fs_files s p = None then (s, Err ''No such file or directory'')
          else (s\<lparr> fs_files := (fs_files s)(p := None) \<rparr>, Ok ()))"

text \<open>\<open>OpenOptions\<close> with \<open>create\<close> and without \<open>truncate\<close>: an existing file is left as it is.\<close>

definition fs_open_create :: "path \<Rightarrow> fs \<Rightarrow> fs \<times> unit agent_result" where
  "fs_open_create p = fs_call (\<lambda>k s. s)
     (\<lambda>s. if fs_files s p \<noteq> None then (s, Ok ())
          else if writable s p then (put_file p [] s, Ok ()) else (s, Err ''No such file or directory''))"

text \<open>\<open>fs::create_dir_all\<close> makes the directory and its ancestors; a file in the way makes it fail.\<close>

definition path_prefixes :: "path \<Rightarrow> path list" where
  "path_prefixes p = map (\<lambda>i. take i p) [0..<Suc (length p)]"

definition fs_create_dir_all :: "path \<Rightarrow> fs \<Rightarrow> fs \<times> unit agent_result" where
  "fs_create_dir_all p = fs_call (\<lambda>k s. s)
     (\<lambda>s. if \<exists>q \<in> set (path_prefixes p). fs_files s q \<noteq> None then (s, Err ''Not a directory'')
          else (s\<lparr> fs_dirs := set (path_prefixes p) \<union> fs_dirs s \<rparr>, Ok ()))"

section \<open>Facts about the calls\<close>

lemma path_prefixes_last: "p \<in> set (path_prefixes p)"
  by (auto simp: path_prefixes_def image_iff intro!: bexI [of _ "length p"])

lemma fs_call_cases:
  assumes "fs_call partial act s = (s', r)"
  obtains (fault) k e where "s' = partial k (s\<lparr> fs_ops := Suc (fs_ops s) \<rparr>)" "r = Err (Io e)"
  | (err) e where "act (s\<lparr> fs_ops := Suc (fs_ops s) \<rparr>) = (s', Err e)" "r = Err (Io e)"
  | (ok) x where "act (s\<lparr> fs_ops := Suc (fs_ops s) \<rparr>) = (s', Ok x)" "r = Ok x"
proof (cases "fs_faults s (fs_ops s)")
  case (Some ke)
  then show ?thesis using assms fault by (cases ke) (auto simp: fs_call_def)
next
  case None
  obtain t x where a: "act (s\<lparr> fs_ops := Suc (fs_ops s) \<rparr>) = (t, x)" by (cases "act (s\<lparr> fs_ops := Suc (fs_ops s) \<rparr>)")
  then show ?thesis using assms None err ok by (cases x) (auto simp: fs_call_def)
qed

text \<open>
  What each call leaves alone: the counter of calls moves on, the fault schedule and the mask stay, and no path
  but those it names changes.
\<close>

definition same_but :: "path set \<Rightarrow> fs \<Rightarrow> fs \<Rightarrow> bool" where
  "same_but ps s s' \<longleftrightarrow> (\<forall>q. q \<notin> ps \<longrightarrow> fs_files s' q = fs_files s q) \<and> fs_dirs s \<subseteq> fs_dirs s'
     \<and> fs_umask s' = fs_umask s \<and> fs_faults s' = fs_faults s \<and> fs_ops s \<le> fs_ops s'"

lemma same_but_refl [simp]: "same_but ps s s"
  by (simp add: same_but_def)

lemma same_but_trans: "same_but ps s t \<Longrightarrow> same_but qs t u \<Longrightarrow> ps \<subseteq> rs \<Longrightarrow> qs \<subseteq> rs \<Longrightarrow> same_but rs s u"
  unfolding same_but_def by (metis order_trans subsetD)

lemma same_but_tick [simp]: "same_but ps s (s\<lparr> fs_ops := Suc (fs_ops s) \<rparr>)"
  by (simp add: same_but_def)

lemma same_but_put [simp]: "same_but {p} s (put_file p d (s\<lparr> fs_ops := Suc (fs_ops s) \<rparr>))"
  by (simp add: same_but_def put_file_def)

lemma fs_write_frame: "fs_write p d s = (s', r) \<Longrightarrow> same_but {p} s s'"
  unfolding fs_write_def by (erule fs_call_cases) (auto split: nat.splits if_splits)

lemma fs_read_frame: "fs_read_to_string p s = (s', r) \<Longrightarrow> same_but {} s s'"
  unfolding fs_read_to_string_def by (erule fs_call_cases) (auto split: if_splits)

lemma fs_set_permissions_frame: "fs_set_permissions p m s = (s', r) \<Longrightarrow> same_but {p} s s'"
  unfolding fs_set_permissions_def
  by (erule fs_call_cases) (auto simp: same_but_def split: option.splits)

lemma fs_rename_frame: "fs_rename p q s = (s', r) \<Longrightarrow> same_but {p, q} s s'"
  unfolding fs_rename_def
  by (erule fs_call_cases) (auto simp: same_but_def split: option.splits if_splits)

lemma fs_remove_frame: "fs_remove_file p s = (s', r) \<Longrightarrow> same_but {p} s s'"
  unfolding fs_remove_file_def
  by (erule fs_call_cases) (auto simp: same_but_def split: if_splits)

lemma fs_create_dir_all_frame: "fs_create_dir_all p s = (s', r) \<Longrightarrow> same_but {} s s'"
  unfolding fs_create_dir_all_def
  by (erule fs_call_cases) (auto simp: same_but_def split: if_splits)

lemma fs_open_create_frame: "fs_open_create p s = (s', r) \<Longrightarrow> same_but {p} s s'"
  unfolding fs_open_create_def by (erule fs_call_cases) (auto split: if_splits)

lemmas fs_frames = fs_write_frame fs_read_frame fs_set_permissions_frame fs_rename_frame fs_remove_frame
  fs_create_dir_all_frame

text \<open>What a successful call leaves behind.\<close>

lemma fs_write_Ok: "fs_write p d s = (s', Ok ()) \<Longrightarrow> map_option file_data (fs_files s' p) = Some d"
  unfolding fs_write_def by (erule fs_call_cases) (auto simp: put_file_def split: if_splits)

lemma fs_write_mode:
  "fs_write p d s = (s', Ok ()) \<Longrightarrow> fs_files s p = Some f \<Longrightarrow> map_option file_mode (fs_files s' p) = Some (file_mode f)"
  unfolding fs_write_def by (erule fs_call_cases) (auto simp: put_file_def split: if_splits)

lemma fs_set_permissions_Ok:
  "fs_set_permissions p m s = (s', Ok ()) \<Longrightarrow> fs_files s' p = map_option (\<lambda>f. f\<lparr> file_mode := m \<rparr>) (fs_files s p)"
  unfolding fs_set_permissions_def by (erule fs_call_cases) (auto split: option.splits)

lemma fs_rename_Ok:
  "fs_rename p q s = (s', Ok ()) \<Longrightarrow> fs_files s' q = fs_files s p \<and> (p \<noteq> q \<longrightarrow> fs_files s' p = None)"
  unfolding fs_rename_def by (erule fs_call_cases) (auto split: option.splits if_splits)

lemma fs_rename_Err: "fs_rename p q s = (s', Err e) \<Longrightarrow> fs_files s' = fs_files s"
  unfolding fs_rename_def by (erule fs_call_cases) (auto split: option.splits if_splits)

lemma fs_create_dir_all_Ok: "fs_create_dir_all p s = (s', Ok ()) \<Longrightarrow> p \<in> fs_dirs s'"
  unfolding fs_create_dir_all_def using path_prefixes_last [of p]
  by - (erule fs_call_cases, auto simp del: fun_upd_apply split: if_splits)

text \<open>A file system whose next calls do not fail, and the calls on it.\<close>

definition no_faults :: "fs \<Rightarrow> bool" where
  "no_faults s \<longleftrightarrow> (\<forall>n \<ge> fs_ops s. fs_faults s n = None)"

lemma no_faults_call:
  "no_faults s \<Longrightarrow> fs_call partial act s =
     (case act (s\<lparr> fs_ops := Suc (fs_ops s) \<rparr>) of (s2, Inl e) \<Rightarrow> (s2, Err (Io e)) | (s2, Inr x) \<Rightarrow> (s2, Ok x))"
  by (simp add: no_faults_def fs_call_def Let_def)

lemma no_faults_keep: "no_faults s \<Longrightarrow> same_but ps s s' \<Longrightarrow> no_faults s'"
  by (simp add: no_faults_def same_but_def)

text \<open>Without faults a call succeeds when its own conditions hold.\<close>

lemma fs_write_succeeds: "no_faults s \<Longrightarrow> writable s p \<Longrightarrow> \<exists>s'. fs_write p d s = (s', Ok ())"
  by (simp add: fs_write_def no_faults_call writable_def)

lemma fs_set_permissions_succeeds: "no_faults s \<Longrightarrow> fs_files s p = Some f \<Longrightarrow> \<exists>s'. fs_set_permissions p m s = (s', Ok ())"
  by (simp add: fs_set_permissions_def no_faults_call)

lemma fs_rename_succeeds:
  "no_faults s \<Longrightarrow> fs_files s p = Some f \<Longrightarrow> writable s q \<Longrightarrow> \<exists>s'. fs_rename p q s = (s', Ok ())"
  by (simp add: fs_rename_def no_faults_call writable_def)

lemma fs_create_dir_all_succeeds:
  "no_faults s \<Longrightarrow> \<forall>q \<in> set (path_prefixes p). fs_files s q = None \<Longrightarrow> \<exists>s'. fs_create_dir_all p s = (s', Ok ())"
  by (simp add: fs_create_dir_all_def no_faults_call)

lemma fs_create_dir_all_dirs: "fs_create_dir_all p s = (s', r) \<Longrightarrow> fs_dirs s' \<subseteq> set (path_prefixes p) \<union> fs_dirs s"
  unfolding fs_create_dir_all_def by (erule fs_call_cases) (auto split: if_splits)

lemma fs_keep_dirs:
  "fs_write p d s = (s', r) \<Longrightarrow> fs_dirs s' = fs_dirs s"
  "fs_set_permissions p m s = (s', r) \<Longrightarrow> fs_dirs s' = fs_dirs s"
  unfolding fs_write_def fs_set_permissions_def
  by (erule fs_call_cases; auto simp: put_file_def split: nat.splits if_splits option.splits)+

lemma fs_read_eq:
  "fs_faults s (fs_ops s) = None \<Longrightarrow> fs_files s p = Some f \<Longrightarrow> valid_utf8 (file_data f)
     \<Longrightarrow> fs_read_to_string p s = (s\<lparr> fs_ops := Suc (fs_ops s) \<rparr>, Ok (file_data f))"
  by (simp add: fs_read_to_string_def fs_call_def)

lemma fs_read_Ok: "fs_read_to_string p s = (s', Ok d) \<Longrightarrow> \<exists>f. fs_files s p = Some f \<and> file_data f = d"
  unfolding fs_read_to_string_def by (erule fs_call_cases) (auto split: option.splits if_splits)

lemma prefix_length: "q \<in> set (path_prefixes p) \<Longrightarrow> length q \<le> length p"
  by (auto simp: path_prefixes_def)

end
