(* ===== verification/Store.thy ===== *)
theory Store
  imports Agent_Core Fs Identity
begin

text \<open>
  Persistence of the agent (\<open>crates/core/src/store.rs\<close>): the configuration and the identity key, in files of a
  per-user directory, each written to a sibling file that is renamed over it. The JSON forms of the configuration
  are parameters. \<open>on_unix\<close> selects the platform variant of \<open>set_mode\<close>.
\<close>

record agent_store =
  store_dir :: path

definition CONFIG_FILE :: string where "CONFIG_FILE = ''config.json''"
definition IDENTITY_FILE :: string where "IDENTITY_FILE = ''identity.key''"

definition store_at :: "path \<Rightarrow> agent_store" where
  "store_at d = \<lparr> store_dir = d \<rparr>"

definition platform_default :: "path option \<Rightarrow> agent_store agent_result" where
  "platform_default config_dir = (case config_dir of
     None \<Rightarrow> Err (Config ''no OS config directory available'')
   | Some base \<Rightarrow> Ok (store_at (path_join base ''desksync'')))"

definition ensure_dir :: "agent_store \<Rightarrow> fs \<Rightarrow> fs \<times> unit agent_result" where
  "ensure_dir st = fs_create_dir_all (store_dir st)"

definition config_path :: "agent_store \<Rightarrow> path" where
  "config_path st = path_join (store_dir st) CONFIG_FILE"

definition identity_path :: "agent_store \<Rightarrow> path" where
  "identity_path st = path_join (store_dir st) IDENTITY_FILE"

definition config_exists :: "agent_store \<Rightarrow> fs \<Rightarrow> bool" where
  "config_exists st s = fs_exists s (config_path st)"

text \<open>The \<open>?\<close> operator on a call that threads the file system.\<close>

definition then_do :: "fs \<times> 'a agent_result \<Rightarrow> ('a \<Rightarrow> fs \<Rightarrow> fs \<times> 'b agent_result) \<Rightarrow> fs \<times> 'b agent_result" where
  "then_do c f = (case c of (s, Inl e) \<Rightarrow> (s, Err e) | (s, Inr x) \<Rightarrow> f x s)"

definition set_mode :: "bool \<Rightarrow> path \<Rightarrow> nat \<Rightarrow> fs \<Rightarrow> fs \<times> unit agent_result" where
  "set_mode on_unix p m s = (if on_unix then fs_set_permissions p m s else (s, Ok ()))"

definition atomic_write :: "bool \<Rightarrow> path \<Rightarrow> string \<Rightarrow> nat \<Rightarrow> fs \<Rightarrow> fs \<times> unit agent_result" where
  "atomic_write on_unix p d m s =
    (let tmp = with_extension p ''tmp'' in
     then_do (fs_write tmp d s) (\<lambda>_ s. then_do (set_mode on_unix tmp m s) (\<lambda>_. fs_rename tmp p)))"

text \<open>The serialised forms of the configuration.\<close>

record config_json =
  config_to_string :: "agent_config \<Rightarrow> (string, string) result"
  config_from_str :: "string \<Rightarrow> (agent_config, string) result"

text \<open>The file modes 0644 and 0600.\<close>

definition MODE_CONFIG :: nat where "MODE_CONFIG = 420"
definition MODE_KEY :: nat where "MODE_KEY = 384"

definition load_config :: "config_json \<Rightarrow> agent_store \<Rightarrow> fs \<Rightarrow> fs \<times> agent_config agent_result" where
  "load_config js st s = then_do (fs_read_to_string (config_path st) s) (\<lambda>raw s.
     (s, case config_from_str js raw of Inl e \<Rightarrow> Err (Serialization e) | Inr c \<Rightarrow> Ok c))"

definition save_config :: "config_json \<Rightarrow> bool \<Rightarrow> agent_store \<Rightarrow> agent_config \<Rightarrow> fs \<Rightarrow> fs \<times> unit agent_result" where
  "save_config js on_unix st c s = then_do (ensure_dir st s) (\<lambda>_ s.
     case config_to_string js c of
       Inl e \<Rightarrow> (s, Err (Serialization e))
     | Inr json \<Rightarrow> atomic_write on_unix (config_path st) json MODE_CONFIG s)"

definition load_or_create_identity ::
  "'sk identity_lib \<Rightarrow> (bytes, string) result \<Rightarrow> bool \<Rightarrow> agent_store \<Rightarrow> fs \<Rightarrow> fs \<times> 'sk device_identity agent_result" where
  "load_or_create_identity lib entropy on_unix st s =
    (let p = identity_path st in
     if fs_exists s p then then_do (fs_read_to_string p s) (\<lambda>hex s. (s, from_secret_hex lib hex))
     else (case generate lib entropy of
         Inl e \<Rightarrow> (s, Err e)
       | Inr i \<Rightarrow> then_do (ensure_dir st s) (\<lambda>_ s.
           then_do (atomic_write on_unix p (secret_hex lib i) MODE_KEY s) (\<lambda>_ s. (s, Ok i)))))"

section \<open>The paths do not collide\<close>

definition config_tmp :: "agent_store \<Rightarrow> path" where "config_tmp st = with_extension (config_path st) ''tmp''"
definition identity_tmp :: "agent_store \<Rightarrow> path" where "identity_tmp st = with_extension (identity_path st) ''tmp''"

lemma store_paths:
  "config_path st = store_dir st @ [''config.json'']" "identity_path st = store_dir st @ [''identity.key'']"
  "config_tmp st = store_dir st @ [''config.tmp'']" "identity_tmp st = store_dir st @ [''identity.tmp'']"
  by (simp_all add: config_path_def identity_path_def config_tmp_def identity_tmp_def path_join_def
      CONFIG_FILE_def IDENTITY_FILE_def with_extension_def file_stem_def)

section \<open>Atomic writes\<close>

lemma then_do_Ok: "then_do c f = (s', Ok y) \<longleftrightarrow> (\<exists>s x. c = (s, Ok x) \<and> f x s = (s', Ok y))"
  by (auto simp: then_do_def split: prod.splits sum.splits)

lemma then_do_cases:
  assumes "then_do c f = (s', r)"
  obtains (failed) e where "c = (s', Err e)" "r = Err e"
  | (passed) s x where "c = (s, Ok x)" "f x s = (s', r)"
  using assms that by (auto simp: then_do_def split: prod.splits sum.splits)

lemma set_mode_frame: "set_mode u p m s = (s', r) \<Longrightarrow> same_but {p} s s'"
  by (auto simp: set_mode_def dest: fs_set_permissions_frame split: if_splits)

lemma atomic_write_frame:
  "atomic_write u p d m s = (s', r) \<Longrightarrow> same_but {p, with_extension p ''tmp''} s s'"
  unfolding atomic_write_def Let_def
  by (auto elim!: then_do_cases dest!: fs_write_frame set_mode_frame fs_rename_frame
      intro: same_but_trans elim: same_but_trans [of "{_}"])

lemma atomic_write_Ok:
  assumes "atomic_write u p d m s = (s', Ok ())"
  shows "\<exists>f. fs_files s' p = Some f \<and> file_data f = d \<and> (u \<longrightarrow> file_mode f = m)"
proof -
  let ?t = "with_extension p ''tmp''"
  from assms obtain s1 s2 where 1: "fs_write ?t d s = (s1, Ok ())" and 2: "set_mode u ?t m s1 = (s2, Ok ())"
    and 3: "fs_rename ?t p s2 = (s', Ok ())"
    unfolding atomic_write_def Let_def then_do_Ok by auto
  from fs_write_Ok [OF 1] obtain f where f: "fs_files s1 ?t = Some f" "file_data f = d" by auto
  then have "\<exists>g. fs_files s2 ?t = Some g \<and> file_data g = d \<and> (u \<longrightarrow> file_mode g = m)"
    using 2 fs_set_permissions_Ok [of ?t m s1 s2] by (auto simp: set_mode_def split: if_splits)
  then show ?thesis using fs_rename_Ok [OF 3] by simp
qed

lemma atomic_write_Err:
  assumes "atomic_write u p d m s = (s', Err e)" and "with_extension p ''tmp'' \<noteq> p"
  shows "fs_files s' p = fs_files s p"
  using assms unfolding atomic_write_def Let_def
  by (auto elim!: then_do_cases dest!: fs_write_frame set_mode_frame fs_rename_Err simp: same_but_def)

text \<open>
  C22: Files of the agent are replaced atomically. Whatever call fails and however much of the temporary file was
  written, after \<open>atomic_write\<close> the destination is what it was, or it holds exactly the new bytes, on Unix with the
  requested permissions; it is the new one exactly when the operation reports success. No path but the destination
  and its temporary sibling changes.
\<close>

theorem writes_are_atomic:
  assumes "atomic_write u p d m s = (s', r)" and "with_extension p ''tmp'' \<noteq> p"
  shows "(case r of
      Inr _ \<Rightarrow> (\<exists>f. fs_files s' p = Some f \<and> file_data f = d \<and> (u \<longrightarrow> file_mode f = m))
    | Inl _ \<Rightarrow> fs_files s' p = fs_files s p)
    \<and> (\<forall>q. q \<noteq> p \<and> q \<noteq> with_extension p ''tmp'' \<longrightarrow> fs_files s' q = fs_files s q)"
  using atomic_write_Ok [of u p d m s s'] atomic_write_Err [OF _ assms(2), of u d m s s'] atomic_write_frame [OF assms(1)] assms(1)
  by (auto simp: same_but_def split: sum.splits)

definition sample_fs :: "(nat \<Rightarrow> (nat \<times> string) option) \<Rightarrow> fs" where
  "sample_fs faults = \<lparr> fs_files = (\<lambda>p. None), fs_dirs = {[], [''cfg'']}, fs_umask = 18, fs_ops = 0, fs_faults = faults \<rparr>"

theorem writes_are_atomic_witness:
  "\<exists>s'. atomic_write True [''cfg'', ''config.json''] ''data'' MODE_CONFIG
        (sample_fs (\<lambda>n. if n = 0 then Some (3, ''disk full'') else None)) = (s', Err (Io ''disk full''))
    \<and> fs_files s' [''cfg'', ''config.json''] = None \<and> fs_files s' [''cfg'', ''config.tmp''] \<noteq> None"
proof -
  let ?s = "sample_fs (\<lambda>n. if n = 0 then Some (3, ''disk full'') else None)"
  have t: "with_extension [''cfg'', ''config.json''] ''tmp'' = [''cfg'', ''config.tmp'']"
    by (simp add: with_extension_def file_stem_def)
  then have ne: "with_extension [''cfg'', ''config.json''] ''tmp'' \<noteq> [''cfg'', ''config.json'']" by simp
  have "\<exists>s'. atomic_write True [''cfg'', ''config.json''] ''data'' MODE_CONFIG ?s = (s', Err (Io ''disk full''))
      \<and> fs_files s' [''cfg'', ''config.tmp''] \<noteq> None"
    unfolding atomic_write_def Let_def t
    by (simp add: then_do_def fs_write_def fs_call_def sample_fs_def writable_def put_file_def numeral_3_eq_3)
  then obtain s' where s': "atomic_write True [''cfg'', ''config.json''] ''data'' MODE_CONFIG ?s = (s', Err (Io ''disk full''))"
      "fs_files s' [''cfg'', ''config.tmp''] \<noteq> None" by blast
  from writes_are_atomic [OF s'(1) ne] have "fs_files s' [''cfg'', ''config.json''] = None"
    by (simp add: sample_fs_def)
  with s' show ?thesis by blast
qed

section \<open>The store in a working directory\<close>

text \<open>
  A directory the store can work in: no file stands where the directory or one of its ancestors should be, and none
  of the four paths of the store is a directory.
\<close>

definition usable :: "agent_store \<Rightarrow> fs \<Rightarrow> bool" where
  "usable st s \<longleftrightarrow> (\<forall>q \<in> set (path_prefixes (store_dir st)). fs_files s q = None)
     \<and> (\<forall>p \<in> {config_path st, config_tmp st, identity_path st, identity_tmp st}. p \<notin> fs_dirs s)"

lemma atomic_write_succeeds:
  assumes "no_faults s" and "writable s p" and "writable s (with_extension p ''tmp'')"
  shows "\<exists>s'. atomic_write u p d m s = (s', Ok ())"
proof -
  let ?t = "with_extension p ''tmp''"
  obtain s1 where 1: "fs_write ?t d s = (s1, Ok ())" using fs_write_succeeds [OF assms(1,3)] by blast
  note n1 = no_faults_keep [OF assms(1) fs_write_frame [OF 1]]
  obtain f where f: "fs_files s1 ?t = Some f" using fs_write_Ok [OF 1] by auto
  obtain s2 where 2: "set_mode u ?t m s1 = (s2, Ok ())"
    using fs_set_permissions_succeeds [OF n1 f] by (cases u) (auto simp: set_mode_def)
  have "fs_files s2 ?t \<noteq> None" "fs_dirs s2 = fs_dirs s"
    using f 2 fs_set_permissions_Ok [of ?t m s1 s2] fs_keep_dirs(1) [OF 1] fs_keep_dirs(2) [of ?t m s1 s2]
    by (auto simp: set_mode_def split: if_splits)
  then obtain s3 where "fs_rename ?t p s2 = (s3, Ok ())"
    using fs_rename_succeeds [OF no_faults_keep [OF n1 set_mode_frame [OF 2]], of ?t _ p] assms(2)
    by (auto simp: writable_def)
  with 1 2 show ?thesis by (simp add: atomic_write_def then_do_def)
qed

lemma config_write_keeps_identity:
  assumes "atomic_write u (config_path st) d m s = (s', r)"
  shows "fs_files s' (identity_path st) = fs_files s (identity_path st)"
proof -
  have "identity_path st \<notin> {config_path st, with_extension (config_path st) ''tmp''}"
    unfolding config_tmp_def [symmetric] by (simp add: store_paths)
  then show ?thesis using atomic_write_frame [OF assms] unfolding same_but_def by blast
qed

lemma ensure_dir_ready:
  assumes "no_faults s" and "usable st s"
  shows "\<exists>s'. ensure_dir st s = (s', Ok ()) \<and> no_faults s' \<and> same_but {} s s'
    \<and> (\<forall>p \<in> {config_path st, config_tmp st, identity_path st, identity_tmp st}. writable s' p)"
proof -
  obtain s' where e: "ensure_dir st s = (s', Ok ())"
    using fs_create_dir_all_succeeds assms unfolding ensure_dir_def usable_def by blast
  note fr = fs_create_dir_all_frame [OF e [unfolded ensure_dir_def]]
  have "writable s' p" if "p \<in> {config_path st, config_tmp st, identity_path st, identity_tmp st}" for p
  proof -
    have p: "butlast p = store_dir st" "length p = Suc (length (store_dir st))" "p \<noteq> []"
      using that by (auto simp: store_paths)
    have "p \<notin> fs_dirs s'"
      using that assms(2) fs_create_dir_all_dirs [OF e [unfolded ensure_dir_def]] prefix_length [of p "store_dir st"] p(2)
      by (auto simp: usable_def)
    with p fs_create_dir_all_Ok [OF e [unfolded ensure_dir_def]] show ?thesis by (simp add: writable_def)
  qed
  with e fr no_faults_keep [OF assms(1) fr] show ?thesis by blast
qed

lemma save_then_load:
  assumes "no_faults s" and "usable st s"
    and "config_to_string js c = Ok txt" and "config_from_str js txt = Ok c" and "valid_utf8 txt"
  shows "\<exists>s'. save_config js u st c s = (s', Ok ()) \<and> config_exists st s' \<and> snd (load_config js st s') = Ok c
    \<and> fs_files s' (identity_path st) = fs_files s (identity_path st)"
proof -
  obtain s1 where s1: "ensure_dir st s = (s1, Ok ())" "no_faults s1" "same_but {} s s1"
      "writable s1 (config_path st)" "writable s1 (config_tmp st)"
    using ensure_dir_ready [OF assms(1,2)] by auto
  obtain s2 where s2: "atomic_write u (config_path st) txt MODE_CONFIG s1 = (s2, Ok ())"
    using atomic_write_succeeds [OF s1(2,4) s1(5) [unfolded config_tmp_def]] by blast
  obtain f where f: "fs_files s2 (config_path st) = Some f" "file_data f = txt" using atomic_write_Ok [OF s2] by auto
  note fr = atomic_write_frame [OF s2]
  have "no_faults s2" using no_faults_keep [OF s1(2) fr] .
  then have "snd (load_config js st s2) = Ok c"
    using f assms(4,5) fs_read_eq [of s2 "config_path st" f] by (simp add: load_config_def then_do_def no_faults_def)
  moreover have "fs_files s2 (identity_path st) = fs_files s (identity_path st)"
    using config_write_keeps_identity [OF s2] s1(3) by (simp add: same_but_def)
  moreover have "save_config js u st c s = (s2, Ok ())" using s1(1) s2 assms(3) by (simp add: save_config_def then_do_def)
  ultimately show ?thesis using f by (auto simp: config_exists_def fs_exists_def)
qed

text \<open>
  C23: A saved configuration is read back. In a usable directory, whatever it already holds, saving succeeds, loading
  afterwards returns the same configuration, and the identity key is untouched.
\<close>

theorem config_roundtrips:
  assumes "no_faults s" and "usable st s"
    and "config_to_string js c = Ok txt" and "config_from_str js txt = Ok c" and "valid_utf8 txt"
  shows "\<exists>s'. save_config js u st c s = (s', Ok ()) \<and> config_exists st s' \<and> snd (load_config js st s') = Ok c
    \<and> fs_files s' (identity_path st) = fs_files s (identity_path st)"
  by (rule save_then_load [OF assms])

definition sample_json :: config_json where
  "sample_json = \<lparr> config_to_string = (\<lambda>c. Ok (device_id c)), config_from_str = (\<lambda>s. Ok (agent_config_default\<lparr> device_id := s \<rparr>)) \<rparr>"

lemma sample_fs_usable: "no_faults (sample_fs (\<lambda>n. None))" "usable (store_at [''cfg'']) (sample_fs f)"
  by (simp_all add: no_faults_def sample_fs_def usable_def store_paths store_at_def path_prefixes_def)

theorem config_roundtrips_witness:
  "\<exists>s'. save_config sample_json True (store_at [''cfg'']) (agent_config_default\<lparr> device_id := ''pc'' \<rparr>) (sample_fs (\<lambda>n. None)) = (s', Ok ())
    \<and> snd (load_config sample_json (store_at [''cfg'']) s') = Ok (agent_config_default\<lparr> device_id := ''pc'' \<rparr>)"
proof -
  let ?c = "agent_config_default\<lparr> device_id := ''pc'' \<rparr>"
  have j: "config_to_string sample_json ?c = Ok ''pc''" "config_from_str sample_json ''pc'' = Ok ?c" "valid_utf8 ''pc''"
    by (simp_all add: sample_json_def valid_utf8_ascii ascii_def)
  show ?thesis using config_roundtrips [OF sample_fs_usable j, of True] by blast
qed

section \<open>The identity is created once\<close>

text \<open>
  The first run. In a usable directory without an identity file, a new identity is generated, written and
  returned; on Unix the key file is readable and writable by its owner only. If the random source fails, nothing is
  written.
\<close>

theorem first_run_creates_identity:
  assumes "no_faults s" and "usable st s" and "\<not> fs_exists s (identity_path st)"
  shows "case entropy of
      Inr b \<Rightarrow> \<exists>s' f. load_or_create_identity lib entropy u st s = (s', Ok (from_secret_bytes lib b))
        \<and> fs_files s' (identity_path st) = Some f \<and> file_data f = secret_hex lib (from_secret_bytes lib b)
        \<and> (u \<longrightarrow> file_mode f = MODE_KEY) \<and> fs_files s' (identity_tmp st) = None
    | Inl e \<Rightarrow> load_or_create_identity lib entropy u st s = (s, Err (Crypto (''failed to gather entropy: '' @ e)))"
proof (cases entropy)
  case (Inl e)
  then show ?thesis using assms(3) by (simp add: load_or_create_identity_def generate_def)
next
  case (Inr b)
  let ?i = "from_secret_bytes lib b"
  obtain s1 where s1: "ensure_dir st s = (s1, Ok ())" "no_faults s1" "writable s1 (identity_path st)"
      "writable s1 (identity_tmp st)"
    using ensure_dir_ready [OF assms(1,2)] by auto
  obtain s2 where s2: "atomic_write u (identity_path st) (secret_hex lib ?i) MODE_KEY s1 = (s2, Ok ())"
    using atomic_write_succeeds [OF s1(2,3) s1(4) [unfolded identity_tmp_def]] by blast
  obtain s3 where "fs_rename (identity_tmp st) (identity_path st) s3 = (s2, Ok ())"
    using s2 unfolding atomic_write_def Let_def then_do_Ok identity_tmp_def by auto
  then have "fs_files s2 (identity_tmp st) = None" using fs_rename_Ok by (auto simp: store_paths)
  with atomic_write_Ok [OF s2] s1(1) s2 assms(3) Inr show ?thesis
    by (auto simp: load_or_create_identity_def generate_def then_do_def)
qed

text \<open>The witness runs it on an empty directory.\<close>

theorem first_run_creates_identity_witness:
  "\<exists>s' f. load_or_create_identity sample_lib (Ok [1]) True (store_at [''cfg'']) (sample_fs (\<lambda>n. None)) = (s', Ok (from_secret_bytes sample_lib [1]))
     \<and> fs_files s' (identity_path (store_at [''cfg''])) = Some f \<and> file_mode f = MODE_KEY"
proof -
  have "\<not> fs_exists (sample_fs (\<lambda>n. None)) (identity_path (store_at [''cfg'']))"
    by (simp add: fs_exists_def sample_fs_def store_paths store_at_def)
  from first_run_creates_identity [OF sample_fs_usable this, where entropy = "Ok [1]" and lib = sample_lib and u = True]
  show ?thesis unfolding sum.case by blast
qed

text \<open>What the process does with the store after that: saving and loading, under any schedule of faults.\<close>

datatype store_op = SaveConfig agent_config | LoadConfig | LoadIdentity "(bytes, string) result"

fun store_step :: "'sk identity_lib \<Rightarrow> config_json \<Rightarrow> bool \<Rightarrow> agent_store \<Rightarrow> store_op \<Rightarrow> fs \<Rightarrow> fs" where
  "store_step lib js u st (SaveConfig c) s = fst (save_config js u st c s)"
| "store_step lib js u st LoadConfig s = fst (load_config js st s)"
| "store_step lib js u st (LoadIdentity ent) s = fst (load_or_create_identity lib ent u st s)"

definition store_run :: "'sk identity_lib \<Rightarrow> config_json \<Rightarrow> bool \<Rightarrow> agent_store \<Rightarrow> store_op list \<Rightarrow> fs \<Rightarrow> fs" where
  "store_run lib js u st ops s = fold (store_step lib js u st) ops s"

lemma save_config_keeps_identity:
  "save_config js u st c s = (s', r) \<Longrightarrow> fs_files s' (identity_path st) = fs_files s (identity_path st)"
  unfolding save_config_def ensure_dir_def
  by (auto elim!: then_do_cases dest!: fs_create_dir_all_frame config_write_keeps_identity
      simp: same_but_def split: sum.splits)

lemma save_config_frame: "save_config js u st c s = (s', r) \<Longrightarrow> same_but {config_path st, config_tmp st} s s'"
  unfolding save_config_def ensure_dir_def config_tmp_def
  by (auto elim!: then_do_cases dest!: fs_create_dir_all_frame atomic_write_frame intro: same_but_trans split: sum.splits)

lemma load_config_keeps_files: "load_config js st s = (s', r) \<Longrightarrow> fs_files s' = fs_files s"
  unfolding load_config_def
  by (auto elim!: then_do_cases dest!: fs_read_frame simp: same_but_def split: sum.splits)

lemma load_identity_keeps_files:
  "fs_exists s (identity_path st) \<Longrightarrow> load_or_create_identity lib ent u st s = (s', r) \<Longrightarrow> fs_files s' = fs_files s"
  unfolding load_or_create_identity_def
  by (auto elim!: then_do_cases dest!: fs_read_frame simp: same_but_def)

lemma store_run_keeps_identity:
  "fs_files s (identity_path st) = Some f \<Longrightarrow> fs_files (store_run lib js u st ops s) (identity_path st) = Some f"
  unfolding store_run_def
proof (induction ops arbitrary: s)
  case (Cons x ops)
  have "fs_files (store_step lib js u st x s) (identity_path st) = Some f"
  proof (cases x)
    case (SaveConfig c)
    then show ?thesis using Cons.prems save_config_keeps_identity [of js u st c s] by (metis prod.collapse store_step.simps(1))
  next
    case LoadConfig
    then show ?thesis using Cons.prems load_config_keeps_files [of js st s] by (metis prod.collapse store_step.simps(2))
  next
    case (LoadIdentity ent)
    have "fs_exists s (identity_path st)" using Cons.prems by (simp add: fs_exists_def)
    then show ?thesis using Cons.prems LoadIdentity load_identity_keeps_files [of s st lib ent u]
      by (metis prod.collapse store_step.simps(3))
  qed
  with Cons.IH show ?case by simp
qed simp

lemma created_identity_on_disk:
  assumes "load_or_create_identity lib (Ok b) u st s = (s1, Ok i)" and "\<not> fs_exists s (identity_path st)"
  shows "i = from_secret_bytes lib b \<and> (\<exists>f. fs_files s1 (identity_path st) = Some f \<and> file_data f = secret_hex lib i)"
  using assms
  by (auto simp: load_or_create_identity_def generate_def then_do_Ok dest: atomic_write_Ok)



section \<open>The temporary key file\<close>

text \<open>
  Between the write of the temporary file and the call that restricts its permissions the secret key is on disk with
  the default permissions of the process: interrupted there, the program leaves it behind, readable by everyone under
  the usual mask 022 (mode 0644 is 420).
\<close>

theorem key_left_readable:
  "let s = sample_fs (\<lambda>n. if n = 2 then Some (0, ''interrupted'') else None);
       s' = fst (load_or_create_identity lib (Ok b) True (store_at [''cfg'']) s) in
     fs_files s' (identity_tmp (store_at [''cfg'']))
       = Some \<lparr> file_data = secret_hex lib (from_secret_bytes lib b), file_mode = 420 \<rparr>"
proof -
  have "Bit_Operations.and 438 18 = (18 :: nat)" by simp
  show ?thesis by (simp add: Let_def load_or_create_identity_def generate_def then_do_def ensure_dir_def fs_create_dir_all_def fs_call_def sample_fs_def fs_exists_def store_paths store_at_def path_prefixes_def atomic_write_def fs_write_def writable_def put_file_def set_mode_def fs_set_permissions_def with_extension_def file_stem_def)
qed

end
