(* ===== verification/Startup.thy ===== *)
theory Startup
  imports Store
begin

text \<open>
  What the agent does with its host at start-up: the launch-at-login entry (\<open>crates/core/src/autostart.rs\<close>), for every
  target platform, and the single-instance lock (\<open>crates/core/src/single_instance.rs\<close>). The advisory lock of the
  operating system (fs4) is a parameter; \<open>lock_laws\<close> states that at most one open file holds the lock of a path.
\<close>

section \<open>Launch at login\<close>

definition LABEL :: string where "LABEL = ''com.desksync.agent''"

datatype target_os = OsMacos | OsLinux | OsWindows | OsOther

text \<open>The executable is given by the text of its path (\<open>Path::display\<close>).\<close>

record autostart_entry =
  exec_path :: string
  entry_dir :: path

definition with_dir :: "string \<Rightarrow> path \<Rightarrow> autostart_entry" where
  "with_dir exec d = \<lparr> exec_path = exec, entry_dir = d \<rparr>"

fun entry_file_name :: "target_os \<Rightarrow> string" where
  "entry_file_name OsMacos = LABEL @ ''.plist''"
| "entry_file_name OsLinux = ''desksync-agent.desktop''"
| "entry_file_name OsWindows = ''DeskSyncAgent.cmd''"
| "entry_file_name OsOther = ''desksync-agent.autostart''"

definition quoted :: "string \<Rightarrow> string" where "quoted s = [CHR 0x22] @ s @ [CHR 0x22]"
definition line :: "string \<Rightarrow> string" where "line s = s @ [CHR 0x0A]"
definition crlf_line :: "string \<Rightarrow> string" where "crlf_line s = s @ [CHR 0x0D, CHR 0x0A]"

fun render_entry :: "target_os \<Rightarrow> string \<Rightarrow> string" where
  "render_entry OsMacos exec = concat (List.map line
     [''<?xml version='' @ quoted ''1.0'' @ '' encoding='' @ quoted ''UTF-8'' @ ''?>'',
      ''<!DOCTYPE plist PUBLIC '' @ quoted ''-//Apple//DTD PLIST 1.0//EN'' @ '' ''
        @ quoted ''http://www.apple.com/DTDs/PropertyList-1.0.dtd'' @ ''>'',
      ''<plist version='' @ quoted ''1.0'' @ ''>'',
      ''<dict>'',
      ''    <key>Label</key>'',
      ''    <string>'' @ LABEL @ ''</string>'',
      ''    <key>ProgramArguments</key>'',
      ''    <array>'',
      ''        <string>'' @ exec @ ''</string>'',
      ''    </array>'',
      ''    <key>RunAtLoad</key>'',
      ''    <true/>'',
      ''    <key>KeepAlive</key>'',
      ''    <true/>'',
      ''</dict>'',
      ''</plist>''])"
| "render_entry OsLinux exec = concat (List.map line
     [''[Desktop Entry]'', ''Type=Application'', ''Name=DeskSync Agent'', ''Exec='' @ exec, ''Terminal=false'',
      ''X-GNOME-Autostart-enabled=true''])"
| "render_entry OsWindows exec = concat (List.map crlf_line
     [''@echo off'', ''start '' @ quoted [] @ '' '' @ quoted exec])"
| "render_entry OsOther exec = line (''exec='' @ exec)"

text \<open>The directories of the user, as the operating system reports them.\<close>

record user_dirs =
  home_dir :: "path option"
  config_dir :: "path option"
  data_dir :: "path option"

fun default_dir :: "target_os \<Rightarrow> user_dirs \<Rightarrow> path agent_result" where
  "default_dir OsMacos d = bind_result (ok_or (home_dir d) (Config ''no home directory''))
     (\<lambda>h. Ok (h @ [''Library'', ''LaunchAgents'']))"
| "default_dir OsLinux d = bind_result (ok_or (config_dir d) (Config ''no config directory'')) (\<lambda>c. Ok (c @ [''autostart'']))"
| "default_dir OsWindows d = bind_result (ok_or (data_dir d) (Config ''no data directory''))
     (\<lambda>c. Ok (c @ [''Microsoft'', ''Windows'', ''Start Menu'', ''Programs'', ''Startup'']))"
| "default_dir OsOther d = Err (Config ''autostart is not supported on this platform'')"

definition for_current_exe :: "target_os \<Rightarrow> user_dirs \<Rightarrow> (string, string) result \<Rightarrow> autostart_entry agent_result" where
  "for_current_exe os d exe = (case exe of
     Inl e \<Rightarrow> Err (Io e)
   | Inr x \<Rightarrow> bind_result (default_dir os d) (\<lambda>p. Ok (with_dir x p)))"

definition entry_path :: "target_os \<Rightarrow> autostart_entry \<Rightarrow> path" where
  "entry_path os a = path_join (entry_dir a) (entry_file_name os)"

definition is_enabled :: "target_os \<Rightarrow> autostart_entry \<Rightarrow> fs \<Rightarrow> bool" where
  "is_enabled os a s = fs_exists s (entry_path os a)"

definition entry_contents :: "target_os \<Rightarrow> autostart_entry \<Rightarrow> string" where
  "entry_contents os a = render_entry os (exec_path a)"

definition enable :: "target_os \<Rightarrow> autostart_entry \<Rightarrow> fs \<Rightarrow> fs \<times> unit agent_result" where
  "enable os a s = then_do (fs_create_dir_all (entry_dir a) s) (\<lambda>_. fs_write (entry_path os a) (entry_contents os a))"

definition disable :: "target_os \<Rightarrow> autostart_entry \<Rightarrow> fs \<Rightarrow> fs \<times> unit agent_result" where
  "disable os a s = (if fs_exists s (entry_path os a) then fs_remove_file (entry_path os a) s else (s, Ok ()))"

text \<open>A host on which the entry can be written: no file in the way of its directory, no directory in its place.\<close>

definition entry_usable :: "target_os \<Rightarrow> autostart_entry \<Rightarrow> fs \<Rightarrow> bool" where
  "entry_usable os a s \<longleftrightarrow> (\<forall>q \<in> set (path_prefixes (entry_dir a)). fs_files s q = None) \<and> entry_path os a \<notin> fs_dirs s"

lemma enable_works:
  assumes "no_faults s" and "entry_usable os a s"
  shows "\<exists>s' f. enable os a s = (s', Ok ()) \<and> no_faults s' \<and> entry_usable os a s' \<and> same_but {entry_path os a} s s'
    \<and> fs_files s' (entry_path os a) = Some f \<and> file_data f = entry_contents os a"
proof -
  let ?p = "entry_path os a"
  have p: "butlast ?p = entry_dir a" "?p \<noteq> []" "?p \<notin> set (path_prefixes (entry_dir a))"
    using prefix_length [of ?p "entry_dir a"] by (auto simp: entry_path_def path_join_def)
  obtain s1 where 1: "fs_create_dir_all (entry_dir a) s = (s1, Ok ())"
    using fs_create_dir_all_succeeds assms unfolding entry_usable_def by blast
  note fr1 = fs_create_dir_all_frame [OF 1]
  have w: "writable s1 ?p"
    using p fs_create_dir_all_Ok [OF 1] fs_create_dir_all_dirs [OF 1] assms(2) by (auto simp: writable_def entry_usable_def)
  obtain s2 where 2: "fs_write ?p (entry_contents os a) s1 = (s2, Ok ())"
    using fs_write_succeeds [OF no_faults_keep [OF assms(1) fr1] w] by blast
  note fr2 = fs_write_frame [OF 2]
  have "fs_files s2 q = None" if "q \<in> set (path_prefixes (entry_dir a))" for q
    using that p(3) assms(2) fr1 fr2 by (metis entry_usable_def same_but_def empty_iff singletonD)
  then have "entry_usable os a s2"
    using w fs_keep_dirs(1) [OF 2] by (simp add: entry_usable_def writable_def)
  moreover have "same_but {?p} s s2" using same_but_trans [OF fr1 fr2] by simp
  ultimately show ?thesis
    using 1 2 fs_write_Ok [OF 2] no_faults_keep [OF assms(1)] by (auto simp: enable_def then_do_def)
qed

lemma enable_keeps_mode:
  assumes "enable os a s = (s', Ok ())" and "fs_files s (entry_path os a) = Some f" and "fs_files s' (entry_path os a) = Some g"
  shows "file_mode g = file_mode f"
proof -
  obtain s1 where 1: "fs_create_dir_all (entry_dir a) s = (s1, Ok ())"
      and 2: "fs_write (entry_path os a) (entry_contents os a) s1 = (s', Ok ())"
    using assms(1) by (auto simp: enable_def then_do_Ok)
  have "fs_files s1 (entry_path os a) = Some f" using fs_create_dir_all_frame [OF 1] assms(2) by (simp add: same_but_def)
  with fs_write_mode [OF 2] assms(3) show ?thesis by simp
qed

lemma disable_works:
  assumes "no_faults s" and "entry_usable os a s"
  shows "\<exists>s'. disable os a s = (s', Ok ()) \<and> \<not> is_enabled os a s' \<and> no_faults s'
    \<and> same_but {entry_path os a} s s'"
proof (cases "fs_exists s (entry_path os a)")
  case True
  with assms(2) have "fs_files s (entry_path os a) \<noteq> None" by (simp add: fs_exists_def entry_usable_def)
  with assms True show ?thesis
    by (auto simp: disable_def is_enabled_def fs_exists_def entry_usable_def fs_remove_file_def no_faults_call
        same_but_def no_faults_def)
next
  case False
  then show ?thesis using assms(1) by (simp add: disable_def is_enabled_def)
qed

text \<open>
  Launch at login can be switched on and off on every platform. On a usable host enabling succeeds and leaves
  exactly the rendered entry; enabling again changes nothing; disabling then removes it and disabling twice is no
  error. No other file of the host changes.
\<close>

theorem autostart_toggles:
  assumes "no_faults s" and "entry_usable os a s"
  shows "\<exists>s1 s2 s3 s4. enable os a s = (s1, Ok ()) \<and> is_enabled os a s1
      \<and> map_option file_data (fs_files s1 (entry_path os a)) = Some (render_entry os (exec_path a))
      \<and> enable os a s1 = (s2, Ok ()) \<and> fs_files s2 = fs_files s1
      \<and> disable os a s2 = (s3, Ok ()) \<and> \<not> is_enabled os a s3
      \<and> disable os a s3 = (s4, Ok ()) \<and> s4 = s3
      \<and> (\<forall>q. q \<noteq> entry_path os a \<longrightarrow> fs_files s3 q = fs_files s q)"
proof -
  let ?p = "entry_path os a"
  obtain s1 f1 where 1: "enable os a s = (s1, Ok ())" "no_faults s1" "entry_usable os a s1" "same_but {?p} s s1"
      "fs_files s1 ?p = Some f1" "file_data f1 = entry_contents os a"
    using enable_works [OF assms] by blast
  obtain s2 f2 where 2: "enable os a s1 = (s2, Ok ())" "no_faults s2" "entry_usable os a s2" "same_but {?p} s1 s2"
      "fs_files s2 ?p = Some f2" "file_data f2 = entry_contents os a"
    using enable_works [OF 1(2,3)] by blast
  obtain s3 where 3: "disable os a s2 = (s3, Ok ())" "\<not> is_enabled os a s3" "same_but {?p} s2 s3"
    using disable_works [OF 2(2,3)] by blast
  have "file_mode f2 = file_mode f1" using enable_keeps_mode [OF 2(1) 1(5) 2(5)] .
  then have "f2 = f1" using 1(6) 2(6) by simp
  then have "fs_files s2 = fs_files s1" using 1(5) 2(4,5) by (intro ext) (metis same_but_def singletonD)
  moreover have "disable os a s3 = (s3, Ok ())" using 3(2) by (simp add: disable_def is_enabled_def)
  moreover have "is_enabled os a s1" using 1(5) by (simp add: is_enabled_def fs_exists_def)
  moreover have "\<forall>q. q \<noteq> ?p \<longrightarrow> fs_files s3 q = fs_files s q"
    using 1(4) 2(4) 3(3) by (simp add: same_but_def)
  ultimately show ?thesis using 1 2(1) 3(1,2) by (auto simp: entry_contents_def)
qed

theorem autostart_toggles_witness:
  "\<exists>s1. enable OsLinux (with_dir ''/bin/agent'' [''cfg'']) (sample_fs (\<lambda>n. None)) = (s1, Ok ())
    \<and> is_enabled OsLinux (with_dir ''/bin/agent'' [''cfg'']) s1"
proof -
  have "entry_usable OsLinux (with_dir ''/bin/agent'' [''cfg'']) (sample_fs (\<lambda>n. None))"
    by (simp add: entry_usable_def sample_fs_def path_prefixes_def entry_path_def path_join_def with_dir_def)
  from autostart_toggles [OF sample_fs_usable(1) this] show ?thesis by blast
qed

text \<open>
  The path of the executable goes into the desktop entry as it is: a path with a space gives an \<open>Exec\<close> key whose
  first word, which the desktop runs, is only a part of the path.
\<close>

lemma linux_exec_unquoted:
  "\<exists>u v. render_entry OsLinux (dir @ '' '' @ name) = u @ line (''Exec='' @ dir @ '' '' @ name) @ v"
  by (rule exI [of _ "line ''[Desktop Entry]'' @ line ''Type=Application'' @ line ''Name=DeskSync Agent''"],
      rule exI [of _ "line ''Terminal=false'' @ line ''X-GNOME-Autostart-enabled=true''"]) simp

section \<open>The single-instance lock\<close>

text \<open>The advisory lock of the system: taking it answers whether it was free.\<close>

record 'w lock_api =
  try_lock_exclusive :: "'w \<Rightarrow> path \<Rightarrow> 'w \<times> (bool, string) result"
  unlock :: "'w \<Rightarrow> path \<Rightarrow> 'w"

record single_instance =
  si_path :: path

definition acquire :: "'w lock_api \<Rightarrow> path \<Rightarrow> fs \<times> 'w \<Rightarrow> (fs \<times> 'w) \<times> single_instance option agent_result" where
  "acquire api p sw = (case sw of (s, w) \<Rightarrow>
     (case (case path_parent p of Some d \<Rightarrow> fs_create_dir_all d s | None \<Rightarrow> (s, Ok ())) of
        (s1, Inl e) \<Rightarrow> ((s1, w), Err e)
      | (s1, Inr _) \<Rightarrow> (case fs_open_create p s1 of
          (s2, Inl e) \<Rightarrow> ((s2, w), Err e)
        | (s2, Inr _) \<Rightarrow> (case try_lock_exclusive api w p of
            (w', Inl e) \<Rightarrow> ((s2, w'), Err (Io e))
          | (w', Inr True) \<Rightarrow> ((s2, w'), Ok (Some \<lparr> si_path = p \<rparr>))
          | (w', Inr False) \<Rightarrow> ((s2, w'), Ok None)))))"

definition drop_instance :: "'w lock_api \<Rightarrow> single_instance \<Rightarrow> fs \<times> 'w \<Rightarrow> fs \<times> 'w" where
  "drop_instance api g sw = (case sw of (s, w) \<Rightarrow> (s, unlock api w (si_path g)))"

text \<open>
  The documented behaviour of the lock, for an abstraction \<open>held\<close> of the system to the set of locked paths.
\<close>

definition lock_laws :: "'w lock_api \<Rightarrow> ('w \<Rightarrow> path set) \<Rightarrow> bool" where
  "lock_laws api held \<longleftrightarrow>
     (\<forall>w p w' b. try_lock_exclusive api w p = (w', Ok b) \<longrightarrow> b = (p \<notin> held w) \<and> held w' = insert p (held w))
   \<and> (\<forall>w p w' e. try_lock_exclusive api w p = (w', Err e) \<longrightarrow> held w' = held w)
   \<and> (\<forall>w p. held (unlock api w p) = held w - {p})"

text \<open>
  Processes start (acquire), and end (their guard is dropped, or the system releases the lock for them). The guards
  alive are those of the processes that believe to be the running instance.
\<close>

datatype instance_op = Start path | Exit path

record 'w host_state =
  host_fs :: fs
  host_locks :: 'w
  guards :: "single_instance list"

fun instance_step :: "'w lock_api \<Rightarrow> instance_op \<Rightarrow> 'w host_state \<Rightarrow> 'w host_state" where
  "instance_step api (Start p) h = (case acquire api p (host_fs h, host_locks h) of
     ((s, w), r) \<Rightarrow> h\<lparr> host_fs := s, host_locks := w,
       guards := (case r of Inr (Some g) \<Rightarrow> g # guards h | _ \<Rightarrow> guards h) \<rparr>)"
| "instance_step api (Exit p) h = (if \<lparr> si_path = p \<rparr> \<in> set (guards h)
     then (case drop_instance api \<lparr> si_path = p \<rparr> (host_fs h, host_locks h) of
       (s, w) \<Rightarrow> h\<lparr> host_fs := s, host_locks := w, guards := remove1 \<lparr> si_path = p \<rparr> (guards h) \<rparr>)
     else h)"

definition one_guard_each :: "('w \<Rightarrow> path set) \<Rightarrow> 'w host_state \<Rightarrow> bool" where
  "one_guard_each held h \<longleftrightarrow> distinct (guards h) \<and> si_path ` set (guards h) = held (host_locks h)"

lemma acquire_locks:
  assumes "lock_laws api held" and "acquire api p (s, w) = ((s', w'), r)"
  shows "(case r of
      Inr (Some g) \<Rightarrow> g = \<lparr> si_path = p \<rparr> \<and> p \<notin> held w \<and> held w' = insert p (held w)
    | Inr None \<Rightarrow> p \<in> held w \<and> held w' = held w
    | Inl e \<Rightarrow> held w' = held w)"
proof -
  have err: "held w' = held w" if "try_lock_exclusive api w p = (w', Err e)" for e
    using assms(1) that unfolding lock_laws_def by blast
  have ok: "b = (p \<notin> held w) \<and> held w' = insert p (held w)" if "try_lock_exclusive api w p = (w', Ok b)" for b
    using assms(1) that unfolding lock_laws_def by blast
  show ?thesis using assms(2) unfolding acquire_def
    by (auto split: prod.splits sum.splits option.splits bool.splits dest: err dest!: ok)
qed

lemma si_path_inj: "inj (si_path :: single_instance \<Rightarrow> path)"
proof (rule injI)
  fix x y :: single_instance
  show "si_path x = si_path y \<Longrightarrow> x = y" by (cases x; cases y) simp
qed

lemma instance_step_invariant:
  assumes "lock_laws api held" and "one_guard_each held h"
  shows "one_guard_each held (instance_step api x h)"
proof (cases x)
  case (Start p)
  obtain s w r where a: "acquire api p (host_fs h, host_locks h) = ((s, w), r)" by (metis prod.collapse)
  have "\<lparr> si_path = p \<rparr> \<notin> set (guards h)" if "p \<notin> held (host_locks h)"
    using that assms(2) by (force simp: one_guard_each_def)
  with acquire_locks [OF assms(1) a] assms(2) show ?thesis
    unfolding Start instance_step.simps a one_guard_each_def
    by (auto split: sum.splits option.splits)
next
  case (Exit p)
  show ?thesis
  proof (cases "\<lparr> si_path = p \<rparr> \<in> set (guards h)")
    case True
    have "si_path ` (set (guards h) - {\<lparr> si_path = p \<rparr>}) = si_path ` set (guards h) - {p}"
      using image_set_diff [OF si_path_inj, of "set (guards h)" "{\<lparr> si_path = p \<rparr>}"] by simp
    with True assms show ?thesis unfolding Exit
      by (simp add: one_guard_each_def drop_instance_def lock_laws_def)
  qed (use assms Exit in simp)
qed

text \<open>
  C26: There is one running instance. Whatever sequence of processes starts and ends, and whatever the file system does,
  at most one guard is alive per lock file; and a start that meets no error becomes the running instance exactly when
  no guard is alive.
\<close>

theorem single_instance_exclusive:
  assumes "lock_laws api held" and "guards h = []" and "held (host_locks h) = {}"
    and "h' = fold (instance_step api) ops h"
    and "acquire api p (host_fs h', host_locks h') = (sw, Ok r)"
  shows "length (List.filter (\<lambda>g. si_path g = q) (guards h')) \<le> 1
    \<and> (r = (if \<exists>g \<in> set (guards h'). si_path g = p then None else Some \<lparr> si_path = p \<rparr>))"
proof -
  have "one_guard_each held h" using assms(2,3) by (simp add: one_guard_each_def)
  then have inv: "one_guard_each held h'"
    unfolding assms(4) by (induction ops arbitrary: h) (auto intro: instance_step_invariant [OF assms(1)])
  have "distinct (List.filter (\<lambda>g. si_path g = q) (guards h'))" using inv by (simp add: one_guard_each_def)
  moreover have "set (List.filter (\<lambda>g. si_path g = q) (guards h')) \<subseteq> {\<lparr> si_path = q \<rparr>}" by auto
  ultimately have "length (List.filter (\<lambda>g. si_path g = q) (guards h')) \<le> 1"
    by (metis card_mono card.empty card.insert distinct_card empty_iff finite.emptyI finite.insertI One_nat_def)
  moreover obtain s w where sw: "sw = (s, w)" by (cases sw)
  moreover have "r = (if p \<in> held (host_locks h') then None else Some \<lparr> si_path = p \<rparr>)"
    using acquire_locks [OF assms(1) assms(5) [unfolded sw]] by (auto split: option.splits)
  moreover have "p \<in> held (host_locks h') \<longleftrightarrow> (\<exists>g \<in> set (guards h'). si_path g = p)"
    using inv unfolding one_guard_each_def by (metis (no_types, lifting) imageE imageI)
  ultimately show ?thesis by simp
qed

text \<open>A lock table as a set of paths.\<close>

definition set_locks :: "path set lock_api" where
  "set_locks = \<lparr> try_lock_exclusive = (\<lambda>w p. (insert p w, Ok (p \<notin> w))), unlock = (\<lambda>w p. w - {p}) \<rparr>"

definition sample_host :: "path set host_state" where
  "sample_host = \<lparr> host_fs = sample_fs (\<lambda>n. None), host_locks = {}, guards = [] \<rparr>"

theorem single_instance_exclusive_witness:
  "\<exists>h sw. h = fold (instance_step set_locks) [Start [''cfg'', ''agent.lock'']] sample_host
    \<and> acquire set_locks [''cfg'', ''agent.lock''] (host_fs h, host_locks h) = (sw, Ok None)"
proof -
  let ?p = "[''cfg'', ''agent.lock'']"
  let ?h = "fold (instance_step set_locks) [Start ?p] sample_host"
  have l: "lock_laws set_locks (\<lambda>w. w)" by (auto simp: lock_laws_def set_locks_def)
  have i: "guards sample_host = []" "host_locks sample_host = {}" by (simp_all add: sample_host_def)
  have g: "\<lparr> si_path = ?p \<rparr> \<in> set (guards ?h)" and "\<exists>sw r. acquire set_locks ?p (host_fs ?h, host_locks ?h) = (sw, Ok r)"
    by (simp_all add: sample_host_def acquire_def set_locks_def sample_fs_def path_parent_def path_prefixes_def
        fs_create_dir_all_def fs_open_create_def fs_call_def writable_def put_file_def)
  then obtain sw r where a: "acquire set_locks ?p (host_fs ?h, host_locks ?h) = (sw, Ok r)" by blast
  have "\<exists>g \<in> set (guards ?h). si_path g = ?p" using g by (metis single_instance.select_convs(1))
  with single_instance_exclusive [OF l i refl a, of ?p] have "r = None" by argo
  with a show ?thesis by blast
qed

end
