(* ===== verification/Daemon.thy ===== *)
theory Daemon
  imports Startup Session_Runtime
begin

text \<open>
  The process of the agent (\<open>crates/config-ui/src/main.rs\<close>): its configuration, the pairing mode, the developer tools
  built from the persisted registries, the heartbeat task, and the boot sequence that composes the store, the
  single-instance lock, launch at login, and the services. Errors are the chain of context messages of \<open>anyhow\<close>,
  the outermost first. Parameters: the environment variables and arguments of the process, the JSON decoders of the
  registries, the QR renderer, and those of the components.
\<close>

type_synonym error_chain = "string list"

section \<open>Configuration\<close>

definition env_or :: "environment \<Rightarrow> string \<Rightarrow> string \<Rightarrow> string" where
  "env_or env name dflt = (case env name of Some v \<Rightarrow> v | None \<Rightarrow> dflt)"

definition synthesized_config :: "environment \<Rightarrow> agent_config" where
  "synthesized_config env = agent_config_default\<lparr>
     device_id := env_or env ''DESKSYNC_DEVICE_ID'' ''unregistered'',
     backend_url := env_or env ''DESKSYNC_BACKEND_URL'' ''wss://localhost:8085/api/v1/signaling'' \<rparr>"

definition persist_synthesized :: "config_json \<Rightarrow> bool \<Rightarrow> environment \<Rightarrow> agent_store \<Rightarrow> fs \<Rightarrow> fs \<times> agent_config" where
  "persist_synthesized js u env st s = (fst (save_config js u st (synthesized_config env) s), synthesized_config env)"

definition daemon_config :: "config_json \<Rightarrow> bool \<Rightarrow> environment \<Rightarrow> agent_store \<Rightarrow> fs \<Rightarrow> fs \<times> agent_config" where
  "daemon_config js u env st s =
    (if config_exists st s
     then (case load_config js st s of
         (s', Inr c) \<Rightarrow> (s', c)
       | (s', Inl e) \<Rightarrow> persist_synthesized js u env st s')
     else persist_synthesized js u env st s)"

section \<open>Pairing\<close>

text \<open>What the pairing mode prints.\<close>

definition pairing_output :: "string \<Rightarrow> enrollment_outcome \<Rightarrow> string list" where
  "pairing_output qr out = (let ch = out_challenge out in
     [[CHR 0x0A] @ ''Scan this QR code with the DeskSync mobile app:'' @ [CHR 0x0A, CHR 0x0A] @ qr,
      ''Or enter the pairing details manually:'',
      ''  Pairing ID: '' @ pairing_id ch,
      ''  Code:       '' @ manual_code ch]
     @ (if expires_at ch \<noteq> [] then [''  Expires at: '' @ expires_at ch] else [])
     @ [[CHR 0x0A] @ ''Registered device id: '' @ out_device_id out @ [CHR 0x0A]])"

definition device_profile_of :: "'sk identity_lib \<Rightarrow> environment \<Rightarrow> string \<Rightarrow> 'sk device_identity \<Rightarrow> device_profile" where
  "device_profile_of lib env os i = \<lparr> profile_platform = detect_platform os, profile_name = detect_device_name env,
     profile_public_key = public_base64 lib i \<rparr>"

definition run_pairing :: "config_json \<Rightarrow> bool \<Rightarrow> 'w http_lib \<Rightarrow> json_lib \<Rightarrow> 'sk identity_lib \<Rightarrow> (string \<Rightarrow> (string, string) result)
    \<Rightarrow> environment \<Rightarrow> string \<Rightarrow> agent_store \<Rightarrow> agent_config \<Rightarrow> 'sk device_identity \<Rightarrow> fs \<times> 'w
    \<Rightarrow> (fs \<times> 'w) \<times> (string list, error_chain) result" where
  "run_pairing js u http jl lib qrcode env os st c i = (\<lambda>(s, w).
     case credentials_from_env env of
       Inl e \<Rightarrow> ((s, w), Err [backend_error_display e])
     | Inr creds \<Rightarrow> (case client_new http (api_url c) of
         Inl e \<Rightarrow> ((s, w), Err [''building backend client'', backend_error_display e])
       | Inr client \<Rightarrow> (case enrollment_run (client_api http jl client) creds (device_profile_of lib env os i) w of
           (w', Inl e) \<Rightarrow> ((s, w'), Err [''enrollment failed'', backend_error_display e])
         | (w', Inr out) \<Rightarrow> (let s' = fst (save_config js u st (c\<lparr> device_id := out_device_id out \<rparr>) s) in
             (case render_qr qrcode (qr_payload (out_challenge out)) of
               Inl e \<Rightarrow> ((s', w'), Err [''rendering pairing QR'', backend_error_display e])
             | Inr qr \<Rightarrow> ((s', w'), Ok (pairing_output qr out)))))))"

section \<open>Developer tools\<close>

text \<open>Reading a JSON array of registry items: an absent or invalid file gives no items.\<close>

definition load_items_file :: "(string \<Rightarrow> ('a list, string) result) \<Rightarrow> agent_store \<Rightarrow> string \<Rightarrow> fs \<Rightarrow> fs \<times> 'a list" where
  "load_items_file parse st name s = (case fs_read_to_string (path_join (store_dir st) name) s of
     (s', Inl e) \<Rightarrow> (s', [])
   | (s', Inr raw) \<Rightarrow> (s', (case parse raw of Inr items \<Rightarrow> items | Inl e \<Rightarrow> [])))"

definition load_workspaces :: "(string \<Rightarrow> (workspace list, string) result) \<Rightarrow> agent_store \<Rightarrow> fs \<Rightarrow> fs \<times> workspace list" where
  "load_workspaces parse st s = load_items_file parse st ''workspaces.json'' s"

definition load_ssh_hosts :: "(string \<Rightarrow> (ssh_host list, string) result) \<Rightarrow> agent_store \<Rightarrow> fs \<Rightarrow> fs \<times> ssh_host list" where
  "load_ssh_hosts parse st s = load_items_file parse st ''ssh_hosts.json'' s"

definition build_devtools :: "(string \<Rightarrow> (workspace list, string) result) \<Rightarrow> (string \<Rightarrow> (ssh_host list, string) result)
    \<Rightarrow> string \<Rightarrow> agent_store \<Rightarrow> fs \<Rightarrow> fs \<times> dev_service" where
  "build_devtools parse_ws parse_hosts os st s =
    (case load_workspaces parse_ws st s of (s1, wss) \<Rightarrow> case load_ssh_hosts parse_hosts st s1 of (s2, hs) \<Rightarrow>
      (s2, service_new
        (case workspace_from_items wss of Inr r \<Rightarrow> r | Inl e \<Rightarrow> workspace_new)
        (case host_from_items hs of Inr r \<Rightarrow> r | Inl e \<Rightarrow> host_new) os))"

section \<open>Heartbeats\<close>

record heartbeat_task =
  hb_device :: string
  hb_creds :: credentials
  hb_interval :: u64

definition heartbeat_plan :: "environment \<Rightarrow> agent_config \<Rightarrow> heartbeat_task option" where
  "heartbeat_plan env c =
    (if trim (device_id c) = [] \<or> device_id c = ''unregistered'' then None
     else (case credentials_from_env env of
       Inl e \<Rightarrow> None
     | Inr creds \<Rightarrow> Some \<lparr> hb_device = device_id c, hb_creds = creds, hb_interval = max (heartbeat_secs c) 5 \<rparr>))"

text \<open>The task starts with a client and a login, or not at all; then it runs one round per tick.\<close>

definition heartbeat_start :: "'w http_lib \<Rightarrow> json_lib \<Rightarrow> string \<Rightarrow> heartbeat_task \<Rightarrow> 'w \<Rightarrow> 'w \<times> (backend_client \<times> token_pair) option" where
  "heartbeat_start http jl base t w = (case client_new http base of
     Inl e \<Rightarrow> (w, None)
   | Inr c \<Rightarrow> (case api_login (client_api http jl c) w (email (hb_creds t)) (password (hb_creds t)) of
       (w1, Inl e) \<Rightarrow> (w1, None)
     | (w1, Inr tokens) \<Rightarrow> (w1, Some (c, tokens))))"

definition heartbeat_round :: "'w backend_api \<Rightarrow> heartbeat_task \<Rightarrow> token_pair \<Rightarrow> 'w \<Rightarrow> 'w \<times> token_pair" where
  "heartbeat_round api t tokens w = (case api_heartbeat api w (access_token tokens) (hb_device t) of
     (w1, Inr _) \<Rightarrow> (w1, tokens)
   | (w1, Inl _) \<Rightarrow> (case reauth api (hb_creds t) tokens w1 of
       (w2, Some tokens') \<Rightarrow> (fst (api_heartbeat api w2 (access_token tokens') (hb_device t)), tokens')
     | (w2, None) \<Rightarrow> (w2, tokens)))"

fun heartbeat_rounds :: "'w backend_api \<Rightarrow> heartbeat_task \<Rightarrow> nat \<Rightarrow> token_pair \<Rightarrow> 'w \<Rightarrow> 'w \<times> token_pair" where
  "heartbeat_rounds api t 0 tokens w = (w, tokens)"
| "heartbeat_rounds api t (Suc n) tokens w = (case heartbeat_round api t tokens w of
     (w1, tokens1) \<Rightarrow> heartbeat_rounds api t n tokens1 w1)"

section \<open>Boot\<close>

datatype 'sk boot_outcome = Paired "string list" | Running single_instance agent_config "'sk device_identity"

text \<open>Launch at login follows the configuration; failures are logged only.\<close>

definition reconcile_autostart :: "target_os \<Rightarrow> user_dirs \<Rightarrow> (string, string) result \<Rightarrow> agent_config \<Rightarrow> fs \<Rightarrow> fs" where
  "reconcile_autostart tos dirs exe c s = (case for_current_exe tos dirs exe of
     Inl e \<Rightarrow> s
   | Inr a \<Rightarrow> if autostart c then fst (enable tos a s) else fst (disable tos a s))"

text \<open>What the process is given.\<close>

record ('w, 'l, 'sk) boot_env =
  be_json :: config_json
  be_unix :: bool
  be_env :: environment
  be_args :: "string list"
  be_os :: string
  be_target :: target_os
  be_dirs :: user_dirs
  be_exe :: "(string, string) result"
  be_entropy :: "(bytes, string) result"
  be_lib :: "'sk identity_lib"
  be_http :: "'w http_lib"
  be_decoders :: json_lib
  be_qr :: "string \<Rightarrow> (string, string) result"
  be_lock :: "'l lock_api"

definition lock_path :: "agent_store \<Rightarrow> path" where
  "lock_path st = path_join (store_dir st) ''agent.lock''"

definition take_instance :: "('w, 'l, 'sk) boot_env \<Rightarrow> agent_store \<Rightarrow> agent_config \<Rightarrow> 'sk device_identity \<Rightarrow> fs \<times> 'l
    \<Rightarrow> (fs \<times> 'l) \<times> ('sk boot_outcome, error_chain) result" where
  "take_instance b st c i sl = (case acquire (be_lock b) (lock_path st) sl of
     (sl', Inl e) \<Rightarrow> (sl', Err [''acquiring single-instance lock'', agent_error_display e])
   | (sl', Inr None) \<Rightarrow> (sl', Err [''another DeskSync agent instance is already running''])
   | ((s', l'), Inr (Some g)) \<Rightarrow> ((reconcile_autostart (be_target b) (be_dirs b) (be_exe b) c s', l'), Ok (Running g c i)))"

definition boot_with :: "('w, 'l, 'sk) boot_env \<Rightarrow> agent_store \<Rightarrow> fs \<times> 'l \<times> 'w
    \<Rightarrow> (fs \<times> 'l \<times> 'w) \<times> ('sk boot_outcome, error_chain) result" where
  "boot_with b st = (\<lambda>(s, l, w). case daemon_config (be_json b) (be_unix b) (be_env b) st s of (s1, c) \<Rightarrow>
     (case validate_config c of
        Inl e \<Rightarrow> ((s1, l, w), Err [''invalid agent configuration'', e])
      | Inr _ \<Rightarrow> (case load_or_create_identity (be_lib b) (be_entropy b) (be_unix b) st s1 of
          (s2, Inl e) \<Rightarrow> ((s2, l, w), Err [''loading device identity'', agent_error_display e])
        | (s2, Inr i) \<Rightarrow>
            if length (be_args b) > 1 \<and> be_args b ! 1 = ''pair''
            then (case run_pairing (be_json b) (be_unix b) (be_http b) (be_decoders b) (be_lib b) (be_qr b) (be_env b) (be_os b) st c i (s2, w) of
                ((s3, w'), r) \<Rightarrow> ((s3, l, w'), map_sum id Paired r))
            else (case take_instance b st c i (s2, l) of ((s3, l'), r) \<Rightarrow> ((s3, l', w), r)))))"

definition boot :: "('w, 'l, 'sk) boot_env \<Rightarrow> fs \<times> 'l \<times> 'w \<Rightarrow> (fs \<times> 'l \<times> 'w) \<times> ('sk boot_outcome, error_chain) result" where
  "boot b slw = (case platform_default (config_dir (be_dirs b)) of
     Inl e \<Rightarrow> (slw, Err [''resolving config directory'', agent_error_display e])
   | Inr st \<Rightarrow> boot_with b st slw)"

section \<open>Services of the running daemon\<close>

text \<open>What the daemon wires after it has become the running instance; \<open>native\<close> is the build feature.\<close>

record services =
  sv_loop :: capture_loop
  sv_tools :: dev_service
  sv_heartbeat :: "heartbeat_task option"
  sv_sessions :: "(string \<times> string \<times> credentials) option"

definition wire_services :: "(string \<Rightarrow> (workspace list, string) result) \<Rightarrow> (string \<Rightarrow> (ssh_host list, string) result) \<Rightarrow> bool
    \<Rightarrow> environment \<Rightarrow> string \<Rightarrow> agent_store \<Rightarrow> agent_config \<Rightarrow> fs \<Rightarrow> fs \<times> services" where
  "wire_services parse_ws parse_hosts native env os st c s = (case build_devtools parse_ws parse_hosts os st s of (s', tools) \<Rightarrow>
     (s', \<lparr> sv_loop = loop_new \<lparr> set_monitor_id = None, set_target_fps = target_fps c, set_max_height = max_height c \<rparr>,
        sv_tools = tools,
        sv_heartbeat = heartbeat_plan env c,
        sv_sessions = (if native then (case credentials_from_env env of Inr creds \<Rightarrow> Some (api_url c, device_id c, creds) | Inl e \<Rightarrow> None)
                       else None) \<rparr>))"

text \<open>
  The agent runs from the start of its subsystems to the interrupt; the injector is started before and stopped after,
  and its failures do not matter.
\<close>

definition run_agent :: "'w agent \<Rightarrow> 'w subsystem \<Rightarrow> ('w \<Rightarrow> 'w) \<Rightarrow> 'w \<Rightarrow> 'w \<times> (unit, error_chain) result" where
  "run_agent a input_sub serving w =
    (let w1 = fst (sub_start input_sub w) in
     case agent_start a w1 of
       (w2, Inl e) \<Rightarrow> (w2, Err [''failed to start agent'', agent_error_display e])
     | (w2, Inr _) \<Rightarrow> (case agent_stop a (serving w2) of
         (w3, Inl e) \<Rightarrow> (w3, Err [''failed to stop agent cleanly'', agent_error_display e])
       | (w3, Inr _) \<Rightarrow> (fst (sub_stop input_sub w3), Ok ())))"

section \<open>Properties of the configuration\<close>

lemma trim_unregistered: "trim ''unregistered'' \<noteq> []"
  by (simp add: str_eval)

text \<open>A JSON form that reads a configuration back.\<close>

definition json_reads_back :: "config_json \<Rightarrow> agent_config \<Rightarrow> bool" where
  "json_reads_back js c \<longleftrightarrow> (\<exists>raw. config_to_string js c = Ok raw \<and> config_from_str js raw = Ok c \<and> valid_utf8 raw)"

text \<open>After a save in a usable directory without faults the configuration is there.\<close>

lemma saved_config:
  assumes "no_faults s" and "usable st s" and "json_reads_back js c"
  shows "\<exists>s'. save_config js u st c s = (s', Ok ()) \<and> config_exists st s' \<and> no_faults s' \<and> snd (load_config js st s') = Ok c"
proof -
  obtain raw where t: "config_to_string js c = Ok raw" "config_from_str js raw = Ok c" "valid_utf8 raw"
    using assms(3) unfolding json_reads_back_def by blast
  obtain s' where s': "save_config js u st c s = (s', Ok ())" "config_exists st s'" "snd (load_config js st s') = Ok c"
    using save_then_load [OF assms(1,2) t] by blast
  have "no_faults s'" using save_config_frame [OF s'(1)] no_faults_keep [OF assms(1)] by blast
  with s' show ?thesis by blast
qed

lemma daemon_config_stored:
  assumes "config_exists st s" and "snd (load_config js st s) = Ok c"
  shows "snd (daemon_config js u env st s) = c"
  using assms by (auto simp: daemon_config_def split: prod.splits)

lemma fresh_config:
  assumes "no_faults s" and "usable st s" and "\<not> config_exists st s" and "json_reads_back js (synthesized_config env)"
    and "daemon_config js u env st s = (s', c)"
  shows "c = synthesized_config env \<and> config_exists st s' \<and> snd (daemon_config js u env' st s') = c"
proof -
  obtain s1 where 1: "save_config js u st (synthesized_config env) s = (s1, Ok ())" "config_exists st s1"
      "snd (load_config js st s1) = Ok (synthesized_config env)"
    using saved_config [OF assms(1,2,4)] by blast
  then have "s' = s1" "c = synthesized_config env"
    using assms(3,5) by (simp_all add: daemon_config_def persist_synthesized_def)
  then show ?thesis using 1(2) daemon_config_stored [OF 1(2,3)] by blast
qed

text \<open>
  A fresh host boots with a valid configuration. Without overrides the synthesized configuration passes validation; it
  is persisted, and every later start reads that same configuration back, whatever the environment says by then.
\<close>

theorem fresh_config_persists:
  assumes "no_faults s" and "usable st s" and "\<not> config_exists st s" and "json_reads_back js (synthesized_config env)"
    and "daemon_config js u env st s = (s', c)"
  shows "c = synthesized_config env \<and> snd (daemon_config js u env' st s') = c
    \<and> (env ''DESKSYNC_DEVICE_ID'' = None \<and> env ''DESKSYNC_BACKEND_URL'' = None \<longrightarrow> validate_config c = Ok ())"
proof -
  note f = fresh_config [OF assms, of env']
  have "validate_config c = Ok ()" if "env ''DESKSYNC_DEVICE_ID'' = None" "env ''DESKSYNC_BACKEND_URL'' = None"
    using that trim_unregistered f unfolding validate_config_Ok
    by (simp add: synthesized_config_def env_or_def agent_config_default_def default_fps_def starts_with_def)
  with f show ?thesis by blast
qed

text \<open>A JSON form that knows one configuration.\<close>

definition one_config_json :: "agent_config \<Rightarrow> config_json" where
  "one_config_json c = \<lparr> config_to_string = (\<lambda>_. Ok ''c''), config_from_str = (\<lambda>_. Ok c) \<rparr>"

lemma one_config_reads_back: "json_reads_back (one_config_json c) c"
  by (simp add: json_reads_back_def one_config_json_def valid_utf8_ascii ascii_def)

lemma sample_fs_no_config: "\<not> config_exists (store_at [''cfg'']) (sample_fs f)"
  by (simp add: config_exists_def fs_exists_def sample_fs_def store_paths store_at_def)

theorem fresh_config_persists_witness:
  "\<exists>s' c. daemon_config (one_config_json (synthesized_config (\<lambda>n. None))) True (\<lambda>n. None) (store_at [''cfg'']) (sample_fs (\<lambda>n. None)) = (s', c)
    \<and> validate_config c = Ok ()"
proof -
  let ?js = "one_config_json (synthesized_config (\<lambda>n. None))" and ?s = "sample_fs (\<lambda>n. None)"
  obtain s' c where d: "daemon_config ?js True (\<lambda>n. None) (store_at [''cfg'']) ?s = (s', c)" by force
  from fresh_config_persists [OF sample_fs_usable sample_fs_no_config one_config_reads_back d] d show ?thesis by auto
qed

text \<open>
  A wrong override sticks. If the first start finds a signaling URL in its environment that is not a WebSocket URL, it
  fails, but it has persisted the URL: every later start fails the same way, even with a corrected environment.
\<close>

theorem bad_override_sticks:
  assumes "no_faults s" and "usable st s" and "\<not> config_exists st s"
    and "json_reads_back (be_json b) (synthesized_config (be_env b))"
    and "be_env b ''DESKSYNC_DEVICE_ID'' = None" and "be_env b ''DESKSYNC_BACKEND_URL'' = Some url"
    and "\<not> starts_with ''wss://'' url" and "\<not> starts_with ''ws://'' url"
  shows "\<exists>s'. boot_with b st (s, l, w) = ((s', l, w), Err [''invalid agent configuration'', ''backend_url must be a ws:// or wss:// URL''])
    \<and> snd (boot_with (b\<lparr> be_env := env' \<rparr>) st (s', l', w')) = Err [''invalid agent configuration'', ''backend_url must be a ws:// or wss:// URL'']"
proof -
  obtain s' c where d: "daemon_config (be_json b) (be_unix b) (be_env b) st s = (s', c)" by force
  note f = fresh_config [OF assms(1-4) d]
  have v: "validate_config c = Err ''backend_url must be a ws:// or wss:// URL''"
    using f assms(5-8) trim_unregistered by (simp add: synthesized_config_def env_or_def validate_config_def)
  obtain s2 where "daemon_config (be_json b) (be_unix b) env' st s' = (s2, c)" using f by (metis prod.collapse)
  with v d show ?thesis by (simp add: boot_with_def)
qed

text \<open>A boot environment on the sample host.\<close>

definition sample_boot :: "environment \<Rightarrow> (unit, path set, bytes) boot_env" where
  "sample_boot env = \<lparr> be_json = one_config_json (synthesized_config env), be_unix = True, be_env = env, be_args = [''agent''],
     be_os = ''linux'', be_target = OsOther, be_dirs = \<lparr> home_dir = None, config_dir = None, data_dir = None \<rparr>, be_exe = Ok ''x'',
     be_entropy = Ok (replicate 32 7), be_lib = sample_lib, be_http = sample_http, be_decoders = sample_decoders,
     be_qr = (\<lambda>s. Ok s), be_lock = set_locks \<rparr>"

theorem bad_override_sticks_witness:
  "\<exists>s'. snd (boot_with (sample_boot ((\<lambda>n. None)(''DESKSYNC_BACKEND_URL'' := Some ''http://h''))\<lparr> be_env := (\<lambda>n. None) \<rparr>) (store_at [''cfg'']) (s', {}, ()))
    = Err [''invalid agent configuration'', ''backend_url must be a ws:// or wss:// URL'']"
proof -
  let ?env = "(\<lambda>n. None)(''DESKSYNC_BACKEND_URL'' := Some ''http://h'')"
  have 1: "json_reads_back (be_json (sample_boot ?env)) (synthesized_config (be_env (sample_boot ?env)))"
    unfolding sample_boot_def boot_env.simps by (rule one_config_reads_back)
  have 2: "be_env (sample_boot ?env) ''DESKSYNC_DEVICE_ID'' = None" "be_env (sample_boot ?env) ''DESKSYNC_BACKEND_URL'' = Some ''http://h''"
      "\<not> starts_with ''wss://'' ''http://h''" "\<not> starts_with ''ws://'' ''http://h''"
    by (simp_all add: sample_boot_def starts_with_def)
  from bad_override_sticks [OF sample_fs_usable sample_fs_no_config 1 2] show ?thesis by blast
qed

text \<open>
  A configuration that cannot be read is lost. When the file exists and reading it fails once, the agent does not
  only run with defaults, it writes them over the file: the next start finds the defaults, without the device id.
\<close>

theorem unreadable_config_replaced:
  assumes "config_exists st s" and "fs_faults s (fs_ops s) = Some fault" and "no_faults (s\<lparr> fs_ops := Suc (fs_ops s) \<rparr>)"
    and "usable st s" and "json_reads_back js (synthesized_config env)" and "daemon_config js u env st s = (s', c)"
  shows "c = synthesized_config env \<and> snd (daemon_config js u env' st s') = synthesized_config env"
proof -
  let ?s1 = "s\<lparr> fs_ops := Suc (fs_ops s) \<rparr>"
  obtain e where l: "load_config js st s = (?s1, Err e)"
    using assms(2) by (cases fault) (simp add: load_config_def then_do_def fs_read_to_string_def fs_call_def)
  have "usable st ?s1" using assms(4) by (simp add: usable_def)
  then obtain s2 where 2: "save_config js u st (synthesized_config env) ?s1 = (s2, Ok ())" "config_exists st s2"
      "snd (load_config js st s2) = Ok (synthesized_config env)"
    using saved_config [OF assms(3) _ assms(5)] by blast
  then have "s' = s2" "c = synthesized_config env"
    using assms(1,6) l by (simp_all add: daemon_config_def persist_synthesized_def)
  then show ?thesis using daemon_config_stored [OF 2(2,3)] by blast
qed

definition faulty_fs :: fs where
  "faulty_fs = (sample_fs (\<lambda>n. if n = 0 then Some (0, ''interrupted'') else None))
     \<lparr> fs_files := (\<lambda>p. None)([''cfg'', ''config.json''] \<mapsto> \<lparr> file_data = ''good'', file_mode = 420 \<rparr>) \<rparr>"

theorem unreadable_config_replaced_witness:
  "\<exists>s' c. daemon_config (one_config_json (synthesized_config (\<lambda>n. None))) True (\<lambda>n. None) (store_at [''cfg'']) faulty_fs = (s', c)
    \<and> device_id c = ''unregistered''"
proof -
  let ?js = "one_config_json (synthesized_config (\<lambda>n. None))" and ?st = "store_at [''cfg'']"
  have 1: "config_exists ?st faulty_fs" "fs_faults faulty_fs (fs_ops faulty_fs) = Some (0, ''interrupted'')"
      "no_faults (faulty_fs\<lparr> fs_ops := Suc (fs_ops faulty_fs) \<rparr>)" "usable ?st faulty_fs"
    by (simp_all add: config_exists_def fs_exists_def faulty_fs_def sample_fs_def store_paths store_at_def no_faults_def
        usable_def path_prefixes_def)
  obtain s' c where d: "daemon_config ?js True (\<lambda>n. None) ?st faulty_fs = (s', c)" by force
  have "c = synthesized_config (\<lambda>n. None)"
    using unreadable_config_replaced [OF 1 one_config_reads_back d] by blast
  with d show ?thesis by (simp add: synthesized_config_def env_or_def)
qed

section \<open>Properties of pairing\<close>


definition sample_env :: environment where
  "sample_env = (\<lambda>n. None)(''DESKSYNC_EMAIL'' := Some ''e'', ''DESKSYNC_PASSWORD'' := Some ''p'')"

lemma sample_env_credentials: "credentials_from_env sample_env = Ok \<lparr> email = ''e'', password = ''p'' \<rparr>"
  by (simp add: credentials_from_env_def nonblank_def sample_env_def str_eval)


section \<open>Properties of the developer tools\<close>

lemma workspace_load_subset: "load_items workspace_upsert r items = Ok r' \<Longrightarrow> workspace_inv r \<Longrightarrow>
  set (workspace_items r') \<subseteq> set (workspace_items r) \<union> set items"
proof (induction items arbitrary: r)
  case (Cons x items)
  then obtain r1 where r1: "workspace_upsert r x = Ok r1" "load_items workspace_upsert r1 items = Ok r'"
    by (auto simp: bind_result_Ok_iff)
  have "workspace_inv r1" using workspace_inv_step [OF Cons.prems(2), of "Upsert x"] r1(1) by simp
  moreover have "set (workspace_items r1) \<subseteq> insert x (set (workspace_items r))"
    using keys_list_upsert [of ws_id "workspace_items r" x] Cons.prems(2) r1(1)
    by (auto simp: workspace_inv_def workspace_upsert_def bind_result_Ok_iff)
  ultimately show ?case using Cons.IH [OF r1(2)] by auto
qed simp

lemma host_load_subset: "load_items host_upsert r items = Ok r' \<Longrightarrow> host_inv r \<Longrightarrow>
  set (host_items r') \<subseteq> set (host_items r) \<union> set items"
proof (induction items arbitrary: r)
  case (Cons x items)
  then obtain r1 where r1: "host_upsert r x = Ok r1" "load_items host_upsert r1 items = Ok r'"
    by (auto simp: bind_result_Ok_iff)
  have "host_inv r1" using host_inv_step [OF Cons.prems(2), of "Upsert x"] r1(1) by simp
  moreover have "set (host_items r1) \<subseteq> insert x (set (host_items r))"
    using keys_list_upsert [of host_id "host_items r" x] Cons.prems(2) r1(1)
    by (auto simp: host_inv_def host_upsert_def bind_result_Ok_iff)
  ultimately show ?case using Cons.IH [OF r1(2)] by auto
qed simp

lemma build_devtools_inv:
  assumes "build_devtools parse_ws parse_hosts os st s = (s', svc)"
  shows "workspace_inv (svc_workspaces svc) \<and> host_inv (svc_hosts svc)"
proof -
  have "workspace_inv workspace_new" "host_inv host_new" by (simp_all add: workspace_inv_def workspace_new_def host_inv_def host_new_def)
  then show ?thesis using assms
    by (auto simp: build_devtools_def service_new_def dest: workspace_from_items_inv host_from_items_inv
      split: prod.splits sum.split)
qed

text \<open>
  C38: The developer tools fail closed. Whatever the two registry files hold, or if they are missing, unreadable or not JSON,
  the service starts; it only knows valid entries that stand in the files, and one invalid entry in a file empties
  that registry.
\<close>

theorem devtools_fail_closed:
  assumes "load_workspaces parse_ws st s = (s1, wss)" and "load_ssh_hosts parse_hosts st s1 = (s2, hs)"
  shows "\<exists>svc. build_devtools parse_ws parse_hosts os st s = (s2, svc)
    \<and> set (workspace_items (svc_workspaces svc)) \<subseteq> {x \<in> set wss. validate_workspace x = Ok ()}
    \<and> set (host_items (svc_hosts svc)) \<subseteq> {x \<in> set hs. validate_host x = Ok ()}
    \<and> ((\<exists>x \<in> set wss. validate_workspace x \<noteq> Ok ()) \<longrightarrow> workspace_items (svc_workspaces svc) = [])
    \<and> ((\<exists>x \<in> set hs. validate_host x \<noteq> Ok ()) \<longrightarrow> host_items (svc_hosts svc) = [])"
proof -
  let ?w = "case workspace_from_items wss of Inr r \<Rightarrow> r | Inl e \<Rightarrow> workspace_new"
  let ?h = "case host_from_items hs of Inr r \<Rightarrow> r | Inl e \<Rightarrow> host_new"
  have n: "workspace_inv workspace_new" "host_inv host_new" "workspace_items workspace_new = []" "host_items host_new = []"
    by (simp_all add: workspace_inv_def workspace_new_def host_inv_def host_new_def)
  have w: "set (workspace_items ?w) \<subseteq> {x \<in> set wss. validate_workspace x = Ok ()}
      \<and> ((\<exists>x \<in> set wss. validate_workspace x \<noteq> Ok ()) \<longrightarrow> workspace_items ?w = [])"
  proof (cases "workspace_from_items wss")
    case (Inr r)
    then have "\<forall>x \<in> set wss. validate_workspace x = Ok ()" "set (workspace_items r) \<subseteq> set wss"
      using workspaces.load_Ok workspace_load_subset [OF _ n(1)] n(3) unfolding workspace_from_items_def by fastforce+
    with Inr show ?thesis by auto
  qed (simp add: n)
  have h: "set (host_items ?h) \<subseteq> {x \<in> set hs. validate_host x = Ok ()}
      \<and> ((\<exists>x \<in> set hs. validate_host x \<noteq> Ok ()) \<longrightarrow> host_items ?h = [])"
  proof (cases "host_from_items hs")
    case (Inr r)
    then have "\<forall>x \<in> set hs. validate_host x = Ok ()" "set (host_items r) \<subseteq> set hs"
      using hosts.load_Ok host_load_subset [OF _ n(2)] n(4) unfolding host_from_items_def by fastforce+
    with Inr show ?thesis by auto
  qed (simp add: n)
  show ?thesis using assms w h by (simp add: build_devtools_def service_new_def)
qed

lemma load_no_items: "\<exists>s1. load_items_file (\<lambda>s. Ok []) st name s = (s1, [])"
  by (cases "fs_read_to_string (path_join (store_dir st) name) s") (auto simp: load_items_file_def split: sum.split)

theorem devtools_fail_closed_witness:
  "\<exists>s2 svc. build_devtools (\<lambda>s. Ok []) (\<lambda>s. Ok []) ''linux'' (store_at [''cfg'']) (sample_fs (\<lambda>n. None)) = (s2, svc)
    \<and> workspace_items (svc_workspaces svc) = [] \<and> host_items (svc_hosts svc) = []"
proof -
  let ?s = "sample_fs (\<lambda>n. None)" and ?st = "store_at [''cfg'']"
  obtain s1 where 1: "load_workspaces (\<lambda>s. Ok []) ?st ?s = (s1, [])"
    using load_no_items unfolding load_workspaces_def by blast
  obtain s2 where 2: "load_ssh_hosts (\<lambda>s. Ok []) ?st s1 = (s2, [])"
    using load_no_items unfolding load_ssh_hosts_def by blast
  from devtools_fail_closed [OF 1 2, of "''linux''"] show ?thesis by auto
qed

section \<open>Properties of the heartbeats\<close>

lemma expect_success_traced:
  "expect_success (traced http) js (w, sent) req = (case expect_success http js w req of (w', r) \<Rightarrow> ((w', sent @ [req]), r))"
  by (auto simp: expect_success_def traced_def split: prod.splits sum.splits)



section \<open>Properties of the boot sequence\<close>

lemma take_instance_locks:
  assumes "lock_laws (be_lock b) held" and "take_instance b st c i (s, l) = ((s', l'), r)"
  shows "case r of
      Inr (Running g c' i') \<Rightarrow> g = \<lparr> si_path = lock_path st \<rparr> \<and> c' = c \<and> lock_path st \<notin> held l \<and> held l' = insert (lock_path st) (held l)
    | Inr (Paired x) \<Rightarrow> False
    | Inl e \<Rightarrow> held l' = held l"
proof -
  obtain s1 l1 x where a: "acquire (be_lock b) (lock_path st) (s, l) = ((s1, l1), x)" by (metis prod.collapse)
  from acquire_locks [OF assms(1) a] assms(2) a show ?thesis
    by (auto simp: take_instance_def split: sum.splits option.splits)
qed

text \<open>
  C24: The daemon runs only as the one instance, with a valid configuration. A boot that ends as the running daemon found
  the lock free, holds it, and has a valid configuration; the pairing mode leaves the lock alone, so that it can be
  used beside a running daemon; every failing boot leaves the lock as it was.
\<close>

theorem boot_is_exclusive:
  assumes "lock_laws (be_lock b) held" and "boot_with b st (s, l, w) = ((s', l', w'), r)"
  shows "case r of
      Inr (Running g c i) \<Rightarrow> validate_config c = Ok () \<and> g = \<lparr> si_path = lock_path st \<rparr> \<and> lock_path st \<notin> held l
        \<and> held l' = insert (lock_path st) (held l) \<and> w' = w
    | Inr (Paired x) \<Rightarrow> l' = l
    | Inl e \<Rightarrow> held l' = held l"
proof -
  obtain s1 c where d: "daemon_config (be_json b) (be_unix b) (be_env b) st s = (s1, c)" by force
  show ?thesis
  proof (cases "validate_config c")
    case (Inl e)
    then show ?thesis using assms(2) d by (auto simp: boot_with_def)
  next
    case (Inr u)
    obtain s2 x where x: "load_or_create_identity (be_lib b) (be_entropy b) (be_unix b) st s1 = (s2, x)" by force
    show ?thesis
    proof (cases x)
      case (Inl e)
      then show ?thesis using assms(2) d Inr x by (auto simp: boot_with_def)
    next
      case i: (Inr i)
      obtain s3 l3 q where t: "take_instance b st c i (s2, l) = ((s3, l3), q)" by (metis prod.collapse)
      note lk = take_instance_locks [OF assms(1) t]
      obtain s4 w4 p where rp: "run_pairing (be_json b) (be_unix b) (be_http b) (be_decoders b) (be_lib b) (be_qr b) (be_env b) (be_os b) st c i (s2, w)
          = ((s4, w4), p)" by (metis prod.collapse)
      show ?thesis
        using assms(2) d Inr x i t rp lk
        by (cases p) (auto simp: boot_with_def split: if_splits sum.splits boot_outcome.splits)
    qed
  qed
qed

text \<open>Beside a running daemon a second boot does not become the daemon.\<close>

theorem boot_is_exclusive_witness:
  "\<exists>sl r. boot_with (sample_boot (\<lambda>n. None)) (store_at [''cfg'']) (sample_fs (\<lambda>n. None), {lock_path (store_at [''cfg''])}, ()) = (sl, r)
    \<and> (\<forall>g c i. r \<noteq> Ok (Running g c i))"
proof -
  let ?b = "sample_boot (\<lambda>n. None)" and ?st = "store_at [''cfg'']"
  have l: "lock_laws (be_lock ?b) (\<lambda>w. w)" by (auto simp: sample_boot_def lock_laws_def set_locks_def)
  obtain sl r where "boot_with ?b ?st (sample_fs (\<lambda>n. None), {lock_path ?st}, ()) = (sl, r)" by (rule prod.exhaust)
  moreover obtain s' l' w' where "sl = (s', l', w')" by (rule prod_cases3)
  ultimately have b: "boot_with ?b ?st (sample_fs (\<lambda>n. None), {lock_path ?st}, ()) = ((s', l', w'), r)" by simp
  have "r \<noteq> Ok (Running g c i)" for g c i using boot_is_exclusive [OF l b] by auto
  with b show ?thesis by blast
qed

end
