(* ===== verification/Runtime.thy ===== *)
theory Runtime
  imports Session_Input Session_Stream Daemon
begin

text \<open>
  The session runtime as a whole (\<open>session_runtime.rs\<close>, \<open>SessionManager::run\<close> with \<open>handle_session\<close>): the discovery
  loop, the tasks it spawns, and any number of sessions side by side, which share the input router and the developer
  tools. A run is an arbitrary interleaving of polls, connections and turns of the sessions. The sessions turn out not to
  see each other; what they share receives exactly the input and the control frames of all of them, in their order.
\<close>

section \<open>The state and its steps\<close>

record ('w, 'i, 'c, 'd, 'b) session_runtime =
  rt_manager :: session_manager
  rt_net :: 'b
  rt_spawned :: "pending_session list"
  rt_sessions :: "'w live_session list"
  rt_desk :: "('i, 'c, 'd) desk"

text \<open>
  The tasks that the discovery loop has spawned wait in \<open>rt_spawned\<close> until they are scheduled: a task connects (at time
  \<open>now\<close>) and becomes a session, or ends with an error that is only logged. A session keeps its index.
\<close>

datatype runtime_op =
    PollTurn
  | Connect nat int
  | Turn nat session_op

definition poll_turn :: "'b backend_api \<Rightarrow> ('w, 'i, 'c, 'd, 'b) session_runtime \<Rightarrow> ('w, 'i, 'c, 'd, 'b) session_runtime" where
  "poll_turn api h = (case poll api (rt_manager h) (rt_net h) of
     (w, m, started) \<Rightarrow> h\<lparr> rt_net := w, rt_manager := m, rt_spawned := rt_spawned h @ started \<rparr>)"

definition connect_turn :: "('w, 'i, 'c, 'd) session_deps \<Rightarrow> nat \<Rightarrow> int \<Rightarrow> ('w, 'i, 'c, 'd, 'b) session_runtime
    \<Rightarrow> ('w, 'i, 'c, 'd, 'b) session_runtime" where
  "connect_turn d n now h = (if n < length (rt_spawned h) then
       let h1 = h\<lparr> rt_spawned := take n (rt_spawned h) @ drop (Suc n) (rt_spawned h) \<rparr> in
       (case start_session d now (rt_spawned h ! n) of
          Inl e \<Rightarrow> h1
        | Inr s \<Rightarrow> h1\<lparr> rt_sessions := rt_sessions h1 @ [s] \<rparr>)
     else h)"

definition session_turn :: "('w, 'i, 'c, 'd) session_deps \<Rightarrow> nat \<Rightarrow> session_op \<Rightarrow> ('w, 'i, 'c, 'd, 'b) session_runtime
    \<Rightarrow> ('w, 'i, 'c, 'd, 'b) session_runtime \<times> (nat \<times> signal_envelope) list" where
  "session_turn d k x h = (if k < length (rt_sessions h) then
       (case session_step d x (rt_desk h, rt_sessions h ! k) of
          ((dk, s), out) \<Rightarrow> (h\<lparr> rt_desk := dk, rt_sessions := (rt_sessions h)[k := s] \<rparr>, map (Pair k) out))
     else (h, []))"

fun runtime_step :: "('w, 'i, 'c, 'd) session_deps \<Rightarrow> 'b backend_api \<Rightarrow> runtime_op \<Rightarrow> ('w, 'i, 'c, 'd, 'b) session_runtime
    \<Rightarrow> ('w, 'i, 'c, 'd, 'b) session_runtime \<times> (nat \<times> signal_envelope) list" where
  "runtime_step d api PollTurn h = (poll_turn api h, [])"
| "runtime_step d api (Connect n now) h = (connect_turn d n now h, [])"
| "runtime_step d api (Turn k x) h = session_turn d k x h"

fun runtime_run :: "('w, 'i, 'c, 'd) session_deps \<Rightarrow> 'b backend_api \<Rightarrow> runtime_op list \<Rightarrow> ('w, 'i, 'c, 'd, 'b) session_runtime
    \<Rightarrow> ('w, 'i, 'c, 'd, 'b) session_runtime \<times> (nat \<times> signal_envelope) list" where
  "runtime_run d api [] h = (h, [])"
| "runtime_run d api (x # xs) h = (case runtime_step d api x h of (h1, out) \<Rightarrow>
     case runtime_run d api xs h1 of (h2, outs) \<Rightarrow> (h2, out @ outs))"

interpretation runtime: labelled_run "runtime_step d api" "runtime_run d api"
  for d :: "('w, 'i, 'c, 'd) session_deps" and api :: "'b backend_api"
  by unfold_locales (simp_all del: runtime_step.simps)

text \<open>The runtime as the daemon starts it: logged in, with nothing spawned.\<close>

definition runtime_new :: "session_manager \<Rightarrow> 'b \<Rightarrow> ('i, 'c, 'd) desk \<Rightarrow> ('w, 'i, 'c, 'd, 'b) session_runtime" where
  "runtime_new m w dk = \<lparr> rt_manager = m, rt_net = w, rt_spawned = [], rt_sessions = [], rt_desk = dk \<rparr>"

section \<open>Sessions do not see each other\<close>

text \<open>What a session does, and what it sends, does not depend on the state of what the sessions share.\<close>

lemma session_step_alone:
  assumes "session_step d x (dk, s) = ((dk1, s1), out)"
  shows "\<exists>dk2. session_step d x (dk', s) = ((dk2, s1), out)"
  using assms
  by (cases x) (auto simp: event_turn_def split: if_splits prod.splits peer_event.splits)

text \<open>The turns that sessions really took, with their index.\<close>

definition turn_taken :: "runtime_op \<Rightarrow> ('w, 'i, 'c, 'd, 'b) session_runtime \<Rightarrow> (nat \<times> session_op) list" where
  "turn_taken x h = (case x of Turn k y \<Rightarrow> if k < length (rt_sessions h) then [(k, y)] else [] | _ \<Rightarrow> [])"

definition at_index :: "nat \<Rightarrow> (nat \<times> 'a) list \<Rightarrow> 'a list" where
  "at_index k xs = map snd (List.filter (\<lambda>p. fst p = k) xs)"

lemma at_index_simps [simp]:
  "at_index k [] = []" "at_index k (xs @ ys) = at_index k xs @ at_index k ys"
  "at_index k ((j, x) # xs) = (if j = k then x # at_index k xs else at_index k xs)"
  by (auto simp: at_index_def)

lemma at_index_Pair [simp]: "at_index k (map (Pair j) ys) = (if j = k then ys else [])"
  by (cases "j = k"; induction ys) simp_all

text \<open>The invariant: session \<open>k\<close> is where a run of its own turns takes it, from its start, with the envelopes of that run.\<close>

definition ran_alone :: "('w, 'i, 'c, 'd) session_deps \<Rightarrow> session_op list \<Rightarrow> signal_envelope list \<Rightarrow> 'w live_session \<Rightarrow> bool" where
  "ran_alone d ys es s \<longleftrightarrow> (\<exists>now ps s0. start_session d now ps = Ok s0
     \<and> (\<forall>dk. \<exists>dk'. session_run d ys (dk, s0) = ((dk', s), es)))"

definition separate :: "('w, 'i, 'c, 'd) session_deps \<Rightarrow> (nat \<times> session_op) list \<Rightarrow> (nat \<times> signal_envelope) list
    \<Rightarrow> ('w, 'i, 'c, 'd, 'b) session_runtime \<Rightarrow> bool" where
  "separate d gs sent h \<longleftrightarrow>
     (\<forall>k. if k < length (rt_sessions h) then ran_alone d (at_index k gs) (at_index k sent) (rt_sessions h ! k)
          else at_index k gs = [] \<and> at_index k sent = [])"

lemma ran_alone_start: "start_session d now ps = Ok s \<Longrightarrow> ran_alone d [] [] s"
  unfolding ran_alone_def by auto

lemma ran_alone_step:
  assumes "ran_alone d ys es s" and st: "session_step d x (dk, s) = ((dk', s'), out)"
  shows "ran_alone d (ys @ [x]) (es @ out) s'"
proof -
  obtain now ps s0 where 0: "start_session d now ps = Ok s0" and r: "\<And>e. \<exists>e'. session_run d ys (e, s0) = ((e', s), es)"
    using assms(1) by (auto simp: ran_alone_def)
  have "\<exists>e'. session_run d (ys @ [x]) (e, s0) = ((e', s'), es @ out)" for e
  proof -
    obtain e1 where 1: "session_run d ys (e, s0) = ((e1, s), es)" using r by blast
    obtain e2 where "session_step d x (e1, s) = ((e2, s'), out)" using session_step_alone [OF st] by blast
    with 1 show ?thesis by (simp add: sessions.run_append del: session_step.simps)
  qed
  with 0 show ?thesis unfolding ran_alone_def by blast
qed

lemma separate_keep:
  "separate d gs sent h \<Longrightarrow> rt_sessions h' = rt_sessions h \<Longrightarrow> separate d gs sent h'"
  by (simp add: separate_def)

lemma separate_connect:
  assumes "separate d gs sent h"
  shows "separate d gs sent (connect_turn d n now h)"
proof (cases "n < length (rt_spawned h)")
  case True
  show ?thesis
  proof (cases "start_session d now (rt_spawned h ! n)")
    case (Inl e)
    then show ?thesis using assms True by (simp add: separate_def connect_turn_def)
  next
    case (Inr s)
    have "separate d gs sent (h\<lparr> rt_sessions := rt_sessions h @ [s] \<rparr>)"
      unfolding separate_def
    proof
      fix k
      show "if k < length (rt_sessions (h\<lparr>rt_sessions := rt_sessions h @ [s]\<rparr>))
          then ran_alone d (at_index k gs) (at_index k sent) (rt_sessions (h\<lparr>rt_sessions := rt_sessions h @ [s]\<rparr>) ! k)
          else at_index k gs = [] \<and> at_index k sent = []"
        using assms ran_alone_start [OF Inr] unfolding separate_def
        by (cases "k = length (rt_sessions h)") (auto simp: nth_append dest: spec [of _ k] split: if_splits)
    qed
    then show ?thesis using True Inr by (auto simp: connect_turn_def elim: separate_keep)
  qed
qed (use assms in \<open>simp add: connect_turn_def\<close>)

lemma separate_turn:
  assumes sep: "separate d gs sent h" and st: "session_turn d k x h = (h', out)"
  shows "separate d (gs @ turn_taken (Turn k x) h) (sent @ out) h'"
proof (cases "k < length (rt_sessions h)")
  case True
  obtain dk s es where s: "session_step d x (rt_desk h, rt_sessions h ! k) = ((dk, s), es)" by (metis prod.collapse)
  then have h': "h' = h\<lparr> rt_desk := dk, rt_sessions := (rt_sessions h)[k := s] \<rparr>" "out = map (Pair k) es"
    using st True by (auto simp: session_turn_def simp del: session_step.simps)
  have t: "turn_taken (Turn k x) h = [(k, x)]" using True by (simp add: turn_taken_def)
  have "ran_alone d (at_index k gs) (at_index k sent) (rt_sessions h ! k)" using sep True by (simp add: separate_def)
  from ran_alone_step [OF this s] show ?thesis using sep True h' t by (auto simp: separate_def nth_list_update)
qed (use assms in \<open>simp add: session_turn_def turn_taken_def\<close>)

lemma runtime_step_separate:
  assumes "separate d gs sent h" and "runtime_step d api x h = (h', out)"
  shows "separate d (gs @ turn_taken x h) (sent @ out) h'"
proof (cases x)
  case PollTurn
  then show ?thesis using assms by (auto simp: turn_taken_def poll_turn_def elim: separate_keep split: prod.splits)
next
  case (Connect n now)
  then show ?thesis using assms separate_connect [OF assms(1)] by (auto simp: turn_taken_def)
next
  case (Turn k y)
  then show ?thesis using assms separate_turn [OF assms(1)] by simp
qed


section \<open>One session for each announced one\<close>

text \<open>What a poll starts, and what it is told.\<close>

definition polled :: "'b backend_api \<Rightarrow> runtime_op \<Rightarrow> ('w, 'i, 'c, 'd, 'b) session_runtime \<Rightarrow> (pending_session list \<times> pending_session list) list" where
  "polled api x h = (case x of
     PollTurn \<Rightarrow> [(snd (snd (poll api (rt_manager h) (rt_net h))), announced api (rt_manager h) (rt_net h))]
   | _ \<Rightarrow> [])"

definition ids :: "pending_session list list \<Rightarrow> string list" where
  "ids pss = map ps_id (concat pss)"

lemma ids_simps [simp]: "ids [] = []" "ids (xs @ ys) = ids xs @ ids ys" "ids [ps] = map ps_id ps"
  by (simp_all add: ids_def)

text \<open>The ids of the spawned tasks and of the sessions.\<close>

definition task_ids :: "('w, 'i, 'c, 'd, 'b) session_runtime \<Rightarrow> string list" where
  "task_ids h = map ps_id (rt_spawned h) @ map ls_id (rt_sessions h)"

definition one_each :: "string \<Rightarrow> string set \<Rightarrow> (pending_session list \<times> pending_session list) list
    \<Rightarrow> ('w, 'i, 'c, 'd, 'b) session_runtime \<Rightarrow> bool" where
  "one_each dev S gs h \<longleftrightarrow> mgr_device_id (rt_manager h) = dev
     \<and> distinct (mgr_active (rt_manager h)) \<and> set (mgr_active (rt_manager h)) \<subseteq> S
     \<and> distinct (ids (map fst gs)) \<and> set (ids (map fst gs)) = set (mgr_active (rt_manager h))
     \<and> set (ids (map snd gs)) = set (mgr_active (rt_manager h))
     \<and> distinct (task_ids h) \<and> set (task_ids h) \<subseteq> set (mgr_active (rt_manager h))"

lemma one_each_poll:
  assumes inv: "one_each dev S gs h" and "announces_within api dev S" and "finite S" and "card S \<le> ACTIVE_CAP"
  shows "one_each dev S (gs @ polled api PollTurn h) (poll_turn api h)"
proof -
  obtain w m started where p: "poll api (rt_manager h) (rt_net h) = (w, m, started)" by (cases "poll api (rt_manager h) (rt_net h)")
  have i: "mgr_device_id (rt_manager h) = dev" "distinct (mgr_active (rt_manager h))" "set (mgr_active (rt_manager h)) \<subseteq> S"
    using inv by (simp_all add: one_each_def)
  note b = poll_below_cap [OF p i(2,3) assms(2) [folded i(1)] assms(3,4)]
  then have d: "set (mgr_active (rt_manager h)) \<inter> ps_id ` set started = {}" "distinct (map ps_id started)" by blast+
  have t: "task_ids (poll_turn api h) = map ps_id (rt_spawned h) @ map ps_id started @ map ls_id (rt_sessions h)"
    "mset (task_ids (poll_turn api h)) = mset (task_ids h @ map ps_id started)"
    using p by (simp_all add: poll_turn_def task_ids_def)
  have "distinct (task_ids h @ map ps_id started)" using inv d by (auto simp: one_each_def)
  then have "distinct (task_ids (poll_turn api h))" using t(2) mset_eq_imp_distinct_iff by blast
  moreover have "set (task_ids (poll_turn api h)) = set (task_ids h) \<union> ps_id ` set started" using t(1) by (auto simp: task_ids_def)
  moreover have "rt_manager (poll_turn api h) = m" "polled api PollTurn h = [(started, announced api (rt_manager h) (rt_net h))]"
    using p by (simp_all add: poll_turn_def polled_def)
  ultimately show ?thesis using inv b i(1) by (auto simp: one_each_def)
qed

lemma one_each_tasks:
  assumes "one_each dev S gs h" and "rt_manager h' = rt_manager h" and "mset (task_ids h') \<subseteq># mset (task_ids h)"
  shows "one_each dev S gs h'"
proof -
  have "distinct (task_ids h')" using distinct_submset [OF assms(3)] assms(1) by (simp add: one_each_def)
  moreover have "set (task_ids h') \<subseteq> set (task_ids h)" using set_mset_mono [OF assms(3)] by simp
  ultimately show ?thesis using assms(1,2) by (auto simp: one_each_def)
qed

lemma connect_tasks: "mset (task_ids (connect_turn d n now h)) \<subseteq># mset (task_ids h)"
proof (cases "n < length (rt_spawned h)")
  case True
  let ?rest = "take n (rt_spawned h) @ drop (Suc n) (rt_spawned h)"
  have "mset (rt_spawned h) = add_mset (rt_spawned h ! n) (mset ?rest)"
    by (subst id_take_nth_drop [OF True]) simp
  then have t: "mset (task_ids h) = add_mset (ps_id (rt_spawned h ! n)) (mset (map ps_id ?rest @ map ls_id (rt_sessions h)))"
    unfolding task_ids_def mset_append mset_map by simp
  show ?thesis
  proof (cases "start_session d now (rt_spawned h ! n)")
    case (Inl e)
    then show ?thesis unfolding t using True by (simp add: connect_turn_def task_ids_def Let_def)
  next
    case (Inr s)
    then have "ls_id s = ps_id (rt_spawned h ! n)" using start_session_fresh by blast
    then show ?thesis unfolding t using True Inr by (simp add: connect_turn_def task_ids_def Let_def)
  qed
qed (simp add: connect_turn_def)

lemma connect_manager: "rt_manager (connect_turn d n now h) = rt_manager h"
  by (simp add: connect_turn_def Let_def split: sum.split)

lemma session_turn_ids:
  assumes "session_turn d k x h = (h', out)"
  shows "task_ids h' = task_ids h \<and> rt_manager h' = rt_manager h"
proof (cases "k < length (rt_sessions h)")
  case True
  obtain dk s es where s: "session_step d x (rt_desk h, rt_sessions h ! k) = ((dk, s), es)" by (metis prod.collapse)
  then have "ls_id s = ls_id (rt_sessions h ! k)" using session_step_effect by blast
  then have "map ls_id ((rt_sessions h)[k := s]) = map ls_id (rt_sessions h)"
    using True by (simp add: map_update list_update_same_conv)
  then show ?thesis using assms s True by (auto simp: session_turn_def task_ids_def simp del: session_step.simps)
qed (use assms in \<open>simp add: session_turn_def\<close>)

lemma runtime_step_one_each:
  assumes "one_each dev S gs h" and "announces_within api dev S" and "finite S" and "card S \<le> ACTIVE_CAP"
    and "runtime_step d api x h = (h', out)"
  shows "one_each dev S (gs @ polled api x h) h'"
proof (cases x)
  case (Turn k y)
  then have "session_turn d k y h = (h', out)" using assms(5) by simp
  from session_turn_ids [OF this] show ?thesis using assms(1) Turn by (simp add: one_each_def polled_def)
qed (use assms one_each_poll [OF assms(1-4)] one_each_tasks [OF assms(1) connect_manager connect_tasks] in \<open>auto simp: polled_def\<close>)

text \<open>
  C25: Every announced session is answered by one task, and only by one. As long as at most 512 different sessions are
  announced, whatever the polls, their failures and the order in which tasks connect and sessions run: the sessions
  started are pairwise different and exactly those the backend has announced, and at any time no two tasks or sessions
  of the agent have the same id.
\<close>

theorem one_task_for_each_session:
  assumes "announces_within api (mgr_device_id m) S" and "finite S" and "card S \<le> ACTIVE_CAP" and "mgr_active m = []"
    and "runtime_run d api xs (runtime_new m w dk) = (h, out)"
    and "gs = trace (runtime_step d api) (polled api) xs (runtime_new m w dk)"
  shows "distinct (ids (map fst gs)) \<and> set (ids (map fst gs)) = set (ids (map snd gs))
    \<and> distinct (task_ids h) \<and> set (task_ids h) \<subseteq> set (ids (map fst gs))"
proof -
  have s: "one_each (mgr_device_id m) S [] (runtime_new m w dk)"
    using assms(4) by (simp add: one_each_def runtime_new_def task_ids_def)
  have "one_each (mgr_device_id m) S ([] @ gs) h"
    unfolding assms(6)
    by (rule runtime.run_watched [where I = "\<lambda>gs _. one_each (mgr_device_id m) S gs" and watch = "polled api" and sent = "[]",
          OF runtime_step_one_each [OF _ assms(1-3)] s assms(5)])
  then show ?thesis by (simp add: one_each_def)
qed

section \<open>What the sessions share\<close>

text \<open>What an observer of the sessions sees of a run, and how an invariant of the shared state follows it.\<close>

definition on_sessions :: "(session_op \<Rightarrow> ('i, 'c, 'd) desk \<times> 'w live_session \<Rightarrow> 'g list)
    \<Rightarrow> runtime_op \<Rightarrow> ('w, 'i, 'c, 'd, 'b) session_runtime \<Rightarrow> 'g list" where
  "on_sessions watch x h = (case x of
     Turn k y \<Rightarrow> if k < length (rt_sessions h) then watch y (rt_desk h, rt_sessions h ! k) else []
   | _ \<Rightarrow> [])"

lemma runtime_desk:
  assumes step: "\<And>gs dk s x dk' s' out. I gs dk \<Longrightarrow> session_step d x (dk, s) = ((dk', s'), out) \<Longrightarrow> I (gs @ watch x (dk, s)) dk'"
    and "I [] (rt_desk h)" and "runtime_run d api xs h = (h', out)"
  shows "I (trace (runtime_step d api) (on_sessions watch) xs h) (rt_desk h')"
proof -
  have "(\<lambda>gs sent u. I gs (rt_desk u)) ([] @ trace (runtime_step d api) (on_sessions watch) xs h) ([] @ out) h'"
  proof (rule runtime.run_watched [OF _ _ assms(3)])
    show "I [] (rt_desk h)" by (rule assms(2))
  next
    fix gs sent u x v new
    assume i: "I gs (rt_desk u)" and st: "runtime_step d api x u = (v, new)"
    show "I (gs @ on_sessions watch x u) (rt_desk v)"
    proof (cases x)
      case PollTurn
      then show ?thesis using i st by (auto simp: poll_turn_def on_sessions_def split: prod.splits)
    next
      case (Connect n now)
      then show ?thesis using i st by (auto simp: connect_turn_def on_sessions_def Let_def split: if_splits sum.splits)
    next
      case (Turn k y)
      obtain dk s es where s: "session_step d y (rt_desk u, rt_sessions u ! k) = ((dk, s), es)" by (metis prod.collapse)
      from step [OF i s] st s Turn i show ?thesis
        by (auto simp: session_turn_def on_sessions_def simp del: session_step.simps split: if_splits)
    qed
  qed
  then show ?thesis by simp
qed

text \<open>
  C20: What the viewers do reaches the operating system. In every interleaving of any number of sessions, of polls and of
  the injector's thread, once the injector is stopped the operating system is exactly where the events of the input frames
  that the sessions took, decoded and executed one after the other in their order, take it: nothing is lost, repeated or
  reordered, neither malformed frames nor failed events disturb the others, and nothing that arrives after the end of
  its session is executed.
\<close>

theorem input_of_all_sessions_is_executed:
  fixes d :: "('w, 'o enigo_injector, 'c, 'd) session_deps"
  assumes "injector_start api i = (i1, Ok ())" and "\<not> inj_tx i" and "injects_natively api (dep_router d)"
    and "injector (desk_router dk) = i1" and "runtime_run d net xs (runtime_new m w dk) = (h, out)"
    and "injector_stop api (injector (desk_router (rt_desk h))) = (i2, r)"
  shows "inj_os i2 = run_events api (inj_dims i1)
      (trace (runtime_step d net) (on_sessions (input_taken d)) xs (runtime_new m w dk)) (inj_os i1)
    \<and> injector_health i2 = Stopped \<and> r = Ok ()"
proof -
  let ?gs = "trace (runtime_step d net) (on_sessions (input_taken d)) xs (runtime_new m w dk)"
  have "executing api i1 ?gs (injector (desk_router (rt_desk h)))"
    by (rule runtime_desk [where I = "\<lambda>gs dk. executing api i1 gs (injector (desk_router dk))" and watch = "input_taken d",
        OF session_step_input [OF assms(3)] _ assms(5)])
      (use executing_start [OF assms(1,2)] assms(4) in \<open>simp_all add: runtime_new_def\<close>)
  from executing_stop [OF this assms(6)] show ?thesis by (simp add: injector_health_def)
qed

section \<open>The commands of all sessions\<close>

text \<open>The control frames that a turn takes from the viewer.\<close>

definition control_taken :: "session_op \<Rightarrow> ('i, 'c, 'd) desk \<times> 'w live_session \<Rightarrow> string list" where
  "control_taken x st = (case x of
     EventTurn _ (ControlFrame f) \<Rightarrow> if ls_result (snd st) = None \<and> ls_ice (snd st) = None then [f] else []
   | _ \<Rightarrow> [])"

definition ran_planned :: "(string \<Rightarrow> (dev_action_request, string) result) \<Rightarrow> dev_service \<Rightarrow> string list
    \<Rightarrow> ('i, 'c, command_spec list \<times> 'd) desk \<Rightarrow> bool" where
  "ran_planned parse svc fs dk \<longleftrightarrow> fst (desk_world dk) = concat (map (planned parse svc) fs) \<and> same_config (desk_tools dk) svc
     \<and> dispatched (desk_tools dk) + rejected (desk_tools dk) = dispatched svc + rejected svc + of_nat (length fs)"

lemma session_step_commands:
  fixes d :: "('w, 'i, 'c, command_spec list \<times> 'd) session_deps"
  assumes run: "dep_runner d = recording run" and inv: "ran_planned (dep_parse_dev d) svc fs dk"
    and st: "session_step d x (dk, s) = ((dk', s'), out)"
  shows "ran_planned (dep_parse_dev d) svc (fs @ control_taken x (dk, s)) dk'"
proof (cases "\<exists>c f. x = EventTurn c (ControlFrame f) \<and> ls_result s = None \<and> ls_ice s = None")
  case True
  then obtain c f where x: "x = EventTurn c (ControlFrame f)" "ls_result s = None" "ls_ice s = None" by blast
  obtain log w where dk: "desk_world dk = (log, w)" by force
  obtain t log' w' r where h: "handle_frame (dep_parse_dev d) (recording run) (desk_tools dk) (log, w) f = (t, (log', w'), r)"
    by (metis prod.exhaust)
  then have dk': "desk_tools dk' = t" "desk_world dk' = (log', w')" using st x run dk by (auto simp: event_turn_def)
  have "planned (dep_parse_dev d) (desk_tools dk) = planned (dep_parse_dev d) svc"
    using inv by (intro planned_cong) (simp add: ran_planned_def)
  then show ?thesis using handle_frame_step [OF h] inv x dk dk'
    by (cases "answered_ok r") (auto simp: ran_planned_def control_taken_def same_config_def algebra_simps)
next
  case False
  have "desk_tools dk' = desk_tools dk \<and> desk_world dk' = desk_world dk"
    using st False by (cases x) (auto simp: event_turn_def make_envelope_eq split: if_splits prod.splits peer_event.splits)
  then show ?thesis using inv False by (auto simp: ran_planned_def control_taken_def split: session_op.splits peer_event.splits)
qed

text \<open>
  C17: A viewer can make the desktop run nothing but allow-listed commands. Whatever control frames any number of sessions
  receive, in whatever order, the commands the agent has run are exactly the plans of their well-formed, plannable
  requests, in their order; each is a fixed launch or a catalog entry whose arguments and directory are literals of the
  agent or come from the workspaces and hosts of the registry files, which the sessions cannot change; every frame is
  counted once.
\<close>

theorem viewers_run_only_allowlisted:
  fixes d :: "('w, 'i, 'c, command_spec list \<times> 'd) session_deps"
  assumes "build_devtools parse_ws parse_hosts os st files = (files', svc)" and "dep_runner d = recording run"
    and "desk_tools dk = svc" and "desk_world dk = ([], w)" and "runtime_run d net xs (runtime_new m n dk) = (h, out)"
    and "frames = trace (runtime_step d net) (on_sessions control_taken) xs (runtime_new m n dk)"
  shows "fst (desk_world (rt_desk h)) = concat (map (planned (dep_parse_dev d) svc) frames)
    \<and> (\<forall>spec \<in> set (fst (desk_world (rt_desk h))). allowlisted (svc_workspaces svc) (svc_hosts svc) spec)
    \<and> same_config (desk_tools (rt_desk h)) svc
    \<and> dispatched (desk_tools (rt_desk h)) + rejected (desk_tools (rt_desk h)) = of_nat (length frames)"
proof -
  have "ran_planned (dep_parse_dev d) svc frames (rt_desk h)"
    unfolding assms(6)
    by (rule runtime_desk [where I = "ran_planned (dep_parse_dev d) svc" and watch = control_taken,
          OF session_step_commands [OF assms(2)] _ assms(5)])
      (use assms(3,4) in \<open>simp_all add: runtime_new_def ran_planned_def same_config_def\<close>)
  moreover have "allowlisted (svc_workspaces svc) (svc_hosts svc) spec" if "spec \<in> set (planned (dep_parse_dev d) svc f)" for spec f
    using that build_devtools_inv [OF assms(1)] plan_allowlisted
    by (auto simp: planned_def split: sum.splits)
  moreover have "dispatched svc + rejected svc = 0" using assms(1) by (auto simp: build_devtools_def service_new_def split: prod.splits)
  ultimately show ?thesis by (auto simp: ran_planned_def)
qed

section \<open>Samples\<close>

text \<open>A backend that announces two sessions in every poll.\<close>

definition sample_pending2 :: pending_session where
  "sample_pending2 = sample_pending\<lparr> session := \<lparr> ref_id = ''s2'', ref_pairing_id = [], ref_status = [] \<rparr> \<rparr>"

definition announcing2 :: "unit backend_api" where
  "announcing2 = client_api sample_http (sample_decoders\<lparr> pending_from_str := (\<lambda>s. Ok [sample_pending, sample_pending2]) \<rparr>) (with_client ''http://h'')"

lemma announcing2_pending: "api_pending_sessions announcing2 w t d = (w, Ok [sample_pending, sample_pending2])"
  by (simp add: announcing2_def client_api_def decode_json_def sample_http_def sample_decoders_def is_success_def)

lemma sample_ids: "ps_id sample_pending = ''s1''" "ps_id sample_pending2 = ''s2''"
  by (simp_all add: sample_pending_def sample_pending2_def)

lemma announcing2_within: "announces_within announcing2 dev {''s1'', ''s2''}"
  by (simp add: announces_within_def announcing2_pending sample_ids)

lemma announcing2_poll: "poll announcing2 sample_manager () = ((), sample_manager\<lparr> mgr_active := [''s2'', ''s1''] \<rparr>, [sample_pending, sample_pending2])"
  by (simp add: poll_def announcing2_pending claim_session_def sample_manager_def ACTIVE_CAP_def sample_ids)

lemma sample_starts:
  obtains s1 s2 where "start_session sample_deps 0 sample_pending = Ok s1" and "start_session sample_deps 5 sample_pending2 = Ok s2"
  by (simp add: sample_session_defs sample_pending2_def Let_def)

theorem one_task_for_each_session_witness:
  "\<forall>dk. \<exists>h out. runtime_run sample_deps announcing2 [PollTurn, Connect 1 5, PollTurn, Connect 0 0] (runtime_new sample_manager () dk) = (h, out)
    \<and> task_ids h = [''s2'', ''s1''] \<and> distinct (task_ids h)"
proof
  fix dk :: "(unit, unit, unit) desk"
  let ?xs = "[PollTurn, Connect 1 5, PollTurn, Connect 0 0]"
  obtain h out where r: "runtime_run sample_deps announcing2 ?xs (runtime_new sample_manager () dk) = (h, out)" by force
  obtain s1 s2 where s: "start_session sample_deps 0 sample_pending = Ok s1" "start_session sample_deps 5 sample_pending2 = Ok s2"
    by (rule sample_starts)
  have i: "ls_id s1 = ''s1''" "ls_id s2 = ''s2''" using start_session_fresh s sample_ids by metis+
  have "poll announcing2 (sample_manager\<lparr> mgr_active := [''s2'', ''s1''] \<rparr>) () = ((), sample_manager\<lparr> mgr_active := [''s2'', ''s1''] \<rparr>, [])"
    by (simp add: poll_def announcing2_pending claim_session_def sample_manager_def sample_ids)
  then have "task_ids h = [''s2'', ''s1'']"
    using r s i sample_ids by (auto simp: announcing2_poll runtime_new_def connect_turn_def poll_turn_def task_ids_def Let_def)
  moreover from one_task_for_each_session [OF announcing2_within _ _ _ r refl] have "distinct (task_ids h)"
    by (simp add: sample_manager_def ACTIVE_CAP_def)
  ultimately show "\<exists>h out. runtime_run sample_deps announcing2 ?xs (runtime_new sample_manager () dk) = (h, out)
    \<and> task_ids h = [''s2'', ''s1''] \<and> distinct (task_ids h)" using r by blast
qed

lemmas runtime_eval = announcing2_poll runtime_new_def connect_turn_def poll_turn_def session_turn_def Let_def


theorem input_of_all_sessions_is_executed_witness:
  "\<forall>tools. \<exists>i1 h out i2. injector_start recording_api (injector_new []) = (i1, Ok ())
    \<and> runtime_run input_deps announcing2 ([PollTurn, Connect 1 5, Connect 0 0]
          @ map (\<lambda>(k, t). Turn k (EventTurn None (InputFrame t))) [(0, ''scroll''), (1, ''bad''), (1, ''scroll'')])
        (runtime_new sample_manager () \<lparr> desk_router = router_new i1 (), desk_tools = tools, desk_world = () \<rparr>) = (h, out)
    \<and> injector_stop recording_api (injector (desk_router (rt_desk h))) = (i2, Ok ())
    \<and> inj_os i2 = [CScroll (- 1) Vertical, CScroll (- 1) Vertical]"
proof
  fix tools
  let ?xs = "[PollTurn, Connect 1 5, Connect 0 0] @ map (\<lambda>(k, t). Turn k (EventTurn None (InputFrame t))) [(0, ''scroll''), (1, ''bad''), (1, ''scroll'')]"
  obtain i1 where i: "injector_start recording_api (injector_new []) = (i1, Ok ())" and o: "inj_os i1 = []"
    by (simp add: injector_start_def injector_new_def recording_api_def)
  have n: "\<not> inj_tx (injector_new [])" by (simp add: injector_new_def)
  let ?h = "runtime_new sample_manager () \<lparr> desk_router = router_new i1 (), desk_tools = tools, desk_world = () \<rparr>"
  obtain h out where r: "runtime_run input_deps announcing2 ?xs ?h = (h, out)" by force
  obtain i2 e where t: "injector_stop recording_api (injector (desk_router (rt_desk h))) = (i2, e)" by force
  have "trace (runtime_step input_deps announcing2) (on_sessions (input_taken input_deps)) ?xs ?h
      = [Scroll (Fin 0) (Fin 1), Scroll (Fin 0) (Fin 1)]"
    by (simp add: runtime_eval on_sessions_def input_taken_def decoded_def event_turn_def input_deps_def desk_deps_def
        sample_session_defs sample_pending2_def)
  moreover have "run_events recording_api d [Scroll (Fin 0) (Fin 1), Scroll (Fin 0) (Fin 1)] []
      = [CScroll (- 1) Vertical, CScroll (- 1) Vertical]" for d
    by (simp add: run_events_def execute_def recording_calls trunc_rat_def)
  ultimately show "\<exists>i1 h out i2. injector_start recording_api (injector_new []) = (i1, Ok ())
    \<and> runtime_run input_deps announcing2 ?xs
        (runtime_new sample_manager () \<lparr> desk_router = router_new i1 (), desk_tools = tools, desk_world = () \<rparr>) = (h, out)
    \<and> injector_stop recording_api (injector (desk_router (rt_desk h))) = (i2, Ok ())
    \<and> inj_os i2 = [CScroll (- 1) Vertical, CScroll (- 1) Vertical]"
    using input_of_all_sessions_is_executed [OF i n input_deps_native _ r t] i r t o
    by (intro exI [of _ i1] exI [of _ h] exI [of _ out] exI [of _ i2]) (simp add: router_new_def del: runtime_run.simps list.map append.simps)
qed

text \<open>The decoder of the sample knows one request, for the list of containers.\<close>

definition command_deps :: "(bytes list, unit, unit, command_spec list \<times> unit) session_deps" where
  "command_deps = desk_deps \<lparr> inject = (\<lambda>i e. (i, Ok ())), clip_set = (\<lambda>c t. (c, Ok ())) \<rparr> (\<lambda>t. Err [])
     (\<lambda>t. if t = ''ps'' then Ok \<lparr> request_id = ''r'', request_kind = RunShortcut Docker ''ps'' None \<rparr> else Err [])
     (recording (\<lambda>w spec. (w, Ok [])))"

theorem viewers_run_only_allowlisted_witness:
  "\<exists>files svc h out. build_devtools (\<lambda>s. Ok []) (\<lambda>s. Ok []) LINUX (store_at [''cfg'']) (sample_fs (\<lambda>n. None)) = (files, svc)
    \<and> runtime_run command_deps announcing2 ([PollTurn, Connect 1 5, Connect 0 0]
          @ map (\<lambda>(k, t). Turn k (EventTurn None (ControlFrame t))) [(0, ''ps''), (1, ''rm''), (1, ''ps'')])
        (runtime_new sample_manager () \<lparr> desk_router = router_new () (), desk_tools = svc, desk_world = ([], ()) \<rparr>) = (h, out)
    \<and> map program (fst (desk_world (rt_desk h))) = [''docker'', ''docker'']
    \<and> list_all (allowlisted (svc_workspaces svc) (svc_hosts svc)) (fst (desk_world (rt_desk h)))"
proof -
  let ?xs = "[PollTurn, Connect 1 5, Connect 0 0] @ map (\<lambda>(k, t). Turn k (EventTurn None (ControlFrame t))) [(0, ''ps''), (1, ''rm''), (1, ''ps'')]"
  obtain files svc where b: "build_devtools (\<lambda>s. Ok []) (\<lambda>s. Ok []) LINUX (store_at [''cfg'']) (sample_fs (\<lambda>n. None)) = (files, svc)"
    by force
  let ?dk = "\<lparr> desk_router = router_new () (), desk_tools = svc, desk_world = ([], ()) \<rparr>"
  obtain h out where r: "runtime_run command_deps announcing2 ?xs (runtime_new sample_manager () ?dk) = (h, out)" by force
  have d: "dep_runner command_deps = recording (\<lambda>w spec. (w, Ok []))" by (simp add: command_deps_def desk_deps_def)
  have c: "dep_dial command_deps = dep_dial sample_deps" "dep_builder command_deps = dep_builder sample_deps"
    by (simp_all add: command_deps_def desk_deps_def)
  have ps: "handle_frame (dep_parse_dev command_deps) (dep_runner command_deps) t (log, ()) ''ps''
      = (count_dispatched t, (log @ [command_captured ''docker'' [''ps''] None], ()), Some (result_ok ''r'' ''Launched docker''))" for t log
    by (simp add: d handle_frame_def handle_def recording_def)
      (simp add: command_deps_def desk_deps_def handle_def plan_def find_shortcut_def CATALOG_def resolve_optional_def recording_def args_owned_def)
  have rm: "handle_frame (dep_parse_dev command_deps) (dep_runner command_deps) t w ''rm'' = (count_rejected t, w, None)" for t w
    by (simp add: handle_frame_def) (simp add: command_deps_def desk_deps_def)
  have f: "trace (runtime_step command_deps announcing2) (on_sessions control_taken) ?xs (runtime_new sample_manager () ?dk) = [''ps'', ''rm'', ''ps'']"
    by (simp add: runtime_eval on_sessions_def control_taken_def event_turn_def c ps rm sample_session_defs sample_pending2_def)
  have "map program (concat (map (planned (dep_parse_dev command_deps) svc) [''ps'', ''rm'', ''ps''])) = [''docker'', ''docker'']"
    by (simp add: planned_def command_deps_def desk_deps_def plan_def find_shortcut_def CATALOG_def resolve_optional_def)
  with viewers_run_only_allowlisted [OF b d _ _ r f [symmetric]] b r
  show ?thesis by (intro exI [of _ files] exI [of _ svc] exI [of _ h] exI [of _ out]) (simp add: list_all_iff del: runtime_run.simps list.map append.simps)
qed

end
