(* ===== verification/Daemon_Run.thy ===== *)
theory Daemon_Run
  imports Daemon Input_Native
begin

text \<open>
  The daemon with its native parts: the agent over the capturer and the capture loop, and beside it the native injector,
  from their start to the interrupt (\<open>main\<close> of \<open>crates/config-ui/src/main.rs\<close>). The state is that of the capture side
  paired with that of the injector; a subsystem of one side leaves the other alone.
\<close>

section \<open>Subsystems of one side\<close>

definition on_left :: "'v subsystem \<Rightarrow> ('v \<times> 'i) subsystem" where
  "on_left s = \<lparr> sub_name = sub_name s,
     sub_start = (\<lambda>(v, i). case sub_start s v of (v', r) \<Rightarrow> ((v', i), r)),
     sub_stop = (\<lambda>(v, i). case sub_stop s v of (v', r) \<Rightarrow> ((v', i), r)),
     sub_health = (\<lambda>(v, i). sub_health s v) \<rparr>"

definition on_right :: "'i subsystem \<Rightarrow> ('v \<times> 'i) subsystem" where
  "on_right s = \<lparr> sub_name = sub_name s,
     sub_start = (\<lambda>(v, i). case sub_start s i of (i', r) \<Rightarrow> ((v, i'), r)),
     sub_stop = (\<lambda>(v, i). case sub_stop s i of (i', r) \<Rightarrow> ((v, i'), r)),
     sub_health = (\<lambda>(v, i). sub_health s i) \<rparr>"

lemma stop_each_left: "stop_each (map on_left ss) (v, i) = (stop_each ss v, i)"
  by (induction ss arbitrary: v) (auto simp: on_left_def split: prod.split)

lemma start_each_left:
  "start_each (map on_left started) (map on_left ss) (v, i) = (case start_each started ss v of (v', r) \<Rightarrow> ((v', i), r))"
proof (induction ss arbitrary: started v)
  case (Cons s ss)
  obtain v1 r where s: "sub_start s v = (v1, r)" by force
  have l: "sub_start (on_left s) (v, i) = ((v1, i), r)" by (simp add: on_left_def s)
  show ?case
  proof (cases r)
    case (Inl e)
    then show ?thesis using s l by (simp add: rev_map stop_each_left)
  next
    case (Inr x)
    then show ?thesis using s l Cons.IH [of "started @ [s]" v1] by simp
  qed
qed simp

lemma agent_start_left:
  "agent_start (agent_new c (map on_left ss)) (v, i) = (case agent_start (agent_new c ss) v of (v', r) \<Rightarrow> ((v', i), r))"
  using start_each_left [of "[]" ss v i] by (simp add: agent_start_def agent_new_def)

lemma agent_stop_left: "agent_stop (agent_new c (map on_left ss)) (v, i) = ((fst (agent_stop (agent_new c ss) v), i), Ok ())"
  by (simp add: agent_stop_def agent_new_def rev_map stop_each_left)

section \<open>The native daemon\<close>

definition native_agent :: "'o xcap_api \<Rightarrow> agent_config \<Rightarrow> (('o xcap_capturer \<times> capture_loop) \<times> 'e enigo_injector) agent" where
  "native_agent api c = agent_new c (map on_left (agent_subsystems (xcap_capturer_of api)))"

definition native_daemon :: "'o xcap_api \<Rightarrow> 'e enigo_api \<Rightarrow> agent_config
    \<Rightarrow> (('o xcap_capturer \<times> capture_loop) \<times> 'e enigo_injector \<Rightarrow> ('o xcap_capturer \<times> capture_loop) \<times> 'e enigo_injector)
    \<Rightarrow> ('o xcap_capturer \<times> capture_loop) \<times> 'e enigo_injector
    \<Rightarrow> (('o xcap_capturer \<times> capture_loop) \<times> 'e enigo_injector) \<times> (unit, error_chain) result" where
  "native_daemon api en c = run_agent (native_agent api c) (on_right (injector_subsystem en))"

text \<open>What stopping the agent and the injector leaves behind, whatever state they were in.\<close>

lemma native_stop:
  assumes "agent_stop (agent_new c (agent_subsystems (xcap_capturer_of api))) v = ((w, l), r)"
  shows "\<not> xc_running w \<and> \<not> cl_running l \<and> cl_task l = None"
proof -
  obtain u k where v: "v = (u, k)" by force
  show ?thesis using assms
    by (auto simp: v agent_stop_def agent_new_def agent_subsystems_def capturer_part_def loop_part_def xcap_capturer_of_def
        xcap_subsystem_def xcap_stop_def loop_stop_def)
qed

lemma injector_stop_down: "injector_stop en i = (i', r) \<Longrightarrow> \<not> inj_tx i' \<and> \<not> inj_thread i'"
  by (auto simp: injector_stop_def Let_def split: if_splits)



end
