(* ===== verification/Spec2Isabelle.thy ===== *)
theory Spec2Isabelle
  imports Crypto Bitrate Session_Answer Runtime Daemon_Run
begin

text \<open>
  A verification library of the DeskSync desktop agent, the Rust workspace \<open>src/desktop-agent\<close>. DeskSync lets a phone
  drive a desktop: the agent on the desktop registers itself with a backend, answers the sessions the backend announces,
  negotiates a WebRTC connection with the phone (the controller) over a signaling service, streams its screen as JPEG
  frames over a data channel, injects the input it receives and runs developer actions from an allow-list.

  \<^bold>\<open>Theories and crates.\<close> The theories follow the crates, in the order in which one uses the other.

  \<^item> \<open>Prelude\<close>: machine integers as words, results as sums (\<open>Inl\<close> for \<open>Err\<close>, \<open>Inr\<close> for \<open>Ok\<close>), byte encodings.
    \<open>Guards\<close> and \<open>Runs\<close>: the interfaces of replay guards and of labelled state machines. \<open>Rust_Str\<close> and \<open>Utf8\<close>: strings
    as UTF-8 byte lists, with \<open>trim\<close>, lossy decoding and cutting at character boundaries. \<open>Ieee\<close>: the binary32 and
    binary64 arithmetic of Rust, with rounding to nearest even, infinities, NaN and the saturating casts.
  \<^item> \<open>Crypto\<close> (crate \<open>crypto\<close>): key derivation and the two directions of the \<open>SecureChannel\<close>, sealing and opening with
    counters; certificate pins.
  \<^item> \<open>Agent_Error\<close>, \<open>Agent_Core\<close>, \<open>Fs\<close>, \<open>Identity\<close>, \<open>Store\<close>, \<open>Startup\<close> (crate \<open>core\<close>): errors, configuration and its
    validation, the subsystem contract and the agent that starts and stops subsystems, the file system, the identity key,
    atomic persistence, launch at login and the single-instance lock.
  \<^item> \<open>Signaling\<close>, \<open>Negotiation\<close>, \<open>Bitrate\<close> (crate \<open>transport\<close>): envelopes, the replay guard and the WebSocket transport;
    the negotiation state machine of both roles and their composition over the relay; the adaptive bitrate controller.
  \<^item> \<open>Dev_Model\<close>, \<open>Dev_Registry\<close>, \<open>Dev_Plan\<close>, \<open>Dev_Service\<close> (crate \<open>devtools\<close>): wire model, registries of workspaces and
    hosts, planning of a command from a request, the runner and the service.
  \<^item> \<open>Frame\<close>, \<open>Capture\<close> (crate \<open>capture\<close>): frames and their scaling, the capturers and the capture loop.
    \<open>Input\<close>, \<open>Input_Native\<close> (crate \<open>input\<close>): events, mappings, router, clipboards, the native injector with its thread.
    \<open>Media\<close> (crate \<open>media\<close>): the encoder, the peer, the chunks of a frame, and the assembler of the viewer
    (\<open>webrtc_session.dart\<close> of the mobile application), the other end of that wire format.
  \<^item> \<open>Backend\<close> (crate \<open>backend\<close>): errors, models, requests, enrollment, host detection.
  \<^item> \<open>Session_Runtime\<close>, \<open>Session_Safety\<close>, \<open>Session_Stream\<close>, \<open>Session_Answer\<close>, \<open>Session_Input\<close>, \<open>Runtime\<close>, \<open>Daemon\<close>,
    \<open>Daemon_Run\<close> (crate \<open>config-ui\<close>): the discovery of sessions, one session with its three tasks and what holds of it in
    every interleaving; the three flows through a session, which are the stream of frames from the capture loop to the
    viewer, the exchange of descriptions with a controller over the service, and the input from the viewer to the operating
    system; the session runtime as a whole, with its polls, the tasks it spawns and any number of sessions side by side that
    share the input router and the developer tools; the process with its configuration, pairing mode, heartbeats and order
    of boot, and its run with the native parts from start to shutdown.

  \<^bold>\<open>Style of the model.\<close> A struct is a record, an enum a datatype, each function one definition with the guards and
  early returns of the code; state is passed explicitly. A Rust panic (an index out of range, a slice of the wrong length, an
  unchecked addition in a debug build) is the value \<open>None\<close> of the operations that can panic. Integers keep their width where
  the code can wrap around; byte and file lengths are natural numbers. Tasks that run concurrently are sequences of turns,
  split where the code awaits something in between, and a run is an arbitrary list of turns: what holds of all runs holds of
  all interleavings.

  \<^bold>\<open>Interfaces.\<close> \<open>monotone_guard\<close> and \<open>complete_guard\<close> (\<open>Guards\<close>): acceptors with a high-water mark; interpreted by the
  signaling \<open>ReplayGuard\<close>, the receiving half of the channel, and the nonce guard of the signaling service, on nonces and on
  envelopes. \<open>labelled_run\<close> (\<open>Runs\<close>): machines driven by labels, with the invariant rules for what is emitted and observed;
  interpreted by the negotiation machine, a session, the runtime of all sessions, and the capture loop. \<open>lifecycle\<close>, \<open>idempotent_lifecycle\<close>, \<open>subsystem_family\<close>
  (\<open>Agent_Core\<close>) and \<open>capturer_laws\<close> (\<open>Capture\<close>): what the agent relies on in a subsystem; interpreted by both capturers, the
  capture loop and the native injector, and by the agent's own wiring through a sublocale. \<open>keyed_registry\<close>
  (\<open>Dev_Registry\<close>): a registry refines a map; interpreted by workspaces and hosts. \<open>clipboard\<close> (\<open>Input\<close>): what was set is
  read.

  \<^bold>\<open>What the theorems show.\<close>

  \<^item> Channel: two devices that derive their keys from each other deliver what is sealed, in order, in both directions; no
    nonce is used twice; a frame is accepted at most once and only if the peer could have sealed it.
  \<^item> Negotiation: one offer and one answer per controller, roles never mix, the answer applied belongs to the offer made, the
    exchange cannot get stuck and always ends.
  \<^item> Session: the envelopes it sends carry distinct nonces; the service takes them all unless the two sending tasks race, and
    a race loses the answer; the state is that of the negotiation machine on what was received; frames are paced; the viewer
    sees exactly the frames that were sent, whole and in order; an offer that waits in the socket is answered, and the
    controller applies that answer.
  \<^item> Runtime: sessions do not see each other, each being where a run of its own turns takes it; each announced session is
    answered by exactly one task, up to 512 of them; the operating system executes exactly the input that all sessions took,
    in order; the commands run are exactly the plans of the requests of all sessions.
  \<^item> Frames: scaling copies the proportional pixels; what the capture loop publishes is well formed and can be encoded.
  \<^item> Persistence: a file is its old or its new content under every fault; configuration and identity survive restarts.
  \<^item> Process: one running instance per lock file; nothing runs with an invalid configuration; requests carry the tokens they
    should; registries fail closed; the shutdown leaves nothing running.
  \<^item> Developer tools and input: only allow-listed commands are planned, every request is counted and answered, registries
    refine maps; events are injected once and in order, and a release undoes its press.
  \<^item> Bitrate: the target stays within the limits for all samples, and reaches the floor under persistent loss.

  \<^bold>\<open>Parameters.\<close> Code that is not in the repository is an argument of the definitions that use it, and what the proofs
  need of it is a named predicate with documented behaviour, satisfied by a concrete instance in a witness: AES-GCM, HKDF and
  X25519 (\<open>gcm_laws\<close>, \<open>gcm_binding\<close>, \<open>kdf_laws\<close>, \<open>dh_laws\<close>), hex and base64 of the identity (\<open>identity_laws\<close>), the
  JSON forms of the configuration (\<open>json_reads_back\<close>), the advisory file lock (\<open>lock_laws\<close>), the ordered data channel of the
  WebRTC stack (\<open>in_order_channel\<close>), a stack that answers an offer and a socket that takes every message
  (\<open>answers_with\<close>, \<open>sends_all\<close>), and, without laws, the screen, input and clipboard libraries, the JPEG encoder, the
  HTTP client, the WebSocket, the QR code library and the decoders derived by serde.

  \<^bold>\<open>Bounds, fault schedules, termination.\<close> Every function of the model is total; no fuel is used. Loops of the code that
  run for ever (polling, heartbeats, capture, a session) are modelled by one round and any number of rounds. The file system
  carries a schedule that tells for each system call whether it fails and, for a write, after how many bytes; theorems
  quantify over all schedules, so they cover a crash between any two calls. The nonces of a session are distinct for fewer
  than 2 to the 64 turns, the counters of the channel end in an error before they wrap.

  \<^bold>\<open>Not modelled.\<close> Logging and the periodic statistics; the timers themselves (the times of the turns are inputs); the
  signal handler; the content of the JPEG images; the mapping of JSON text to values, which serde derives; memory and
  resource limits of the operating system; panics of the injector thread; whether the event task is aborted at the end of a
  session while a command it has started still runs. The unit tests of the crates. The Go services, the
  Flutter application, and the deployment files, apart from the nonce guard and the chunk assembler named above: they are
  the environment of the agent.
\<close>

section \<open>From the screen to the viewer\<close>

text \<open>
  C31: Whatever a capture loop publishes can be encoded: over any sequence of starts, stops and rounds, with a capturer
  whose frames are complete but may be empty, a published frame is complete, has even dimensions of at least two pixels
  and at most the configured height (or two), and the encoder neither panics on it nor calls it invalid.
\<close>

theorem published_frames_encode:
  assumes "\<forall>w i w' f. cap_capture cap w i = (w', Ok f) \<longrightarrow> is_valid f"
    and "loop_run cap xs (w, loop_new st) = (w', l)" and "cl_latest l = Some g"
  shows "well_formed g \<and> unat (frame_height g) \<le> max (unat (set_max_height st)) 2
    \<and> encode jpeg (encoder_new h q) g \<noteq> None \<and> encode jpeg (encoder_new h q) g \<noteq> Some (Err InvalidFrame)"
proof -
  have "publishes_well_formed (set_max_height st) (w', l)"
    using loop_run_well_formed [OF assms(1), of st xs w] assms(2) by simp
  then have "well_formed g \<and> unat (frame_height g) \<le> max (unat (set_max_height st)) 2"
    using assms(3) by (simp add: publishes_well_formed_def)
  then show ?thesis using well_formed_encodes by blast
qed

theorem published_frames_encode_witness:
  "\<exists>l g. loop_run (xcap_capturer_of sample_xcap) [StartLoop, TickLoop, StopLoop]
      (\<lparr> xc_running = False, xc_os = () \<rparr>, loop_new capture_settings_default) = (\<lparr> xc_running = False, xc_os = () \<rparr>, l)
    \<and> cl_latest l = Some g \<and> well_formed g \<and> encode (\<lambda>q d a b. Ok [q]) streaming_default g \<noteq> None"
proof -
  let ?cap = "xcap_capturer_of sample_xcap" and ?c = "\<lparr> xc_running = False, xc_os = () \<rparr>"
  have d: "decimal 1 = ''1''" by code_simp
  have v: "\<forall>w i w' f. cap_capture ?cap w i = (w', Ok f) \<longrightarrow> is_valid f"
    by (auto simp: xcap_capturer_of_def xcap_capture_def sample_xcap_def map_err_def sample_monitor_def is_valid_def
        expected_len_def pixel_count_def split: if_splits)
  let ?f = "\<lparr> frame_width = 1, frame_height = 1, timestamp_us = 0, frame_data = [3, 2, 1, 255] \<rparr>"
  obtain g where "downscale_to_max_height ?f 1080 = Some g"
    using downscale_proper [of ?f 1080] by (auto simp: is_valid_def expected_len_def pixel_count_def)
  then obtain l where l: "loop_run ?cap [StartLoop, TickLoop, StopLoop] (?c, loop_new capture_settings_default) = (?c, l)"
      "cl_latest l = Some g"
    by (simp add: loop_run_def loop_step_def loop_start_def loop_tick_def loop_stop_def resolve_monitor_def loop_new_def
        capture_settings_default_def xcap_capturer_of_def xcap_capture_def xcap_monitors_def sample_xcap_def map_err_def
        sample_monitor_def describe_def has_id_def d [unfolded One_nat_def])
  then show ?thesis using published_frames_encode [OF v l] by (auto simp: streaming_default_def)
qed

end
